(* ===== verification/Prelude.thy ===== *)
theory Prelude
  imports Main "HOL-Library.Word"
begin

section \<open>Shared vocabulary: bytes, C integers, memory blocks\<close>

text \<open>
  This theory holds what every component of the development uses.

  \<^item> The machine types of the C sources (bytes and fixed-width words), and the conversion
    \<open>int32\<close> of a value to a C \<open>int\<close>.
  \<^item> The little-endian representation of an unsigned integer (\<open>le_enc\<close>, \<open>le_dec\<close>).
  \<^item> A memory block as the list of its bytes. A read (\<open>load\<close>) or a write (\<open>store\<close>)
    that leaves the block is \<open>None\<close>: the C code has no defined behaviour there, and the
    development calls that outcome a memory fault.
  \<^item> A sequence of writes (\<open>stores\<close>), which is how the kernel fills a trace record field
    by field, with the lemma collection \<open>mem_simps\<close> that reads a field back.
  \<^item> C strings: the bytes up to the first zero byte (\<open>cstr\<close>).
  \<^item> The kernel heap as a partial map from addresses to blocks, with \<open>kmalloc\<close> and
    \<open>kfree\<close>.
\<close>

named_theorems mem_simps \<comment> \<open>reading back what a sequence of writes left in a block\<close>

type_synonym byte = "8 word"
type_synonym bytes = "byte list"
type_synonym u16 = "16 word"
type_synonym u32 = "32 word"
type_synonym u64 = "64 word"

type_synonym ptr = nat \<comment> \<open>an address; 0 is the null pointer\<close>

abbreviation (input) NULL :: ptr where
  "NULL \<equiv> 0"

subsection \<open>Error numbers\<close>

text \<open>The error numbers the sources return, with the values of the Linux headers.\<close>

abbreviation (input) EPERM :: int where "EPERM \<equiv> 1"
abbreviation (input) ENOENT :: int where "ENOENT \<equiv> 2"
abbreviation (input) EIO :: int where "EIO \<equiv> 5"
abbreviation (input) EBADF :: int where "EBADF \<equiv> 9"
abbreviation (input) ECHILD :: int where "ECHILD \<equiv> 10"
abbreviation (input) ENOMEM :: int where "ENOMEM \<equiv> 12"
abbreviation (input) EACCES :: int where "EACCES \<equiv> 13"
abbreviation (input) EFAULT :: int where "EFAULT \<equiv> 14"
abbreviation (input) EBUSY :: int where "EBUSY \<equiv> 16"
abbreviation (input) EXDEV :: int where "EXDEV \<equiv> 18"
abbreviation (input) EINVAL :: int where "EINVAL \<equiv> 22"
abbreviation (input) ENOTTY :: int where "ENOTTY \<equiv> 25"
abbreviation (input) ENOTEMPTY :: int where "ENOTEMPTY \<equiv> 39"
abbreviation (input) EOPNOTSUPP :: int where "EOPNOTSUPP \<equiv> 95"
abbreviation (input) ESTALE :: int where "ESTALE \<equiv> 116"
abbreviation (input) EIOCBQUEUED :: int where "EIOCBQUEUED \<equiv> 529"

subsection \<open>C integers\<close>

text \<open>The value a C \<open>int\<close> holds after \<open>x\<close> is assigned to it: 32 bits, two's complement.\<close>

definition int32 :: "int \<Rightarrow> int" where
  "int32 x = sint (word_of_int x :: 32 word)"

text \<open>The value a \<open>size_t\<close> holds after a (possibly negative) integer is converted to it.\<close>

definition size_t :: "int \<Rightarrow> nat" where
  "size_t x = nat (x mod 2 ^ 64)"

subsection \<open>Little-endian integers\<close>

fun le_enc :: "nat \<Rightarrow> nat \<Rightarrow> bytes" where
  "le_enc 0 x = []"
| "le_enc (Suc n) x = word_of_nat (x mod 256) # le_enc n (x div 256)"

fun le_dec :: "bytes \<Rightarrow> nat" where
  "le_dec [] = 0"
| "le_dec (b # bs) = unat b + 256 * le_dec bs"

text \<open>The bytes of a (possibly negative) C integer of \<open>n\<close> bytes.\<close>

definition le_int :: "nat \<Rightarrow> int \<Rightarrow> bytes" where
  "le_int n x = le_enc n (nat (x mod 256 ^ n))"

text \<open>A C \<open>int\<close> read from its four bytes.\<close>

definition sle_dec :: "bytes \<Rightarrow> int" where
  "sle_dec bs = int32 (int (le_dec bs))"

subsection \<open>Memory blocks\<close>

definition load :: "nat \<Rightarrow> nat \<Rightarrow> bytes \<Rightarrow> bytes option" where
  "load off n blk = (if off + n \<le> length blk then Some (take n (drop off blk)) else None)"

definition store :: "nat \<Rightarrow> bytes \<Rightarrow> bytes \<Rightarrow> bytes option" where
  "store off v blk =
     (if off + length v \<le> length blk
      then Some (take off blk @ v @ drop (off + length v) blk) else None)"

fun stores :: "(nat \<times> bytes) list \<Rightarrow> bytes \<Rightarrow> bytes option" where
  "stores [] blk = Some blk"
| "stores ((off, v) # ss) blk =
     (case store off v blk of None \<Rightarrow> None | Some blk' \<Rightarrow> stores ss blk')"

text \<open>
  \<open>final_at off n ss\<close> is the value that the writes \<open>ss\<close> leave in the \<open>n\<close> bytes at
  \<open>off\<close>, when the last write to any of them covers all of them.
\<close>

fun final_at :: "nat \<Rightarrow> nat \<Rightarrow> (nat \<times> bytes) list \<Rightarrow> bytes option" where
  "final_at off n [] = None"
| "final_at off n ((p, v) # ss) =
     (case final_at off n ss of
        Some w \<Rightarrow> Some w
      | None \<Rightarrow>
          if p \<le> off \<and> off + n \<le> p + length v \<and>
             list_all (\<lambda>(q, w). q + length w \<le> off \<or> off + n \<le> q) ss
          then Some (take n (drop (off - p) v)) else None)"

text \<open>The bytes of a C string: everything before the first zero byte.\<close>

definition cstr :: "bytes \<Rightarrow> bytes" where
  "cstr bs = takeWhile (\<lambda>b. b \<noteq> 0) bs"

subsection \<open>The kernel heap\<close>

text \<open>
  \<open>kmalloc\<close> is kernel code and a parameter: \<open>km k n\<close> is the outcome of the \<open>k\<close>-th
  allocation request when it asks for \<open>n\<close> bytes: \<open>None\<close> when the allocator fails,
  \<open>Some g\<close> when it succeeds with a block whose uninitialised bytes are \<open>g\<close>. The heap hands
  out the address \<open>Suc k\<close> for the \<open>k\<close>-th request, so addresses are fresh and never null.
\<close>

type_synonym allocator = "nat \<Rightarrow> nat \<Rightarrow> bytes option"

record kheap =
  blocks :: "ptr \<rightharpoonup> bytes"
  requests :: nat

definition kmalloc :: "allocator \<Rightarrow> nat \<Rightarrow> kheap \<Rightarrow> ptr \<times> kheap" where
  "kmalloc km n h =
     (let h' = h\<lparr>requests := Suc (requests h)\<rparr> in
      case km (requests h) n of
        None \<Rightarrow> (NULL, h')
      | Some g \<Rightarrow> (Suc (requests h), h'\<lparr>blocks := (blocks h)(Suc (requests h) \<mapsto> g)\<rparr>))"

text \<open>Freeing the null pointer does nothing; freeing what is not allocated is a memory fault.\<close>

definition kfree :: "ptr \<Rightarrow> kheap \<Rightarrow> kheap option" where
  "kfree p h =
     (if p = NULL then Some h
      else if blocks h p = None then None
      else Some (h\<lparr>blocks := (blocks h)(p := None)\<rparr>))"

text \<open>What the code relies on of the allocator: a block has the requested size.\<close>

definition alloc_sized :: "allocator \<Rightarrow> bool" where
  "alloc_sized km \<longleftrightarrow> (\<forall>k n g. km k n = Some g \<longrightarrow> length g = n)"

text \<open>Every allocated address has been handed out by an earlier request.\<close>

definition heap_wf :: "kheap \<Rightarrow> bool" where
  "heap_wf h \<longleftrightarrow> (\<forall>p \<in> dom (blocks h). 0 < p \<and> p \<le> requests h)"

section \<open>Lemmas\<close>

subsection \<open>Integers\<close>

lemma int32_alt: "int32 x = (x + 2 ^ 31) mod 2 ^ 32 - 2 ^ 31"
  by (simp add: int32_def int_word_sint)

lemma int32_id: "- (2 ^ 31) \<le> x \<Longrightarrow> x < 2 ^ 31 \<Longrightarrow> int32 x = x"
  by (simp add: int32_alt)

lemma int32_nat: "n < 2 ^ 31 \<Longrightarrow> int32 (int n) = int n"
  by (rule int32_id) simp_all

lemma int32_range: "- (2 ^ 31) \<le> int32 x \<and> int32 x < 2 ^ 31"
  by (simp add: int32_alt)

lemma int32_mod: "int32 (x mod 4294967296) = int32 x"
  by (simp add: int32_alt mod_add_left_eq)

lemma size_t_nonneg: "0 \<le> x \<Longrightarrow> x < 2 ^ 64 \<Longrightarrow> size_t x = nat x"
  by (simp add: size_t_def)

lemma size_t_of_nat: "n < 2 ^ 64 \<Longrightarrow> size_t (int n) = n"
  by (simp add: size_t_def)

subsection \<open>Little-endian round trips\<close>

lemma length_le_enc [simp]: "length (le_enc n x) = n"
  by (induction n arbitrary: x) auto

lemma length_le_int [simp]: "length (le_int n x) = n"
  by (simp add: le_int_def)

lemma le_dec_le_enc_mod: "le_dec (le_enc n x) = x mod 256 ^ n"
proof (induction n arbitrary: x)
  case 0
  then show ?case by simp
next
  case (Suc n)
  have "x mod 256 ^ Suc n = x mod 256 + 256 * (x div 256 mod 256 ^ n)"
    by (simp add: mod_mult2_eq)
  moreover have "unat (word_of_nat (x mod 256) :: 8 word) = x mod 256"
    by (simp add: unat_of_nat)
  ultimately show ?case using Suc.IH [of "x div 256"] by simp
qed

lemma le_dec_le_enc: "x < 256 ^ n \<Longrightarrow> le_dec (le_enc n x) = x"
  by (simp add: le_dec_le_enc_mod)

lemma le_enc_le_dec: "le_enc (length bs) (le_dec bs) = bs"
proof (induction bs)
  case Nil
  then show ?case by simp
next
  case (Cons b bs)
  have "unat b < 256" using unsigned_less [of b, where ?'a = nat] by simp
  then show ?case using Cons.IH by simp
qed

lemma le_enc_mod: "le_enc n (x mod 256 ^ n) = le_enc n x"
  by (metis le_dec_le_enc_mod le_enc_le_dec length_le_enc)

lemma le_int_nat: "le_int n (int x) = le_enc n x"
  by (simp add: le_int_def nat_mod_distrib nat_power_eq le_enc_mod)

lemma sle_dec_le_int: "- (2 ^ 31) \<le> x \<Longrightarrow> x < 2 ^ 31 \<Longrightarrow> sle_dec (le_int 4 x) = x"
proof -
  assume x: "- (2 ^ 31) \<le> x" "x < 2 ^ 31"
  have "le_dec (le_int 4 x) = nat (x mod 2 ^ 32)"
    by (simp add: le_int_def le_dec_le_enc_mod nat_less_iff)
  then have "int32 (int (le_dec (le_int 4 x))) = int32 (x mod 2 ^ 32)" by simp
  with x show ?thesis by (simp add: sle_dec_def int32_mod int32_id)
qed

lemma le_dec_le_int: "le_dec (le_int n x) = nat (x mod 256 ^ n)"
  by (simp add: le_int_def le_dec_le_enc_mod nat_less_iff)

subsection \<open>Reads and writes\<close>

lemma store_SomeD: "store off v blk = Some blk' \<Longrightarrow> length blk' = length blk"
  by (auto simp: store_def split: if_splits)

lemma store_Some_iff: "(\<exists>blk'. store off v blk = Some blk') \<longleftrightarrow> off + length v \<le> length blk"
  by (simp add: store_def)

lemma load_store_same: "store off v blk = Some blk' \<Longrightarrow> load off (length v) blk' = Some v"
  by (auto simp: store_def load_def split: if_splits)

lemma load_store_within:
  assumes "store p v blk = Some blk'" and "p \<le> off" and "off + n \<le> p + length v"
  shows "load off n blk' = Some (take n (drop (off - p) v))"
proof -
  from assms(1) have blk': "blk' = take p blk @ v @ drop (p + length v) blk"
    and le: "p + length v \<le> length blk"
    by (auto simp: store_def split: if_splits)
  have "drop off blk' = drop (off - p) v @ drop (p + length v) blk"
    using le assms(2,3) by (simp add: blk')
  with assms le show ?thesis by (simp add: load_def blk')
qed

lemma load_store_other:
  assumes "store p v blk = Some blk'" and "p + length v \<le> off \<or> off + n \<le> p"
  shows "load off n blk' = load off n blk"
proof -
  from assms(1) have blk': "blk' = take p blk @ v @ drop (p + length v) blk"
    and le: "p + length v \<le> length blk"
    by (auto simp: store_def split: if_splits)
  have "take n (drop off blk') = take n (drop off blk)"
    using assms(2)
  proof
    assume "p + length v \<le> off"
    with le show ?thesis by (simp add: blk')
  next
    assume "off + n \<le> p"
    with le have "take (n + off) blk' = take (n + off) blk" by (simp add: blk' min_def)
    then show ?thesis by (simp add: take_drop)
  qed
  moreover have "length blk' = length blk" using assms(1) by (rule store_SomeD)
  ultimately show ?thesis by (simp add: load_def)
qed

lemma stores_length: "stores ss blk = Some blk' \<Longrightarrow> length blk' = length blk"
  by (induction ss blk rule: stores.induct)
    (auto split: option.splits dest: store_SomeD)

lemma stores_Some_iff:
  "(\<exists>blk'. stores ss blk = Some blk') \<longleftrightarrow> (\<forall>(p, v) \<in> set ss. p + length v \<le> length blk)"
proof (induction ss blk rule: stores.induct)
  case (1 blk)
  then show ?case by simp
next
  case (2 off v ss blk)
  show ?case
  proof (cases "store off v blk")
    case None
    then show ?thesis by (auto simp: store_def split: if_splits)
  next
    case (Some b)
    then have "off + length v \<le> length blk" and "length b = length blk"
      by (auto simp: store_def split: if_splits)
    with Some "2" [OF Some] show ?thesis by simp
  qed
qed

lemma stores_NoneI: "(p, v) \<in> set ss \<Longrightarrow> length blk < p + length v \<Longrightarrow> stores ss blk = None"
  using stores_Some_iff [of ss blk] by (cases "stores ss blk") fastforce+

lemma load_stores_other:
  assumes "stores ss blk = Some blk'"
    and "list_all (\<lambda>(q, w). q + length w \<le> off \<or> off + n \<le> q) ss"
  shows "load off n blk' = load off n blk"
  using assms
  by (induction ss blk rule: stores.induct)
    (auto split: option.splits simp: load_store_other)

lemma load_stores_final:
  "final_at off n ss = Some v \<Longrightarrow> stores ss blk = Some blk' \<Longrightarrow> load off n blk' = Some v"
proof (induction ss blk rule: stores.induct)
  case (1 blk)
  then show ?case by simp
next
  case (2 p w ss blk)
  from "2.prems"(2) obtain b where b: "store p w blk = Some b" and rest: "stores ss b = Some blk'"
    by (auto split: option.splits)
  show ?case
  proof (cases "final_at off n ss")
    case (Some v')
    with "2.prems"(1) have "v' = v" by simp
    with "2.IH" [OF b] Some rest show ?thesis by simp
  next
    case None
    with "2.prems"(1) have pw: "p \<le> off" "off + n \<le> p + length w" "v = take n (drop (off - p) w)"
      and dis: "list_all (\<lambda>(q, w). q + length w \<le> off \<or> off + n \<le> q) ss"
      by (auto split: if_splits)
    from rest dis have "load off n blk' = load off n b" by (rule load_stores_other)
    with load_store_within [OF b] pw show ?thesis by simp
  qed
qed

lemma load_append:
  "load off n blk = Some a \<Longrightarrow> load (off + n) m blk = Some b \<Longrightarrow> load off (n + m) blk = Some (a @ b)"
  by (auto simp: load_def take_add split: if_splits)
    (metis add.commute drop_drop)

lemma load_prefix: "off + n \<le> length blk \<Longrightarrow> load off n (blk @ rest) = load off n blk"
  by (simp add: load_def)

subsection \<open>C strings\<close>

lemma cstr_terminated: "0 \<notin> set s \<Longrightarrow> cstr (s @ 0 # rest) = s"
  by (induction s) (auto simp: cstr_def)

lemma cstr_no_nul: "0 \<notin> set (cstr bs)"
  by (auto simp: cstr_def dest: set_takeWhileD)

subsection \<open>Heap\<close>

lemma kmalloc_fresh: "heap_wf h \<Longrightarrow> blocks h (Suc (requests h)) = None"
  by (auto simp: heap_wf_def dom_def)

lemma kmalloc_wf: "heap_wf h \<Longrightarrow> kmalloc km n h = (p, h') \<Longrightarrow> heap_wf h'"
  by (auto simp: heap_wf_def kmalloc_def Let_def dom_def le_Suc_eq split: option.splits if_splits)

lemma kfree_wf: "heap_wf h \<Longrightarrow> kfree p h = Some h' \<Longrightarrow> heap_wf h'"
  by (auto simp: heap_wf_def kfree_def split: if_splits)

lemma heap_wf_null: "heap_wf h \<Longrightarrow> blocks h NULL = None"
  by (cases "blocks h NULL") (auto simp: heap_wf_def)

end
