(* ===== verification/Msgq.thy ===== *)
theory Msgq
  imports Prelude
begin

unbundle bit_operations_syntax

section \<open>The message queues (trfs/trfs_msgq.c, trfs/trfs_msgq.h)\<close>

text \<open>
  The kernel hands every trace record to a queue and returns to the caller; a kernel thread
  takes the records out and writes them. A queue is a ring buffer of pointers in a static
  array of queue nodes. This theory models the nodes, the static variables and every function
  of \<^verbatim>\<open>trfs_msgq.c\<close>; the locking and waiting of the two ends is visible as follows:
  \<^item> insertion and removal run with the mutex \<open>q_lock\<close> held, so each is one step;
  \<^item> \<open>trfsMqRecv\<close> sleeps until its condition holds or a signal (or its timeout) ends the
    wait; that outcome is the argument \<open>woken_early\<close>, and a call whose condition does not
    hold and that is not ended early has the outcome \<open>RecvBlocks\<close>.
  A memory fault is \<open>None\<close>, as everywhere in the development.
\<close>

subsection \<open>Constants\<close>

abbreviation (input) TRFS_MAX_TX_Q_MSGS :: int where "TRFS_MAX_TX_Q_MSGS \<equiv> 1024"
abbreviation (input) TRFS_MAX_TX_Q_MSG_SIZE :: int where "TRFS_MAX_TX_Q_MSG_SIZE \<equiv> 100"
abbreviation (input) TRFS_TX_Q_MAX_NODES :: nat where "TRFS_TX_Q_MAX_NODES \<equiv> 10"
abbreviation (input) TRFS_MQ_MAX_NO_OF_Q :: nat where "TRFS_MQ_MAX_NO_OF_Q \<equiv> 12"
abbreviation (input) TRFS_MQ_MAX_NO_OF_MSGS :: nat where "TRFS_MQ_MAX_NO_OF_MSGS \<equiv> 1024"
abbreviation (input) TRFS_FLUSH_TIMEOUT :: int where "TRFS_FLUSH_TIMEOUT \<equiv> -99"
abbreviation (input) TRFS_MQ_MAX_MSG_SIZE :: int where "TRFS_MQ_MAX_MSG_SIZE \<equiv> 1024"
abbreviation (input) TRFS_EXIT_WAITING_QUEUE :: int where "TRFS_EXIT_WAITING_QUEUE \<equiv> -2"
abbreviation (input) TRFS_GEN_ERR_BASE :: int where "TRFS_GEN_ERR_BASE \<equiv> 0x00F00000"
abbreviation (input) TRFS_ERR_INVALID_PARAM :: int where
  "TRFS_ERR_INVALID_PARAM \<equiv> - (TRFS_GEN_ERR_BASE + 1)"
abbreviation (input) TRFS_ERR_MQ_FULL :: int where "TRFS_ERR_MQ_FULL \<equiv> - (TRFS_GEN_ERR_BASE + 2)"
abbreviation (input) TRFS_ERR_MQ_EMPTY :: int where "TRFS_ERR_MQ_EMPTY \<equiv> - (TRFS_GEN_ERR_BASE + 3)"
abbreviation (input) TRFS_LOG_QID :: int where "TRFS_LOG_QID \<equiv> 2"
abbreviation (input) TRFS_LOG_COMPLETE :: int where "TRFS_LOG_COMPLETE \<equiv> 127"
abbreviation (input) TRFS_MQ_FIFO :: u32 where "TRFS_MQ_FIFO \<equiv> 1"
abbreviation (input) TRFS_MQ_PRIORITY :: u32 where "TRFS_MQ_PRIORITY \<equiv> 2"
abbreviation (input) TRFS_MQ_DEFAULT_TYPE :: u32 where "TRFS_MQ_DEFAULT_TYPE \<equiv> TRFS_MQ_FIFO"

subsection \<open>Data\<close>

record trfsMqMsg =
  msg_pri :: u32
  msg_len :: int
  msg_data :: ptr

record trfsMqAttr =
  mq_flags :: u32
  maxMsgs :: int
  msgSize :: int
  counter :: int
  exit_flag :: int
  mq_name :: string

text \<open>
  A queue node. The wait queue \<open>wq\<close> is the number of wake-ups it has received; the link
  \<open>mq_next\<close> to another node of the array is that node's index.
\<close>

record trfs_mq_info =
  mqId :: int
  attr :: trfsMqAttr
  mq_index :: int
  wq :: nat
  readIndex :: int
  writeIndex :: int
  msgs :: "trfsMqMsg list"
  mq_next :: "nat option"

text \<open>
  The static variables of \<^verbatim>\<open>trfs_msgq.c\<close>: the array of nodes, the number of opened
  queues, the identifier sequence (a static of \<open>trfsMqOpen\<close>), the attributes and the
  identifiers of the transmit queues.
\<close>

record mqst =
  queues :: "trfs_mq_info list"
  numAfdxQs :: nat
  mqIdSeq :: int
  tx_q_attr :: trfsMqAttr
  tx_q_id :: "int list"

definition zero_msg :: trfsMqMsg where
  "zero_msg = \<lparr>msg_pri = 0, msg_len = 0, msg_data = NULL\<rparr>"

definition zero_attr :: trfsMqAttr where
  "zero_attr =
     \<lparr>mq_flags = 0, maxMsgs = 0, msgSize = 0, counter = 0, exit_flag = 0, mq_name = []\<rparr>"

definition zero_node :: trfs_mq_info where
  "zero_node =
     \<lparr>mqId = 0, attr = zero_attr, mq_index = 0, wq = 0, readIndex = 0, writeIndex = 0,
      msgs = replicate TRFS_MQ_MAX_NO_OF_MSGS zero_msg, mq_next = None\<rparr>"

text \<open>The state when the module is loaded: static storage is zero, the sequence starts at 1.\<close>

definition mq_boot :: mqst where
  "mq_boot =
     \<lparr>queues = replicate TRFS_MQ_MAX_NO_OF_Q zero_node, numAfdxQs = 0, mqIdSeq = 1,
      tx_q_attr = zero_attr, tx_q_id = replicate TRFS_TX_Q_MAX_NODES 0\<rparr>"

subsection \<open>Opening queues\<close>

text \<open>
  The loop of \<open>trfsMqOpen\<close> runs to \<open>jj <= maxMsgs\<close> and so writes one element past
  \<open>msg[1024]\<close> when \<open>maxMsgs\<close> is 1024. In the structure the link \<open>next\<close> follows the
  array and is followed, in the array of nodes, by the identifier of the next node; an element
  has its priority at offset 0 and its length at offset 8. The write therefore clears half of
  \<open>next\<close> (null at that point) and the identifier of the next node. Anything further
  out is a memory fault.
\<close>

definition init_msg :: "nat \<Rightarrow> nat \<Rightarrow> trfs_mq_info list \<Rightarrow> trfs_mq_info list option" where
  "init_msg i jj qs =
     (let node = qs ! i in
      if jj < TRFS_MQ_MAX_NO_OF_MSGS then
        Some (qs[i := node\<lparr>msgs := (msgs node)[jj := (msgs node ! jj)\<lparr>msg_pri := 0, msg_len := 0\<rparr>]\<rparr>])
      else if jj = TRFS_MQ_MAX_NO_OF_MSGS \<and> mq_next node = None \<and> Suc i < length qs then
        Some (qs[Suc i := (qs ! Suc i)\<lparr>mqId := 0\<rparr>])
      else None)"

fun init_msgs :: "nat \<Rightarrow> nat list \<Rightarrow> trfs_mq_info list \<Rightarrow> trfs_mq_info list option" where
  "init_msgs i [] qs = Some qs"
| "init_msgs i (jj # jjs) qs =
     (case init_msg i jj qs of None \<Rightarrow> None | Some qs' \<Rightarrow> init_msgs i jjs qs')"

text \<open>
  Filling in the first unused node (attributes, identifier, wait queue) and linking the
  previous one to it.
\<close>

definition fill_node :: "trfsMqAttr \<Rightarrow> mqst \<Rightarrow> trfs_mq_info list" where
  "fill_node a st =
     (let i = numAfdxQs st;
          node = (queues st ! i)
            \<lparr>attr := a\<lparr>counter := 0\<rparr>, mqId := mqIdSeq st, mq_next := None, wq := 0\<rparr>;
          qs = (queues st)[i := node]
      in if i > 0 then qs[i - 1 := (qs ! (i - 1))\<lparr>mq_next := Some i\<rparr>] else qs)"

text \<open>
  \<open>trfsMqOpen mq id_given st\<close>: \<open>mq\<close> is what the attribute pointer points to (\<open>None\<close>
  for a null pointer), \<open>id_given\<close> whether the identifier pointer is not null. The result is
  the return value, the caller's attributes after the call (a missing flag is set to the
  default there), what is stored through the identifier pointer, and the new state.
\<close>

definition trfsMqOpen ::
  "trfsMqAttr option \<Rightarrow> bool \<Rightarrow> mqst \<Rightarrow>
   (int \<times> trfsMqAttr option \<times> int option \<times> mqst) option" where
  "trfsMqOpen mq id_given st =
     (case mq of
        None \<Rightarrow> Some (TRFS_ERR_INVALID_PARAM, mq, None, st)
      | Some a \<Rightarrow>
          if \<not> id_given then Some (TRFS_ERR_INVALID_PARAM, mq, None, st)
          else if mq_flags a AND TRFS_MQ_FIFO \<noteq> 0 \<and> mq_flags a AND TRFS_MQ_PRIORITY \<noteq> 0
          then Some (TRFS_ERR_INVALID_PARAM, mq, None, st)
          else if maxMsgs a \<le> 0 \<or> msgSize a \<le> 0
          then Some (TRFS_ERR_INVALID_PARAM, mq, None, st)
          else if msgSize a > TRFS_MQ_MAX_MSG_SIZE
          then Some (TRFS_ERR_INVALID_PARAM, mq, None, st)
          else
            let a = (if mq_flags a = 0 then a\<lparr>mq_flags := TRFS_MQ_DEFAULT_TYPE\<rparr> else a);
                i = numAfdxQs st
            in if i \<ge> TRFS_MQ_MAX_NO_OF_Q
               then Some (TRFS_ERR_INVALID_PARAM, Some a, Some (-1), st)
               else
                 case init_msgs i [0..<Suc (nat (maxMsgs a))] (fill_node a st) of
                      None \<Rightarrow> None
                    | Some qs \<Rightarrow>
                        Some (0, Some a, Some (mqId (qs ! i)),
                          st\<lparr>queues := qs, numAfdxQs := Suc i, mqIdSeq := mqIdSeq st + 1\<rparr>))"

fun open_tx_queues :: "nat list \<Rightarrow> mqst \<Rightarrow> (int \<times> mqst) option" where
  "open_tx_queues [] st = Some (0, st)"
| "open_tx_queues (i # is) st =
     (case trfsMqOpen (Some (tx_q_attr st)) True st of
        None \<Rightarrow> None
      | Some (r, a, qid, st') \<Rightarrow>
          let st'' = st'\<lparr>tx_q_attr := (case a of Some a' \<Rightarrow> a' | None \<Rightarrow> tx_q_attr st'),
                tx_q_id := (case qid of Some q \<Rightarrow> (tx_q_id st')[i := q] | None \<Rightarrow> tx_q_id st')\<rparr>
          in if r \<noteq> 0 then Some (-1, st'') else open_tx_queues is st'')"

definition trfs_create_log_q :: "mqst \<Rightarrow> (int \<times> mqst) option" where
  "trfs_create_log_q st =
     open_tx_queues [0..<TRFS_TX_Q_MAX_NODES]
       (st\<lparr>tx_q_attr := (tx_q_attr st)\<lparr>maxMsgs := TRFS_MAX_TX_Q_MSGS,
             msgSize := TRFS_MAX_TX_Q_MSG_SIZE, mq_name := ''TRFS LOG Q'',
             mq_flags := TRFS_MQ_FIFO\<rparr>\<rparr>)"

text \<open>The body of \<open>trfsMqClose\<close> is compiled out: closing a queue changes nothing.\<close>

definition trfsMqClose :: "int \<Rightarrow> mqst \<Rightarrow> int \<times> mqst" where
  "trfsMqClose qid st = (0, st)"

fun close_tx_queues :: "int list \<Rightarrow> mqst \<Rightarrow> mqst" where
  "close_tx_queues [] st = st"
| "close_tx_queues (q # qs) st =
     close_tx_queues qs (if q \<noteq> 0 then snd (trfsMqClose q st) else st)"

definition trfs_delete_log_q :: "mqst \<Rightarrow> int \<times> mqst" where
  "trfs_delete_log_q st = (0, close_tx_queues (tx_q_id st) st)"

subsection \<open>Finding, putting and getting\<close>

text \<open>The node with a given identifier: the first match in the array, as an index.\<close>

fun find_id :: "int \<Rightarrow> nat \<Rightarrow> trfs_mq_info list \<Rightarrow> nat option" where
  "find_id qid i [] = None"
| "find_id qid i (q # qs) = (if mqId q = qid then Some i else find_id qid (Suc i) qs)"

definition trfs_mq_get_node_by_id :: "int \<Rightarrow> mqst \<Rightarrow> nat option" where
  "trfs_mq_get_node_by_id qid st = find_id qid 0 (queues st)"

text \<open>
  Insertion. A zero \<open>maxMsgs\<close> would divide by zero and an index outside the array would
  write outside it; both are memory faults here, and the invariant below excludes them. C's
  remainder agrees with \<open>mod\<close> because the dividend is not negative.
\<close>

definition trfsMqPutMsg :: "trfsMqMsg \<Rightarrow> trfs_mq_info \<Rightarrow> (int \<times> trfs_mq_info) option" where
  "trfsMqPutMsg m node =
     (if counter (attr node) = maxMsgs (attr node) then Some (TRFS_ERR_MQ_FULL, node)
      else
        let wIndex = writeIndex node in
        if wIndex < 0 \<or> int (length (msgs node)) \<le> wIndex \<or> maxMsgs (attr node) = 0 then None
        else
          let node = node\<lparr>writeIndex := (wIndex + 1) mod maxMsgs (attr node),
                msgs := (msgs node)[nat wIndex := m],
                attr := (attr node)\<lparr>counter := counter (attr node) + 1\<rparr>\<rparr>;
              node = (if counter (attr node) \<ge> 1 then node\<lparr>wq := Suc (wq node)\<rparr> else node)
          in Some (0, node))"

text \<open>Removal: the return value, the message handed out if there was one, and the node.\<close>

definition trfsMqGetMsg ::
  "bool \<Rightarrow> trfs_mq_info \<Rightarrow> (int \<times> trfsMqMsg option \<times> trfs_mq_info) option" where
  "trfsMqGetMsg copy_only node =
     (if counter (attr node) = 0 then Some (TRFS_ERR_MQ_EMPTY, None, node)
      else
        let rIndex = readIndex node in
        if rIndex < 0 \<or> int (length (msgs node)) \<le> rIndex \<or> maxMsgs (attr node) = 0 then None
        else
          let m = msgs node ! nat rIndex;
              node' = (if \<not> copy_only then
                         node\<lparr>attr := (attr node)\<lparr>counter := counter (attr node) - 1\<rparr>,
                              readIndex := (rIndex + 1) mod maxMsgs (attr node)\<rparr>
                       else node)
          in Some (0, Some m, node'))"

definition trfs_get_exit_flag :: "int \<Rightarrow> mqst \<Rightarrow> int option" where
  "trfs_get_exit_flag qid st =
     (case trfs_mq_get_node_by_id qid st of
        None \<Rightarrow> None
      | Some i \<Rightarrow> Some (exit_flag (attr (queues st ! i))))"

definition trfs_set_exit_flag :: "int \<Rightarrow> mqst \<Rightarrow> mqst option" where
  "trfs_set_exit_flag qid st =
     (case trfs_mq_get_node_by_id qid st of
        None \<Rightarrow> None
      | Some i \<Rightarrow>
          let node = queues st ! i;
              node = node\<lparr>attr := (attr node)\<lparr>exit_flag := 1\<rparr>, wq := Suc (wq node)\<rparr>
          in Some (st\<lparr>queues := (queues st)[i := node]\<rparr>))"

definition trfs_clear_exit_flag :: "int \<Rightarrow> mqst \<Rightarrow> mqst option" where
  "trfs_clear_exit_flag qid st =
     (case trfs_mq_get_node_by_id qid st of
        None \<Rightarrow> None
      | Some i \<Rightarrow>
          let node = queues st ! i;
              node = node\<lparr>attr := (attr node)\<lparr>exit_flag := 0\<rparr>\<rparr>
          in Some (st\<lparr>queues := (queues st)[i := node]\<rparr>))"

definition trfsMqIsMsgAvailable :: "int \<Rightarrow> mqst \<Rightarrow> int" where
  "trfsMqIsMsgAvailable qid st =
     (case trfs_mq_get_node_by_id qid st of
        None \<Rightarrow> 0
      | Some i \<Rightarrow> if counter (attr (queues st ! i)) > 0 then 1 else 0)"

text \<open>
  \<open>trfsMqGetAttr\<close> returns \<open>-1\<close> after it has filled in the attributes too;
  \<open>trfsMqSetAttr\<close> does nothing.
\<close>

definition trfsMqGetAttr :: "int \<Rightarrow> bool \<Rightarrow> mqst \<Rightarrow> int \<times> trfsMqAttr option" where
  "trfsMqGetAttr qid attr_given st =
     (if \<not> attr_given then (TRFS_ERR_INVALID_PARAM, None)
      else case trfs_mq_get_node_by_id qid st of
             None \<Rightarrow> (-1, None)
           | Some i \<Rightarrow> (-1, Some (attr (queues st ! i))))"

definition trfsMqSetAttr :: "int \<Rightarrow> trfsMqAttr \<Rightarrow> mqst \<Rightarrow> int \<times> mqst" where
  "trfsMqSetAttr qid a st = (-1, st)"

subsection \<open>Sending and receiving\<close>

text \<open>
  The length arrives as a \<open>size_t\<close>; it is returned as an \<open>int\<close>. Only the return value
  \<open>-1\<close> of the insertion counts as a failure, so a full queue (\<open>TRFS_ERR_MQ_FULL\<close>)
  does not.
\<close>

definition trfsMqSend ::
  "int \<Rightarrow> ptr \<Rightarrow> nat \<Rightarrow> u32 \<Rightarrow> mqst \<Rightarrow> (int \<times> mqst) option" where
  "trfsMqSend qid msg_p msgLen msgPriority st =
     (if msg_p = NULL \<or> msgLen = 0 then Some (-1, st)
      else case trfs_mq_get_node_by_id qid st of
             None \<Rightarrow> Some (-1, st)
           | Some i \<Rightarrow>
               if msgLen = 0 then Some (TRFS_ERR_INVALID_PARAM, st)
               else case trfsMqPutMsg
                      \<lparr>msg_pri = msgPriority, msg_len = int msgLen, msg_data = msg_p\<rparr>
                      (queues st ! i) of
                      None \<Rightarrow> None
                    | Some (r, node) \<Rightarrow>
                        let st = st\<lparr>queues := (queues st)[i := node]\<rparr> in
                        if r = -1 then Some (-1, st) else Some (int32 (int msgLen), st))"

text \<open>
  What a receiver gets: the call blocks, faults, or returns a value together with what it
  stored through its pointers (\<open>None\<close> when it stored nothing) and the new state.
\<close>

datatype recv_out =
    RecvFault
  | RecvBlocks
  | RecvRet int "trfsMqMsg option" mqst

definition trfsMqRecv ::
  "int \<Rightarrow> bool \<Rightarrow> int option \<Rightarrow> int \<Rightarrow> bool \<Rightarrow> mqst \<Rightarrow> recv_out" where
  "trfsMqRecv qid msg_given msgLen timeOut woken_early st =
     (case msgLen of
        None \<Rightarrow> RecvRet (-1) None st
      | Some oldLen \<Rightarrow>
          if \<not> msg_given then RecvRet (-1) None st
          else case trfs_mq_get_node_by_id qid st of
                 None \<Rightarrow> RecvRet (-1) None st
               | Some i \<Rightarrow>
                   let tmp = queues st ! i;
                       ready = (if timeOut > 0 then counter (attr tmp) \<noteq> 0
                                else if timeOut = -1 then
                                  exit_flag (attr tmp) = 1 \<or> counter (attr tmp) \<noteq> 0
                                else True)
                   in if \<not> ready \<and> \<not> woken_early then RecvBlocks
                      else if exit_flag (attr tmp) = 1
                      then RecvRet TRFS_EXIT_WAITING_QUEUE None st
                      else if counter (attr tmp) = 0 then RecvRet TRFS_FLUSH_TIMEOUT None st
                      else case trfsMqGetMsg False tmp of
                             None \<Rightarrow> RecvFault
                           | Some (r, m, node) \<Rightarrow>
                               let st = st\<lparr>queues := (queues st)[i := node]\<rparr> in
                               if r = -1 then RecvRet (-1) m st
                               else RecvRet (case m of Some mm \<Rightarrow> int32 (msg_len mm) | None \<Rightarrow> oldLen)
                                      m st)"

subsection \<open>Specification vocabulary\<close>

text \<open>The messages a node holds, oldest first.\<close>

definition content :: "trfs_mq_info \<Rightarrow> trfsMqMsg list" where
  "content node =
     map (\<lambda>k. msgs node ! nat ((readIndex node + int k) mod maxMsgs (attr node)))
       [0..<nat (counter (attr node))]"

definition capacity :: "trfs_mq_info \<Rightarrow> nat" where
  "capacity node = nat (maxMsgs (attr node))"

text \<open>The invariant of an opened node.\<close>

definition node_inv :: "trfs_mq_info \<Rightarrow> bool" where
  "node_inv node \<longleftrightarrow>
     length (msgs node) = TRFS_MQ_MAX_NO_OF_MSGS \<and>
     0 < maxMsgs (attr node) \<and> maxMsgs (attr node) \<le> int TRFS_MQ_MAX_NO_OF_MSGS \<and>
     0 \<le> counter (attr node) \<and> counter (attr node) \<le> maxMsgs (attr node) \<and>
     0 \<le> readIndex node \<and> readIndex node < maxMsgs (attr node) \<and>
     writeIndex node = (readIndex node + counter (attr node)) mod maxMsgs (attr node)"

text \<open>A node of the static array that no queue uses yet.\<close>

definition node_unused :: "trfs_mq_info \<Rightarrow> bool" where
  "node_unused node \<longleftrightarrow>
     mqId node = 0 \<and> readIndex node = 0 \<and> writeIndex node = 0 \<and>
     length (msgs node) = TRFS_MQ_MAX_NO_OF_MSGS"

text \<open>
  The invariant of the module: the opened queues are a prefix of the array, numbered from 1 in
  the order they were opened, and the rest of the array is unused.
\<close>

definition mq_inv :: "mqst \<Rightarrow> bool" where
  "mq_inv st \<longleftrightarrow>
     length (queues st) = TRFS_MQ_MAX_NO_OF_Q \<and> numAfdxQs st \<le> TRFS_MQ_MAX_NO_OF_Q \<and>
     mqIdSeq st = int (numAfdxQs st) + 1 \<and> length (tx_q_id st) = TRFS_TX_Q_MAX_NODES \<and>
     (\<forall>i < numAfdxQs st. mqId (queues st ! i) = int i + 1 \<and> node_inv (queues st ! i)) \<and>
     (\<forall>i < TRFS_MQ_MAX_NO_OF_Q. numAfdxQs st \<le> i \<longrightarrow> node_unused (queues st ! i))"

text \<open>An opened queue by its identifier, and what it holds.\<close>

definition opened :: "int \<Rightarrow> mqst \<Rightarrow> bool" where
  "opened qid st \<longleftrightarrow> 1 \<le> qid \<and> qid \<le> int (numAfdxQs st)"

definition queue_of :: "int \<Rightarrow> mqst \<Rightarrow> trfs_mq_info" where
  "queue_of qid st = queues st ! nat (qid - 1)"

text \<open>
  Sequences of insertions and removals, on an implementation (given by its two operations) and
  on the specification: a list of bounded length, whose insertion drops the message when the
  list is full. Both deliver the removed messages in order.
\<close>

datatype 'm qop = Put 'm | Get

fun run_ops ::
  "('m \<Rightarrow> 'q \<Rightarrow> (int \<times> 'q) option) \<Rightarrow> ('q \<Rightarrow> (int \<times> 'm option \<times> 'q) option) \<Rightarrow>
   'm qop list \<Rightarrow> 'q \<Rightarrow> ('m list \<times> 'q) option" where
  "run_ops put get [] q = Some ([], q)"
| "run_ops put get (Put m # ops) q =
     (case put m q of None \<Rightarrow> None | Some (r, q') \<Rightarrow> run_ops put get ops q')"
| "run_ops put get (Get # ops) q =
     (case get q of
        None \<Rightarrow> None
      | Some (r, m, q') \<Rightarrow>
          (case run_ops put get ops q' of
             None \<Rightarrow> None
           | Some (out, q'') \<Rightarrow> Some (case m of Some x \<Rightarrow> x # out | None \<Rightarrow> out, q'')))"

fun spec_ops :: "nat \<Rightarrow> 'm qop list \<Rightarrow> 'm list \<Rightarrow> 'm list \<times> 'm list" where
  "spec_ops cap [] xs = ([], xs)"
| "spec_ops cap (Put m # ops) xs =
     spec_ops cap ops (if length xs < cap then xs @ [m] else xs)"
| "spec_ops cap (Get # ops) xs =
     (case xs of
        [] \<Rightarrow> spec_ops cap ops []
      | x # ys \<Rightarrow> let (out, zs) = spec_ops cap ops ys in (x # out, zs))"

fun puts :: "'m qop list \<Rightarrow> 'm list" where
  "puts [] = []"
| "puts (Put m # ops) = m # puts ops"
| "puts (Get # ops) = puts ops"

section \<open>Lemmas\<close>

subsection \<open>Bounded first-in first-out queues\<close>

lemma spec_ops_conserves:
  "length xs + length (puts ops) \<le> cap \<Longrightarrow>
   fst (spec_ops cap ops xs) @ snd (spec_ops cap ops xs) = xs @ puts ops"
  by (induction cap ops xs rule: spec_ops.induct)
    (auto split: list.splits prod.splits)

text \<open>
  The contract of a bounded queue, and what a client can conclude from it for any sequence of
  insertions and removals.
\<close>

locale bounded_fifo =
  fixes inv :: "'q \<Rightarrow> bool"
    and holds :: "'q \<Rightarrow> 'm list"
    and cap :: "'q \<Rightarrow> nat"
    and put :: "'m \<Rightarrow> 'q \<Rightarrow> (int \<times> 'q) option"
    and get :: "'q \<Rightarrow> (int \<times> 'm option \<times> 'q) option"
    and full_code :: int
    and empty_code :: int
  assumes bounded: "inv q \<Longrightarrow> length (holds q) \<le> cap q"
    and put_room: "inv q \<Longrightarrow> length (holds q) < cap q \<Longrightarrow>
      \<exists>q'. put m q = Some (0, q') \<and> inv q' \<and> cap q' = cap q \<and> holds q' = holds q @ [m]"
    and put_full: "inv q \<Longrightarrow> length (holds q) = cap q \<Longrightarrow> put m q = Some (full_code, q)"
    and get_next: "inv q \<Longrightarrow> holds q = m # ms \<Longrightarrow>
      \<exists>q'. get q = Some (0, Some m, q') \<and> inv q' \<and> cap q' = cap q \<and> holds q' = ms"
    and get_none: "inv q \<Longrightarrow> holds q = [] \<Longrightarrow> get q = Some (empty_code, None, q)"
begin

lemma run_ops_refines:
  "inv q \<Longrightarrow>
   \<exists>q'. run_ops put get ops q = Some (fst (spec_ops (cap q) ops (holds q)), q') \<and>
        inv q' \<and> cap q' = cap q \<and> holds q' = snd (spec_ops (cap q) ops (holds q))"
proof (induction ops arbitrary: q)
  case Nil
  then show ?case by simp
next
  case (Cons a ops)
  show ?case
  proof (cases a)
    case (Put m)
    show ?thesis
    proof (cases "length (holds q) < cap q")
      case True
      from put_room [OF Cons.prems True] obtain q' where q': "put m q = Some (0, q')" "inv q'"
        "cap q' = cap q" "holds q' = holds q @ [m]" by blast
      from Cons.IH [OF q'(2)] q' Put True show ?thesis by auto
    next
      case False
      with bounded [OF Cons.prems] have "length (holds q) = cap q" by simp
      from put_full [OF Cons.prems this] Put False Cons.IH [OF Cons.prems] show ?thesis by auto
    qed
  next
    case Get
    show ?thesis
    proof (cases "holds q")
      case Nil
      from get_none [OF Cons.prems Nil] Get Nil Cons.IH [OF Cons.prems] show ?thesis by auto
    next
      case (Cons m ms)
      from get_next [OF \<open>inv q\<close> Cons] obtain q' where q': "get q = Some (0, Some m, q')" "inv q'"
        "cap q' = cap q" "holds q' = ms" by blast
      from Cons.IH [OF q'(2)] q' Get Cons show ?thesis by (auto split: prod.splits)
    qed
  qed
qed

lemma run_ops_fifo:
  assumes "inv q" and "length (holds q) + length (puts ops) \<le> cap q"
  shows "\<exists>out q'. run_ops put get ops q = Some (out, q') \<and> inv q' \<and>
           out @ holds q' = holds q @ puts ops"
  using run_ops_refines [OF assms(1), of ops] spec_ops_conserves [OF assms(2)] by auto

end

subsection \<open>The ring buffer\<close>

lemma ring_index_distinct:
  fixes r M :: int
  assumes "k < c" and "int c < M"
  shows "(r + int k) mod M \<noteq> (r + int c) mod M"
proof
  assume "(r + int k) mod M = (r + int c) mod M"
  then have "M dvd (r + int c) - (r + int k)" by (metis mod_eq_dvd_iff)
  moreover have "0 < (r + int c) - (r + int k)" using assms by simp
  ultimately have "M \<le> (r + int c) - (r + int k)" by (rule zdvd_imp_le)
  with assms show False by simp
qed

lemma length_content [simp]: "length (content node) = nat (counter (attr node))"
  by (simp add: content_def)

lemma content_full_iff:
  "node_inv node \<Longrightarrow>
   length (content node) = capacity node \<longleftrightarrow> counter (attr node) = maxMsgs (attr node)"
  by (auto simp: node_inv_def capacity_def)

lemma content_room_iff:
  "node_inv node \<Longrightarrow>
   length (content node) < capacity node \<longleftrightarrow> counter (attr node) < maxMsgs (attr node)"
  by (auto simp: node_inv_def capacity_def)

lemma content_nil_iff: "node_inv node \<Longrightarrow> content node = [] \<longleftrightarrow> counter (attr node) = 0"
  by (auto simp: node_inv_def content_def)

lemma put_room_content:
  assumes inv: "node_inv node" and room: "counter (attr node) < maxMsgs (attr node)"
  shows "\<exists>node'. trfsMqPutMsg m node = Some (0, node') \<and> node_inv node' \<and>
    content node' = content node @ [m] \<and> mqId node' = mqId node \<and>
    attr node' = (attr node)\<lparr>counter := counter (attr node) + 1\<rparr> \<and> wq node' = Suc (wq node)"
proof -
  let ?M = "maxMsgs (attr node)" and ?c = "counter (attr node)" and ?r = "readIndex node"
  let ?w = "writeIndex node"
  let ?node' = "node\<lparr>writeIndex := (?w + 1) mod ?M, msgs := (msgs node)[nat ?w := m],
    attr := (attr node)\<lparr>counter := ?c + 1\<rparr>, wq := Suc (wq node)\<rparr>"
  have w: "?w = (?r + ?c) mod ?M" and M: "0 < ?M" "?M \<le> 1024" and c: "0 \<le> ?c"
    and len: "length (msgs node) = 1024" and r: "0 \<le> ?r" "?r < ?M"
    using inv by (auto simp: node_inv_def)
  have wr: "0 \<le> ?w" "?w < ?M" using M by (auto simp: w)
  have put: "trfsMqPutMsg m node = Some (0, ?node')"
    using room wr M len c by (simp add: trfsMqPutMsg_def Let_def)
  have "(?w + 1) mod ?M = (?r + (?c + 1)) mod ?M"
    by (simp add: w mod_add_left_eq add.assoc)
  then have inv': "node_inv ?node'" using inv room by (auto simp: node_inv_def)
  have "content ?node' = content node @ [m]"
  proof -
    have "msgs ?node' ! nat ((?r + int k) mod ?M) = msgs node ! nat ((?r + int k) mod ?M)"
      if "k < nat ?c" for k
      using ring_index_distinct [of k "nat ?c" ?M ?r] that room c M wr w
      by (auto simp: nth_list_update nat_eq_iff)
    moreover have "msgs ?node' ! nat ((?r + int (nat ?c)) mod ?M) = m"
      using c wr len M by (simp add: nat_less_iff flip: w)
    moreover have "nat (?c + 1) = Suc (nat ?c)" using c by simp
    ultimately show ?thesis using c by (simp add: content_def)
  qed
  with put inv' show ?thesis by auto
qed

lemma put_full_content:
  "counter (attr node) = maxMsgs (attr node) \<Longrightarrow>
   trfsMqPutMsg m node = Some (TRFS_ERR_MQ_FULL, node)"
  by (simp add: trfsMqPutMsg_def)

lemma get_next_content:
  assumes inv: "node_inv node" and ne: "content node = m # ms"
  shows "\<exists>node'. trfsMqGetMsg False node = Some (0, Some m, node') \<and> node_inv node' \<and>
    content node' = ms \<and> mqId node' = mqId node \<and>
    attr node' = (attr node)\<lparr>counter := counter (attr node) - 1\<rparr> \<and> wq node' = wq node"
proof -
  let ?M = "maxMsgs (attr node)" and ?c = "counter (attr node)" and ?r = "readIndex node"
  let ?node' = "node\<lparr>attr := (attr node)\<lparr>counter := ?c - 1\<rparr>, readIndex := (?r + 1) mod ?M\<rparr>"
  have M: "0 < ?M" "?M \<le> 1024" and len: "length (msgs node) = 1024" and r: "0 \<le> ?r" "?r < ?M"
    and w: "writeIndex node = (?r + ?c) mod ?M" and cM: "?c \<le> ?M"
    using inv by (auto simp: node_inv_def)
  from ne have "0 < length (content node)" by simp
  then have c: "0 < ?c" by simp
  have split: "content node =
      msgs node ! nat (?r mod ?M) #
      map (\<lambda>k. msgs node ! nat ((?r + int (Suc k)) mod ?M)) [0..<nat (?c - 1)]"
  proof -
    have "nat ?c = Suc (nat (?c - 1))" using c by simp
    then show ?thesis by (simp only: content_def upt_conv_Cons map_Suc_upt [symmetric])
      (simp add: upt_conv_Cons flip: map_Suc_upt)
  qed
  have get: "trfsMqGetMsg False node = Some (0, Some (msgs node ! nat ?r), ?node')"
    using c r M len by (simp add: trfsMqGetMsg_def Let_def)
  have "((?r + 1) mod ?M + int k) mod ?M = (?r + int (Suc k)) mod ?M" for k
    by (simp add: mod_add_left_eq add.assoc)
  then have "content ?node' =
      map (\<lambda>k. msgs node ! nat ((?r + int (Suc k)) mod ?M)) [0..<nat (?c - 1)]"
    by (simp add: content_def)
  moreover have "m = msgs node ! nat ?r" using split ne r by simp
  moreover have "ms = map (\<lambda>k. msgs node ! nat ((?r + int (Suc k)) mod ?M)) [0..<nat (?c - 1)]"
    using split ne by simp
  moreover have "node_inv ?node'"
    using inv c cM M w by (auto simp: node_inv_def mod_add_left_eq)
  ultimately show ?thesis using get by auto
qed

lemma get_none_content:
  "counter (attr node) = 0 \<Longrightarrow>
   trfsMqGetMsg copy_only node = Some (TRFS_ERR_MQ_EMPTY, None, node)"
  by (simp add: trfsMqGetMsg_def)

interpretation ring: bounded_fifo node_inv content capacity trfsMqPutMsg "trfsMqGetMsg False"
  TRFS_ERR_MQ_FULL TRFS_ERR_MQ_EMPTY
proof unfold_locales
  fix node :: trfs_mq_info and m :: trfsMqMsg
  assume inv: "node_inv node"
  show "length (content node) \<le> capacity node"
    using inv by (auto simp: node_inv_def capacity_def)
  show "\<exists>q'. trfsMqPutMsg m node = Some (0, q') \<and> node_inv q' \<and> capacity q' = capacity node \<and>
      content q' = content node @ [m]" if "length (content node) < capacity node"
    using put_room_content [OF inv, of m] that
    by (auto simp: capacity_def content_room_iff [OF inv, simplified capacity_def])
  show "trfsMqPutMsg m node = Some (TRFS_ERR_MQ_FULL, node)"
    if "length (content node) = capacity node"
    by (rule put_full_content) (use that inv content_full_iff in simp)
  show "\<exists>q'. trfsMqGetMsg False node = Some (0, Some m, q') \<and> node_inv q' \<and>
      capacity q' = capacity node \<and> content q' = ms" if "content node = m # ms" for ms
    using get_next_content [OF inv that] by (auto simp: capacity_def)
  show "trfsMqGetMsg False node = Some (TRFS_ERR_MQ_EMPTY, None, node)" if "content node = []"
    by (rule get_none_content) (use that content_nil_iff [OF inv] in simp)
qed

subsection \<open>Finding a queue\<close>

lemma find_id_first:
  "i < length qs \<Longrightarrow> mqId (qs ! i) = qid \<Longrightarrow> (\<forall>j < i. mqId (qs ! j) \<noteq> qid) \<Longrightarrow>
   find_id qid k qs = Some (k + i)"
proof (induction qid k qs arbitrary: i rule: find_id.induct)
  case (1 qid k)
  then show ?case by simp
next
  case (2 qid k q qs)
  show ?case
  proof (cases i)
    case 0
    with "2.prems" show ?thesis by simp
  next
    case (Suc j)
    with "2.prems" have "mqId q \<noteq> qid" and "\<forall>j' < j. mqId (qs ! j') \<noteq> qid" by force+
    with "2.prems" Suc "2.IH" [of j] show ?thesis by simp
  qed
qed

lemma find_id_none: "(\<forall>q \<in> set qs. mqId q \<noteq> qid) \<Longrightarrow> find_id qid k qs = None"
  by (induction qid k qs rule: find_id.induct) auto

lemma get_node_opened:
  assumes "mq_inv st" and "opened qid st"
  shows "trfs_mq_get_node_by_id qid st = Some (nat (qid - 1))"
proof -
  define n where "n = nat (qid - 1)"
  have n: "n < numAfdxQs st" "qid = int n + 1"
    using assms(2) by (auto simp: opened_def n_def)
  have "find_id qid 0 (queues st) = Some (0 + n)"
    by (rule find_id_first) (use assms(1) n in \<open>auto simp: mq_inv_def\<close>)
  with n show ?thesis by (simp add: trfs_mq_get_node_by_id_def)
qed

lemma get_node_closed:
  assumes "mq_inv st" and "\<not> opened qid st" and "qid \<noteq> 0"
  shows "trfs_mq_get_node_by_id qid st = None"
proof -
  have "mqId q \<noteq> qid" if "q \<in> set (queues st)" for q
  proof -
    from that obtain i where "i < length (queues st)" "q = queues st ! i" by (metis in_set_conv_nth)
    with assms show ?thesis
      by (cases "i < numAfdxQs st") (auto simp: mq_inv_def opened_def node_unused_def)
  qed
  then show ?thesis by (simp add: trfs_mq_get_node_by_id_def find_id_none)
qed

lemma queue_of_inv: "mq_inv st \<Longrightarrow> opened qid st \<Longrightarrow> node_inv (queue_of qid st)"
  by (auto simp: mq_inv_def opened_def queue_of_def nat_less_iff)

text \<open>Replacing an opened queue's node by one with the same identifier.\<close>

definition set_queue :: "int \<Rightarrow> trfs_mq_info \<Rightarrow> mqst \<Rightarrow> mqst" where
  "set_queue qid node st = st\<lparr>queues := (queues st)[nat (qid - 1) := node]\<rparr>"

lemma set_queue_inv:
  assumes "mq_inv st" and "opened qid st" and "node_inv node" and "mqId node = qid"
  shows "mq_inv (set_queue qid node st)"
  using assms by (auto simp: mq_inv_def opened_def set_queue_def nth_list_update nat_less_iff)

lemma opened_set_queue [simp]: "opened q (set_queue qid node st) = opened q st"
  by (simp add: opened_def set_queue_def)

lemma queue_of_set_queue:
  assumes "mq_inv st" and "opened qid st" and "opened q st"
  shows "queue_of q (set_queue qid node st) = (if q = qid then node else queue_of q st)"
  using assms by (auto simp: queue_of_def set_queue_def mq_inv_def opened_def nth_list_update)

lemma mqId_queue_of: "mq_inv st \<Longrightarrow> opened qid st \<Longrightarrow> mqId (queue_of qid st) = qid"
  by (auto simp: mq_inv_def opened_def queue_of_def nat_less_iff)

subsection \<open>Sending and receiving\<close>

lemma send_eq:
  assumes "mq_inv st" and "opened qid st" and "msg_p \<noteq> NULL" and "0 < msgLen"
  shows "trfsMqSend qid msg_p msgLen pr st =
    (case trfsMqPutMsg \<lparr>msg_pri = pr, msg_len = int msgLen, msg_data = msg_p\<rparr> (queue_of qid st) of
       None \<Rightarrow> None
     | Some (r, node) \<Rightarrow>
         Some (if r = -1 then -1 else int32 (int msgLen), set_queue qid node st))"
  using assms get_node_opened [OF assms(1,2)]
  by (simp add: trfsMqSend_def Let_def set_queue_def queue_of_def split: option.splits)

lemma send_room:
  assumes "mq_inv st" and "opened qid st" and "msg_p \<noteq> NULL" and "0 < msgLen"
    and "length (content (queue_of qid st)) < capacity (queue_of qid st)"
  shows "\<exists>st'. trfsMqSend qid msg_p msgLen pr st = Some (int32 (int msgLen), st') \<and> mq_inv st' \<and>
    numAfdxQs st' = numAfdxQs st \<and>
    content (queue_of qid st') = content (queue_of qid st) @
      [\<lparr>msg_pri = pr, msg_len = int msgLen, msg_data = msg_p\<rparr>] \<and>
    capacity (queue_of qid st') = capacity (queue_of qid st) \<and>
    exit_flag (attr (queue_of qid st')) = exit_flag (attr (queue_of qid st)) \<and>
    wq (queue_of qid st') = Suc (wq (queue_of qid st)) \<and>
    (\<forall>q. opened q st \<longrightarrow> q \<noteq> qid \<longrightarrow> queue_of q st' = queue_of q st)"
proof -
  note inv = queue_of_inv [OF assms(1,2)]
  have "counter (attr (queue_of qid st)) < maxMsgs (attr (queue_of qid st))"
    using assms(5) content_room_iff [OF inv] by simp
  from put_room_content [OF inv this,
      of "\<lparr>msg_pri = pr, msg_len = int msgLen, msg_data = msg_p\<rparr>"]
  show ?thesis
    using assms send_eq [OF assms(1-4), of pr] set_queue_inv [OF assms(1,2)]
      mqId_queue_of [OF assms(1,2)] queue_of_set_queue [OF assms(1,2)]
    by (auto simp: set_queue_def capacity_def split: if_splits)
qed

lemma send_full:
  assumes "mq_inv st" and "opened qid st" and "msg_p \<noteq> NULL" and "0 < msgLen"
    and "length (content (queue_of qid st)) = capacity (queue_of qid st)"
  shows "trfsMqSend qid msg_p msgLen pr st = Some (int32 (int msgLen), st)"
proof -
  have "counter (attr (queue_of qid st)) = maxMsgs (attr (queue_of qid st))"
    using assms(5) content_full_iff [OF queue_of_inv [OF assms(1,2)]] by simp
  moreover have "set_queue qid (queue_of qid st) st = st" by (simp add: set_queue_def queue_of_def)
  ultimately show ?thesis using assms by (simp add: send_eq put_full_content)
qed

lemma recv_eq:
  assumes "mq_inv st" and "opened qid st"
  shows "trfsMqRecv qid True (Some l) (-1) early st =
    (let q = queue_of qid st in
     if exit_flag (attr q) = 1 then RecvRet TRFS_EXIT_WAITING_QUEUE None st
     else case content q of
            [] \<Rightarrow> if early then RecvRet TRFS_FLUSH_TIMEOUT None st else RecvBlocks
          | m # ms \<Rightarrow>
              (case trfsMqGetMsg False q of
                 None \<Rightarrow> RecvFault
               | Some (r, m', node) \<Rightarrow>
                   RecvRet (case m' of Some x \<Rightarrow> int32 (msg_len x) | None \<Rightarrow> l) m' (set_queue qid node st)))"
proof -
  note inv = queue_of_inv [OF assms]
  note c = content_nil_iff [OF inv]
  have get: "\<exists>x node. trfsMqGetMsg False (queue_of qid st) = Some (0, Some x, node)"
    if "content (queue_of qid st) = m # ms" for m ms
    using get_next_content [OF inv that] by blast
  show ?thesis
    using c get get_node_opened [OF assms]
    by (auto simp: trfsMqRecv_def Let_def queue_of_def set_queue_def split: list.splits)
qed

lemma recv_next:
  assumes "mq_inv st" and "opened qid st" and "exit_flag (attr (queue_of qid st)) \<noteq> 1"
    and "content (queue_of qid st) = m # ms"
  shows "\<exists>st'. trfsMqRecv qid True (Some l) (-1) early st = RecvRet (int32 (msg_len m)) (Some m) st' \<and>
    mq_inv st' \<and> numAfdxQs st' = numAfdxQs st \<and> content (queue_of qid st') = ms \<and>
    capacity (queue_of qid st') = capacity (queue_of qid st) \<and>
    exit_flag (attr (queue_of qid st')) = exit_flag (attr (queue_of qid st)) \<and>
    (\<forall>q. opened q st \<longrightarrow> q \<noteq> qid \<longrightarrow> queue_of q st' = queue_of q st)"
proof -
  note inv = queue_of_inv [OF assms(1,2)]
  from get_next_content [OF inv assms(4)] show ?thesis
    using assms recv_eq [OF assms(1,2), of l early] set_queue_inv [OF assms(1,2)]
      mqId_queue_of [OF assms(1,2)] queue_of_set_queue [OF assms(1,2)]
    by (auto simp: Let_def set_queue_def capacity_def split: if_splits)
qed

lemma recv_blocks:
  assumes "mq_inv st" and "opened qid st" and "exit_flag (attr (queue_of qid st)) \<noteq> 1"
    and "content (queue_of qid st) = []"
  shows "trfsMqRecv qid True (Some l) (-1) False st = RecvBlocks"
  using assms by (simp add: recv_eq Let_def)

subsection \<open>Opening the transmit queues\<close>

lemma init_msgs_append:
  "init_msgs i (xs @ ys) qs =
     (case init_msgs i xs qs of None \<Rightarrow> None | Some qs' \<Rightarrow> init_msgs i ys qs')"
  by (induction i xs qs rule: init_msgs.induct) (auto split: option.splits)

lemma init_msgs_inside:
  assumes "\<forall>j \<in> set js. j < TRFS_MQ_MAX_NO_OF_MSGS" and "i < length qs"
  shows "\<exists>ms. init_msgs i js qs = Some (qs[i := (qs ! i)\<lparr>msgs := ms\<rparr>]) \<and>
     length ms = length (msgs (qs ! i))"
  using assms
proof (induction js arbitrary: qs)
  case Nil
  have "qs[i := (qs ! i)\<lparr>msgs := msgs (qs ! i)\<rparr>] = qs" by simp
  then show ?case by (metis init_msgs.simps(1))
next
  case (Cons j js)
  let ?node = "qs ! i"
  let ?ms = "(msgs ?node)[j := (msgs ?node ! j)\<lparr>msg_pri := 0, msg_len := 0\<rparr>]"
  have step: "init_msg i j qs = Some (qs[i := ?node\<lparr>msgs := ?ms\<rparr>])"
    using Cons.prems by (simp add: init_msg_def Let_def)
  from Cons.prems obtain ms where
    "init_msgs i js (qs[i := ?node\<lparr>msgs := ?ms\<rparr>]) =
       Some (qs[i := ?node\<lparr>msgs := ?ms\<rparr>, i := (qs[i := ?node\<lparr>msgs := ?ms\<rparr>] ! i)\<lparr>msgs := ms\<rparr>])"
    and "length ms = length (msgs (qs[i := ?node\<lparr>msgs := ?ms\<rparr>] ! i))"
    using Cons.IH [of "qs[i := ?node\<lparr>msgs := ?ms\<rparr>]"] by auto
  with step Cons.prems(2) show ?case by auto
qed

text \<open>
  The loop over a full-size queue: the node is unchanged but for its message slots, and the
  overrun clears the identifier of the following node.
\<close>

lemma init_msgs_full:
  assumes "Suc i < length qs" and "mq_next (qs ! i) = None"
  shows "\<exists>ms. init_msgs i [0..<Suc TRFS_MQ_MAX_NO_OF_MSGS] qs =
      Some (qs[i := (qs ! i)\<lparr>msgs := ms\<rparr>, Suc i := (qs ! Suc i)\<lparr>mqId := 0\<rparr>]) \<and>
    length ms = length (msgs (qs ! i))"
proof -
  obtain ms where ms: "init_msgs i [0..<1024] qs = Some (qs[i := (qs ! i)\<lparr>msgs := ms\<rparr>])"
    "length ms = length (msgs (qs ! i))"
    using init_msgs_inside [of "[0..<1024]" i qs] assms(1) by auto
  have "[0..<Suc 1024] = [0..<1024] @ [1024]" by (rule upt_Suc_append) simp
  then show ?thesis using ms assms
    by (intro exI [of _ ms]) (simp add: init_msgs_append init_msg_def Let_def del: upt_Suc)
qed

text \<open>For the last node of the array the overrun leaves the array.\<close>

lemma init_msgs_last:
  assumes "Suc i = length qs"
  shows "init_msgs i [0..<Suc TRFS_MQ_MAX_NO_OF_MSGS] qs = None"
proof -
  obtain ms where ms: "init_msgs i [0..<1024] qs = Some (qs[i := (qs ! i)\<lparr>msgs := ms\<rparr>])"
    using init_msgs_inside [of "[0..<1024]" i qs] assms by auto
  have "[0..<Suc 1024] = [0..<1024] @ [1024]" by (rule upt_Suc_append) simp
  then show ?thesis using ms assms
    by (simp add: init_msgs_append init_msg_def Let_def del: upt_Suc)
qed

text \<open>The attributes that \<open>trfs_create_log_q\<close> passes.\<close>

definition tx_attr :: "trfsMqAttr \<Rightarrow> bool" where
  "tx_attr a \<longleftrightarrow> maxMsgs a = TRFS_MAX_TX_Q_MSGS \<and> msgSize a = TRFS_MAX_TX_Q_MSG_SIZE \<and>
     mq_flags a = TRFS_MQ_FIFO \<and> exit_flag a = 0"

lemma open_tx_step:
  assumes inv: "mq_inv st" and room: "numAfdxQs st < 11" and a: "tx_attr a"
  shows "\<exists>st'. trfsMqOpen (Some a) True st =
      Some (0, Some a, Some (int (numAfdxQs st) + 1), st') \<and> mq_inv st' \<and>
    numAfdxQs st' = Suc (numAfdxQs st) \<and> tx_q_id st' = tx_q_id st \<and> tx_q_attr st' = tx_q_attr st \<and>
    content (queues st' ! numAfdxQs st) = [] \<and> attr (queues st' ! numAfdxQs st) = a\<lparr>counter := 0\<rparr> \<and>
    (\<forall>i < numAfdxQs st. content (queues st' ! i) = content (queues st ! i) \<and>
       attr (queues st' ! i) = attr (queues st ! i))"
proof -
  let ?i = "numAfdxQs st"
  let ?node = "(queues st ! ?i)\<lparr>attr := a\<lparr>counter := 0\<rparr>, mqId := mqIdSeq st, mq_next := None, wq := 0\<rparr>"
  define q2 where "q2 = fill_node a st"
  have len: "length (queues st) = 12" using inv by (simp add: mq_inv_def)
  have q2: "length q2 = 12" "q2 ! ?i = ?node" "q2 ! Suc ?i = queues st ! Suc ?i"
    using len room by (auto simp: q2_def fill_node_def Let_def nth_list_update)
  obtain ms where ms: "init_msgs ?i [0..<Suc 1024] q2 =
      Some (q2[?i := ?node\<lparr>msgs := ms\<rparr>, Suc ?i := (queues st ! Suc ?i)\<lparr>mqId := 0\<rparr>])"
    "length ms = length (msgs (queues st ! ?i))"
    using init_msgs_full [of ?i q2] q2 room by auto
  define q3 where
    "q3 = q2[?i := ?node\<lparr>msgs := ms\<rparr>, Suc ?i := (queues st ! Suc ?i)\<lparr>mqId := 0\<rparr>]"
  let ?st' = "st\<lparr>queues := q3, numAfdxQs := Suc ?i, mqIdSeq := mqIdSeq st + 1\<rparr>"
  have at_i: "q3 ! ?i = ?node\<lparr>msgs := ms\<rparr>" and len3: "length q3 = 12"
    using q2 room by (simp_all add: q3_def nth_list_update)
  have below: "attr (q3 ! j) = attr (queues st ! j) \<and> content (q3 ! j) = content (queues st ! j) \<and>
      mqId (q3 ! j) = mqId (queues st ! j) \<and> node_inv (q3 ! j) = node_inv (queues st ! j)"
    if "j < ?i" for j
    using that room len
    by (auto simp: q3_def q2_def fill_node_def Let_def nth_list_update content_def node_inv_def)
  have above: "node_unused (q3 ! j)" if "?i < j" "j < 12" for j
    using that room len inv
    by (auto simp: q3_def q2_def fill_node_def Let_def nth_list_update mq_inv_def node_unused_def)
  have i0: "node_unused (queues st ! ?i)" "mqIdSeq st = int ?i + 1"
    using inv room by (auto simp: mq_inv_def)
  have "init_msgs ?i [0..<Suc (nat (maxMsgs a))] q2 = Some q3"
    using ms(1) a by (simp add: q3_def tx_attr_def del: upt_Suc)
  then have call: "trfsMqOpen (Some a) True st = Some (0, Some a, Some (int ?i + 1), ?st')"
    using a room at_i i0(2)
    by (simp add: trfsMqOpen_def tx_attr_def Let_def del: upt_Suc flip: q2_def)
  have new: "node_inv (q3 ! ?i)" "content (q3 ! ?i) = []" "attr (q3 ! ?i) = a\<lparr>counter := 0\<rparr>"
    "mqId (q3 ! ?i) = int ?i + 1"
    using a ms(2) i0 by (simp_all add: at_i node_inv_def node_unused_def tx_attr_def content_def)
  have "mq_inv ?st'"
    using inv room len3 new below above i0(2) unfolding mq_inv_def by (auto simp: less_Suc_eq)
  with call new below show ?thesis by auto
qed

lemma open_tx_queues_run:
  assumes "mq_inv st" and "numAfdxQs st = k" and "k \<le> 10" and "tx_attr (tx_q_attr st)"
  shows "\<exists>st'. open_tx_queues [k..<10] st = Some (0, st') \<and> mq_inv st' \<and> numAfdxQs st' = 10 \<and>
    tx_attr (tx_q_attr st') \<and>
    (\<forall>i < k. content (queues st' ! i) = content (queues st ! i) \<and>
       attr (queues st' ! i) = attr (queues st ! i) \<and> tx_q_id st' ! i = tx_q_id st ! i) \<and>
    (\<forall>i < 10. k \<le> i \<longrightarrow> content (queues st' ! i) = [] \<and>
       capacity (queues st' ! i) = TRFS_MQ_MAX_NO_OF_MSGS \<and>
       exit_flag (attr (queues st' ! i)) = 0 \<and> tx_q_id st' ! i = int i + 1)"
  using assms
proof (induction "10 - k" arbitrary: k st)
  case 0
  then show ?case by (auto simp: tx_attr_def)
next
  case (Suc n)
  then have k: "k < 10" by simp
  obtain st1 where st1: "trfsMqOpen (Some (tx_q_attr st)) True st =
      Some (0, Some (tx_q_attr st), Some (int k + 1), st1)" "mq_inv st1" "numAfdxQs st1 = Suc k"
    "tx_q_id st1 = tx_q_id st" "tx_q_attr st1 = tx_q_attr st" "content (queues st1 ! k) = []"
    "attr (queues st1 ! k) = (tx_q_attr st)\<lparr>counter := 0\<rparr>"
    "\<forall>i < k. content (queues st1 ! i) = content (queues st ! i) \<and>
       attr (queues st1 ! i) = attr (queues st ! i)"
    using open_tx_step [of st "tx_q_attr st"] Suc.prems k by auto
  let ?st2 = "st1\<lparr>tx_q_attr := tx_q_attr st, tx_q_id := (tx_q_id st)[k := int k + 1]\<rparr>"
  have len: "length (tx_q_id st) = 10" using Suc.prems by (simp add: mq_inv_def)
  have st2: "mq_inv ?st2" using st1 by (simp add: mq_inv_def)
  have n: "n = 10 - Suc k" using Suc.hyps(2) by simp
  obtain st' where st': "open_tx_queues [Suc k..<10] ?st2 = Some (0, st')" "mq_inv st'"
    "numAfdxQs st' = 10" "tx_attr (tx_q_attr st')"
    "\<forall>i < Suc k. content (queues st' ! i) = content (queues st1 ! i) \<and>
       attr (queues st' ! i) = attr (queues st1 ! i) \<and>
       tx_q_id st' ! i = (tx_q_id st)[k := int k + 1] ! i"
    "\<forall>i < 10. Suc k \<le> i \<longrightarrow> content (queues st' ! i) = [] \<and>
       capacity (queues st' ! i) = 1024 \<and> exit_flag (attr (queues st' ! i)) = 0 \<and>
       tx_q_id st' ! i = int i + 1"
    using Suc.hyps(1) [OF n st2] Suc.prems k st1 by auto
  have "open_tx_queues [k..<10] st = open_tx_queues [Suc k..<10] ?st2"
    using k st1 by (subst upt_rec) simp
  moreover have "content (queues st' ! k) = [] \<and> capacity (queues st' ! k) = 1024 \<and>
      exit_flag (attr (queues st' ! k)) = 0 \<and> tx_q_id st' ! k = int k + 1"
    using st' st1 Suc.prems k len by (auto simp: capacity_def tx_attr_def)
  moreover have "\<forall>i < k. tx_q_id st' ! i = tx_q_id st ! i" using st'(5) by simp
  ultimately show ?case using st' st1 by (auto simp: le_eq_less_or_eq Suc_le_eq)
qed

lemma mq_boot_inv: "mq_inv mq_boot"
  by (simp add: mq_inv_def mq_boot_def node_unused_def zero_node_def)

text \<open>Once all transmit queues are open, opening them again overruns the array of nodes.\<close>

lemma open_last_faults:
  assumes "mq_inv st" and "numAfdxQs st = 11" and "tx_attr a"
  shows "trfsMqOpen (Some a) True st = None"
proof -
  have "length (fill_node a st) = 12"
    using assms by (simp add: fill_node_def Let_def mq_inv_def)
  then show ?thesis using assms init_msgs_last [of 11 "fill_node a st"]
    by (simp add: trfsMqOpen_def tx_attr_def Let_def del: upt_Suc)
qed

lemma close_tx_queues_id: "close_tx_queues qs st = st"
  by (induction qs st rule: close_tx_queues.induct) (auto simp: trfsMqClose_def)

lemma create_again_faults:
  assumes "mq_inv st" and "numAfdxQs st = 10" and "exit_flag (tx_q_attr st) = 0"
  shows "trfs_create_log_q (snd (trfs_delete_log_q st)) = None"
proof -
  define a where "a = (tx_q_attr st)\<lparr>maxMsgs := 1024, msgSize := 100,
    mq_name := ''TRFS LOG Q'', mq_flags := 1\<rparr>"
  define st0 where "st0 = st\<lparr>tx_q_attr := a\<rparr>"
  have st0: "mq_inv st0" "numAfdxQs st0 = 10" "tx_attr (tx_q_attr st0)"
    using assms by (auto simp: st0_def a_def mq_inv_def tx_attr_def)
  obtain st1 where st1: "trfsMqOpen (Some (tx_q_attr st0)) True st0 =
      Some (0, Some (tx_q_attr st0), Some 11, st1)" "mq_inv st1" "numAfdxQs st1 = 11"
      "tx_q_attr st1 = tx_q_attr st0" "tx_q_id st1 = tx_q_id st0"
    using open_tx_step [OF st0(1) _ st0(3)] st0(2) by auto
  let ?st2 = "st1\<lparr>tx_q_attr := tx_q_attr st0, tx_q_id := (tx_q_id st0)[0 := 11]\<rparr>"
  have "mq_inv ?st2" using st1 by (simp add: mq_inv_def)
  then have "trfsMqOpen (Some (tx_q_attr ?st2)) True ?st2 = None"
    using st1 st0 by (intro open_last_faults) auto
  then have "open_tx_queues [0..<10] st0 = None"
    using st1 by (simp add: upt_conv_Cons del: upt_Suc)
  then show ?thesis
    by (simp add: trfs_create_log_q_def trfs_delete_log_q_def close_tx_queues_id st0_def a_def)
qed

text \<open>What the log needs of the queues: its own queue is open and not shutting down.\<close>

definition log_q_ready :: "mqst \<Rightarrow> bool" where
  "log_q_ready st \<longleftrightarrow>
     mq_inv st \<and> opened TRFS_LOG_QID st \<and> exit_flag (attr (queue_of TRFS_LOG_QID st)) = 0 \<and>
     capacity (queue_of TRFS_LOG_QID st) = TRFS_MQ_MAX_NO_OF_MSGS"

lemma create_log_q_boot:
  "\<exists>st. trfs_create_log_q mq_boot = Some (0, st) \<and> mq_inv st \<and> numAfdxQs st = 10 \<and>
     exit_flag (tx_q_attr st) = 0 \<and> tx_q_id st = map int [1..<11] \<and>
     (\<forall>i < 10. content (queues st ! i) = [] \<and> capacity (queues st ! i) = 1024 \<and>
       exit_flag (attr (queues st ! i)) = 0)"
proof -
  define st0 where "st0 = mq_boot\<lparr>tx_q_attr := (tx_q_attr mq_boot)\<lparr>maxMsgs := 1024,
    msgSize := 100, mq_name := ''TRFS LOG Q'', mq_flags := 1\<rparr>\<rparr>"
  have "mq_inv st0" "numAfdxQs st0 = 0" "tx_attr (tx_q_attr st0)"
    using mq_boot_inv by (auto simp: st0_def mq_inv_def tx_attr_def mq_boot_def zero_attr_def)
  then obtain st where st: "open_tx_queues [0..<10] st0 = Some (0, st)" "mq_inv st"
    "numAfdxQs st = 10" "tx_attr (tx_q_attr st)"
    "\<forall>i < 10. content (queues st ! i) = [] \<and> capacity (queues st ! i) = 1024 \<and>
       exit_flag (attr (queues st ! i)) = 0 \<and> tx_q_id st ! i = int i + 1"
    using open_tx_queues_run [of st0 0] by auto
  have "tx_q_id st = map int [1..<11]"
    by (rule nth_equalityI) (use st in \<open>auto simp: mq_inv_def nth_upt simp del: upt_Suc\<close>)
  with st show ?thesis
    by (auto simp: trfs_create_log_q_def st0_def tx_attr_def simp del: upt_Suc)
qed

section \<open>Properties\<close>

text \<open>C19: A queue behaves like a list of bounded length: for every sequence of insertions and
  removals the messages delivered and the messages left are those of the list, and an insertion
  into a full queue drops the message.\<close>

theorem queue_refines_bounded_list:
  assumes "node_inv node"
  shows "\<exists>node'. run_ops trfsMqPutMsg (trfsMqGetMsg False) ops node =
      Some (fst (spec_ops (capacity node) ops (content node)), node') \<and>
    node_inv node' \<and> capacity node' = capacity node \<and>
    content node' = snd (spec_ops (capacity node) ops (content node))"
  using assms by (rule ring.run_ops_refines)

text \<open>A node as the mount leaves it.\<close>

lemma created_node:
  "\<exists>st. trfs_create_log_q mq_boot = Some (0, st) \<and> mq_inv st \<and> opened TRFS_LOG_QID st \<and>
     numAfdxQs st = 10 \<and> exit_flag (tx_q_attr st) = 0 \<and> node_inv (queue_of TRFS_LOG_QID st) \<and>
     content (queue_of TRFS_LOG_QID st) = [] \<and> capacity (queue_of TRFS_LOG_QID st) = 1024"
proof -
  obtain st where st: "trfs_create_log_q mq_boot = Some (0, st)" "mq_inv st" "numAfdxQs st = 10"
    "exit_flag (tx_q_attr st) = 0"
    "\<forall>i < 10. content (queues st ! i) = [] \<and> capacity (queues st ! i) = 1024 \<and>
       exit_flag (attr (queues st ! i)) = 0"
    using create_log_q_boot by blast
  then have "opened TRFS_LOG_QID st" by (simp add: opened_def)
  moreover have "(1::nat) < 10" by simp
  ultimately show ?thesis
    using st queue_of_inv [of st TRFS_LOG_QID] by (intro exI [of _ st]) (simp add: queue_of_def)
qed

theorem queue_refines_bounded_list_witness:
  "\<exists>node node'. run_ops trfsMqPutMsg (trfsMqGetMsg False) [Put zero_msg, Get, Get] node =
     Some ([zero_msg], node') \<and> content node' = []"
proof -
  obtain node where "node_inv node" "content node = []" "capacity node = 1024"
    using created_node by blast
  with queue_refines_bounded_list [of node "[Put zero_msg, Get, Get]"] show ?thesis
    by (auto simp del: run_ops.simps)
qed

text \<open>C23: A message that is sent to an opened queue with room is received unchanged, after the
  messages that were there before, and no other queue is touched.\<close>

theorem send_delivers:
  assumes "mq_inv st" and "opened qid st" and "p \<noteq> NULL" and "0 < n"
    and "length (content (queue_of qid st)) < capacity (queue_of qid st)"
  shows "\<exists>st'. trfsMqSend qid p n pr st = Some (int32 (int n), st') \<and> mq_inv st' \<and>
    content (queue_of qid st') = content (queue_of qid st) @
      [\<lparr>msg_pri = pr, msg_len = int n, msg_data = p\<rparr>] \<and>
    (\<forall>q. opened q st \<longrightarrow> q \<noteq> qid \<longrightarrow> queue_of q st' = queue_of q st)"
  using send_room [OF assms, of pr] by auto

theorem send_delivers_witness:
  "\<exists>st st'. trfs_create_log_q mq_boot = Some (0, st) \<and>
     trfsMqSend TRFS_LOG_QID 5 20 0 st = Some (20, st') \<and>
     content (queue_of TRFS_LOG_QID st') = [\<lparr>msg_pri = 0, msg_len = 20, msg_data = 5\<rparr>]"
proof -
  obtain st where "trfs_create_log_q mq_boot = Some (0, st)" "mq_inv st" "opened TRFS_LOG_QID st"
    "content (queue_of TRFS_LOG_QID st) = []" "capacity (queue_of TRFS_LOG_QID st) = 1024"
    using created_node by blast
  with send_delivers [of st TRFS_LOG_QID 5 20 0] show ?thesis by (auto simp: int32_id)
qed

text \<open>C24: Unmounting does not release the queues: after a mount and an unmount, mounting again
  overruns the array of queue nodes.\<close>

theorem second_mount_overruns_the_queues:
  "\<exists>st. trfs_create_log_q mq_boot = Some (0, st) \<and>
     trfs_create_log_q (snd (trfs_delete_log_q st)) = None"
proof -
  obtain st where st: "trfs_create_log_q mq_boot = Some (0, st)" "mq_inv st" "numAfdxQs st = 10"
    "exit_flag (tx_q_attr st) = 0" using created_node by blast
  with create_again_faults [OF st(2-4)] show ?thesis by blast
qed

end
