(* ===== verification/Log_Write.thy ===== *)
theory Log_Write
  imports Msgq
begin

section \<open>The output driver (trfs/tr_fs.c, trfs/tr_fs.h)\<close>

text \<open>
  The state of the log as \<^verbatim>\<open>tr_fs.c\<close> keeps it (the global \<open>tlw\<close>, the record
  counter), the file functions, and the kernel thread that moves records from the queue through
  a one-page buffer into the trace file. The kernel functions the code calls are parameters:
  \<open>km\<close> allocates, \<open>fopen\<close> is \<open>filp_open\<close> and \<open>vw\<close> is \<open>vfs_write\<close>.

  The thread is a small machine, because it sleeps in the middle of an iteration: \<open>Head\<close> is
  the top of the loop, \<open>Waiting p\<close> is inside \<open>trfsMqRecv\<close> with the block \<open>p\<close>
  allocated for the message, \<open>Exited e\<close> is after the return.

  The lemmas show that the thread neither loses, duplicates nor reorders bytes, as long as no
  record is longer than a page or carries the number 127 (\<open>wait_step_trace\<close>), that draining
  the queue terminates (\<open>drain_enough\<close>), and what happens in the two excluded cases.
\<close>

subsection \<open>Files\<close>

record kfile =
  f_reg :: bool
  f_readable :: bool
  f_writable :: bool
  f_pos :: nat
  f_data :: bytes

text \<open>A \<open>struct file *\<close>: null, an error pointer, or a file.\<close>

datatype filp = FNull | FErr int | FOpen kfile

datatype trfs_rw_perm = TRFS_READ_PERM | TRFS_WRITE_PERM

text \<open>
  \<open>vfs_write\<close> on a file, with the bytes to write (\<open>None\<close> for a bad address) and their
  number: the return value and the file afterwards.
\<close>

type_synonym vfs_write = "kfile \<Rightarrow> bytes option \<Rightarrow> nat \<Rightarrow> int \<times> kfile"

definition trfs_file_verify :: "filp \<Rightarrow> trfs_rw_perm \<Rightarrow> int" where
  "trfs_file_verify filp flags =
     (case filp of
        FNull \<Rightarrow> - EBADF
      | FErr e \<Rightarrow> e
      | FOpen f \<Rightarrow>
          if \<not> f_reg f then - EIO
          else if flags = TRFS_READ_PERM \<and> \<not> f_readable f then - EIO
          else if flags = TRFS_WRITE_PERM \<and> \<not> f_writable f then - EIO
          else 0)"

text \<open>Writing through an error pointer is a memory fault; only the null pointer is checked.\<close>

definition trfs_file_write ::
  "vfs_write \<Rightarrow> filp \<Rightarrow> bytes option \<Rightarrow> nat \<Rightarrow> (int \<times> filp) option" where
  "trfs_file_write vw filp data sz =
     (case filp of
        FNull \<Rightarrow> Some (- EACCES, FNull)
      | FErr e \<Rightarrow> None
      | FOpen f \<Rightarrow>
          let (r, f') = vw f data sz; n = int32 r in
          Some (if n = 0 \<or> n < 0 then - EBADF else n, FOpen f'))"

text \<open>The file that is handed to \<open>filp_close\<close>, if any.\<close>

definition trfs_file_close :: "filp \<Rightarrow> kfile option" where
  "trfs_file_close filp = (case filp of FOpen f \<Rightarrow> Some f | FNull \<Rightarrow> None | FErr e \<Rightarrow> None)"

subsection \<open>The state of the log\<close>

abbreviation (input) TRFS_PAGE_SIZE :: int where "TRFS_PAGE_SIZE \<equiv> 4096"

record trfs_log_write =
  tfile_name :: "bytes option"
  tfile :: filp
  page :: ptr
  page_size :: int
  locks_ready :: bool

datatype wpc = Head | Waiting ptr | Exited int

text \<open>
  The thread's local \<open>buf\<close> points into the page; it is kept as the distance from its
  start. Its local \<open>len\<close> is the length of the message last received.
\<close>

record wthread =
  pc :: wpc
  buf :: nat
  len :: int

record klog =
  heap :: kheap
  mq :: mqst
  tlw :: trfs_log_write
  next_id :: u32
  thr :: wthread

definition get_next_record_id :: "klog \<Rightarrow> u32 \<times> klog" where
  "get_next_record_id st = (next_id st + 1, st\<lparr>next_id := next_id st + 1\<rparr>)"

text \<open>
  The file position is reset without looking at the outcome of the verification, so a file
  that could not be opened is a memory fault here.
\<close>

definition trfs_log_write_init ::
  "(bytes \<Rightarrow> filp) \<Rightarrow> bytes option \<Rightarrow> klog \<Rightarrow> (int \<times> klog) option" where
  "trfs_log_write_init fopen name st =
     (let st = st\<lparr>tlw := (tlw st)\<lparr>tfile_name := name\<rparr>\<rparr> in
      case name of
        None \<Rightarrow> Some (- ENOENT, st)
      | Some nm \<Rightarrow>
          let filp = fopen nm; err = trfs_file_verify filp TRFS_WRITE_PERM in
          case filp of
            FNull \<Rightarrow> None
          | FErr e \<Rightarrow> None
          | FOpen f \<Rightarrow>
              Some (err, st\<lparr>tlw := (tlw st)\<lparr>tfile := FOpen (f\<lparr>f_pos := 0\<rparr>), locks_ready := True\<rparr>\<rparr>))"

text \<open>The bytes a pointer and a length denote; a null pointer is a bad address.\<close>

definition user_bytes :: "kheap \<Rightarrow> ptr \<Rightarrow> nat \<Rightarrow> bytes option option" where
  "user_bytes h p n =
     (if p = NULL then Some None
      else case blocks h p of
             None \<Rightarrow> None
           | Some blk \<Rightarrow> (case load 0 n blk of None \<Rightarrow> None | Some d \<Rightarrow> Some (Some d)))"

text \<open>
  \<open>trfs_file_write(tlw.tfile, tlw.page, tlw.page_size)\<close>, whose result the callers drop.
\<close>

definition write_page :: "vfs_write \<Rightarrow> klog \<Rightarrow> klog option" where
  "write_page vw st =
     (let n = nat (page_size (tlw st) mod 2 ^ 32) in
      case user_bytes (heap st) (page (tlw st)) n of
        None \<Rightarrow> None
      | Some d \<Rightarrow>
          (case trfs_file_write vw (tfile (tlw st)) d n of
             None \<Rightarrow> None
           | Some (r, filp) \<Rightarrow> Some (st\<lparr>tlw := (tlw st)\<lparr>tfile := filp\<rparr>\<rparr>)))"

definition trfs_log_write_flush :: "vfs_write \<Rightarrow> klog \<Rightarrow> klog option" where
  "trfs_log_write_flush vw st = write_page vw st"

text \<open>One round of the endless loop of \<open>trfs_log_write_flush_periodic\<close> (no caller).\<close>

definition flush_periodic_round :: "vfs_write \<Rightarrow> klog \<Rightarrow> klog option" where
  "flush_periodic_round vw st =
     (case write_page vw st of
        None \<Rightarrow> None
      | Some st' \<Rightarrow> Some (st'\<lparr>tlw := (tlw st')\<lparr>page_size := 0\<rparr>\<rparr>))"

text \<open>
  Closing hands the file to \<open>filp_close\<close> (the first result is the file it gets, if any) and
  frees the name; the pointer to the file stays in \<open>tlw\<close>.
\<close>

definition trfs_log_write_close :: "klog \<Rightarrow> kfile option \<times> klog" where
  "trfs_log_write_close st =
     (trfs_file_close (tfile (tlw st)),
      if tfile_name (tlw st) \<noteq> None then st\<lparr>tlw := (tlw st)\<lparr>tfile_name := None\<rparr>\<rparr> else st)"

subsection \<open>Handing a record to the queue\<close>

text \<open>The macro \<open>TRFS_WRITE(buf, size)\<close> of \<^verbatim>\<open>tr_fs.h\<close>.\<close>

definition TRFS_WRITE :: "ptr \<Rightarrow> int \<Rightarrow> klog \<Rightarrow> klog option" where
  "TRFS_WRITE p sz st =
     (case trfsMqSend TRFS_LOG_QID p (size_t sz) 0 (mq st) of
        None \<Rightarrow> None
      | Some (r, mq') \<Rightarrow>
          let st = st\<lparr>mq := mq'\<rparr> in
          if r < 0 then
            (if p \<noteq> NULL then
               (case kfree p (heap st) of None \<Rightarrow> None | Some h \<Rightarrow> Some (st\<lparr>heap := h\<rparr>))
             else Some st)
          else Some st)"

subsection \<open>The thread\<close>

definition log_write_start :: "allocator \<Rightarrow> klog \<Rightarrow> klog" where
  "log_write_start km st =
     (let (p, h) = kmalloc km (nat TRFS_PAGE_SIZE) (heap st) in
      st\<lparr>heap := h, tlw := (tlw st)\<lparr>page := p, page_size := 0\<rparr>,
         thr := \<lparr>pc = Head, buf = 0, len = 1\<rparr>\<rparr>)"

text \<open>The label \<open>out\<close>: free the page and both message pointers and return.\<close>

definition free_all :: "ptr list \<Rightarrow> kheap \<Rightarrow> kheap option" where
  "free_all ps h = fold (\<lambda>p h. case h of None \<Rightarrow> None | Some h \<Rightarrow> kfree p h) ps (Some h)"

definition log_write_out :: "int \<Rightarrow> ptr \<Rightarrow> ptr \<Rightarrow> klog \<Rightarrow> klog option" where
  "log_write_out err msg1 msg2 st =
     (case free_all [page (tlw st), msg1, msg2] (heap st) of
        None \<Rightarrow> None
      | Some h \<Rightarrow> Some (st\<lparr>heap := h, tlw := (tlw st)\<lparr>page := NULL\<rparr>,
                          thr := (thr st)\<lparr>pc := Exited err\<rparr>\<rparr>))"

text \<open>\<open>memcpy(buf, msg1, len)\<close> from the record into the page.\<close>

definition copy_to_page :: "ptr \<Rightarrow> int \<Rightarrow> klog \<Rightarrow> klog option" where
  "copy_to_page msg1 n st =
     (case (blocks (heap st) msg1, blocks (heap st) (page (tlw st))) of
        (Some rec, Some pg) \<Rightarrow>
          (case load 0 (size_t n) rec of
             None \<Rightarrow> None
           | Some d \<Rightarrow>
               (case store (buf (thr st)) d pg of
                  None \<Rightarrow> None
                | Some pg' \<Rightarrow>
                    Some (st\<lparr>heap := (heap st)\<lparr>blocks := (blocks (heap st))(page (tlw st) \<mapsto> pg')\<rparr>,
                             thr := (thr st)\<lparr>buf := buf (thr st) + size_t n\<rparr>,
                             tlw := (tlw st)\<lparr>page_size := page_size (tlw st) + n\<rparr>\<rparr>)))
      | _ \<Rightarrow> None)"

text \<open>Writing the page out when the next \<open>n\<close> bytes do not fit into it any more.\<close>

definition make_room :: "vfs_write \<Rightarrow> int \<Rightarrow> klog \<Rightarrow> klog option" where
  "make_room vw n st =
     (if page_size (tlw st) + n > TRFS_PAGE_SIZE then
        (case write_page vw st of
           None \<Rightarrow> None
         | Some st \<Rightarrow> Some (st\<lparr>thr := (thr st)\<lparr>buf := 0\<rparr>, tlw := (tlw st)\<lparr>page_size := 0\<rparr>\<rparr>))
      else Some st)"

text \<open>
  The body of the loop after a message has arrived: \<open>msg1\<close> points to the record,
  \<open>msg2\<close> to the block allocated at the top of the loop.
\<close>

definition log_write_msg :: "vfs_write \<Rightarrow> ptr \<Rightarrow> ptr \<Rightarrow> klog \<Rightarrow> klog option" where
  "log_write_msg vw msg1 msg2 st =
     (case blocks (heap st) msg1 of
        None \<Rightarrow> None
      | Some rec \<Rightarrow>
          (case load 0 4 rec of
             None \<Rightarrow> None
           | Some w \<Rightarrow>
               if sle_dec w = TRFS_LOG_COMPLETE then log_write_out 0 msg1 msg2 st
               else
                 case make_room vw (len (thr st)) st of
                      None \<Rightarrow> None
                    | Some st \<Rightarrow>
                        (case copy_to_page msg1 (len (thr st)) st of
                           None \<Rightarrow> None
                         | Some st \<Rightarrow>
                             (case free_all [msg1, msg2] (heap st) of
                                None \<Rightarrow> None
                              | Some h \<Rightarrow> Some (st\<lparr>heap := h, thr := (thr st)\<lparr>pc := Head\<rparr>\<rparr>)))))"

text \<open>
  One step of the thread. A step of a thread that stays asleep, or that has returned, changes
  nothing; \<open>early\<close> says whether a signal ends the wait.
\<close>

definition log_write_step :: "allocator \<Rightarrow> vfs_write \<Rightarrow> bool \<Rightarrow> klog \<Rightarrow> klog option" where
  "log_write_step km vw early st =
     (case pc (thr st) of
        Exited e \<Rightarrow> Some st
      | Head \<Rightarrow>
          let (p, h) = kmalloc km 4 (heap st) in
          Some (st\<lparr>heap := h, thr := (thr st)\<lparr>pc := Waiting p\<rparr>\<rparr>)
      | Waiting msg2 \<Rightarrow>
          (case trfsMqRecv TRFS_LOG_QID True (Some (len (thr st))) (-1) early (mq st) of
             RecvFault \<Rightarrow> None
           | RecvBlocks \<Rightarrow> Some st
           | RecvRet r m mq' \<Rightarrow>
               let st = st\<lparr>mq := mq'\<rparr>;
                   msg1 = (case m of Some x \<Rightarrow> msg_data x | None \<Rightarrow> msg2);
                   st = (case m of Some x \<Rightarrow> st\<lparr>thr := (thr st)\<lparr>len := int32 (msg_len x)\<rparr>\<rparr>
                         | None \<Rightarrow> st)
               in if r < 0 then log_write_out (- EINVAL) msg1 msg2 st
                  else log_write_msg vw msg1 msg2 st))"

text \<open>Running the thread for a number of steps, with no signal.\<close>

fun drain :: "allocator \<Rightarrow> vfs_write \<Rightarrow> nat \<Rightarrow> klog \<Rightarrow> klog option" where
  "drain km vw 0 st = Some st"
| "drain km vw (Suc n) st =
     (case log_write_step km vw False st of None \<Rightarrow> None | Some st' \<Rightarrow> drain km vw n st')"

subsection \<open>Starting and stopping the thread\<close>

text \<open>
  \<open>trfs_kthread_create\<close> assigns the new task to its own parameter: the caller's variable
  \<open>trfs_kthread\<close> keeps its value. \<open>kc\<close> is \<open>kthread_create\<close>; the result is the
  return value, the task that was woken up, and the caller's variable.
\<close>

definition trfs_kthread_create :: "(unit \<Rightarrow> ptr) \<Rightarrow> ptr \<Rightarrow> int \<times> ptr option \<times> ptr" where
  "trfs_kthread_create kc thread =
     (let t = kc () in (0, if t \<noteq> NULL then Some t else None, thread))"

text \<open>
  \<open>trfs_kthread_exit\<close> sends a pointer to a zero byte of its stack frame (\<open>frame\<close>) with
  the size of a pointer; \<open>kstop\<close> is \<open>kthread_stop\<close>.
\<close>

definition trfs_kthread_exit :: "(ptr \<Rightarrow> int) \<Rightarrow> ptr \<Rightarrow> ptr \<Rightarrow> klog \<Rightarrow> (int \<times> klog) option" where
  "trfs_kthread_exit kstop frame thread st =
     (case TRFS_WRITE frame 8 st of None \<Rightarrow> None | Some st' \<Rightarrow> Some (kstop thread, st'))"

subsection \<open>Specification vocabulary\<close>

text \<open>
  What the code relies on of \<open>vfs_write\<close>: on a writable file it writes all the bytes at
  the file position and moves the position behind them.
\<close>

definition write_at :: "kfile \<Rightarrow> bytes \<Rightarrow> kfile" where
  "write_at f d =
     f\<lparr>f_data := take (f_pos f) (f_data f) @ d @ drop (f_pos f + length d) (f_data f),
       f_pos := f_pos f + length d\<rparr>"

definition full_write :: "vfs_write \<Rightarrow> bool" where
  "full_write vw \<longleftrightarrow>
     (\<forall>f d. f_writable f \<longrightarrow> length d < 2 ^ 31 \<longrightarrow>
        vw f (Some d) (length d) = (int (length d), write_at f d))"

text \<open>The log queue, and the records in it.\<close>

definition log_queue :: "klog \<Rightarrow> trfsMqMsg list" where
  "log_queue st = content (queue_of TRFS_LOG_QID (mq st))"

definition block_of :: "kheap \<Rightarrow> ptr \<Rightarrow> bytes" where
  "block_of h p = (case blocks h p of Some blk \<Rightarrow> blk | None \<Rightarrow> [])"

definition queued :: "klog \<Rightarrow> bytes list" where
  "queued st = map (\<lambda>m. block_of (heap st) (msg_data m)) (log_queue st)"

definition paged :: "klog \<Rightarrow> bytes" where
  "paged st = take (nat (page_size (tlw st))) (block_of (heap st) (page (tlw st)))"

definition written :: "klog \<Rightarrow> bytes" where
  "written st = (case tfile (tlw st) of FOpen f \<Rightarrow> f_data f | _ \<Rightarrow> [])"

text \<open>The whole trace, wherever its bytes are at the moment.\<close>

definition trace :: "klog \<Rightarrow> bytes" where
  "trace st = written st @ paged st @ concat (queued st)"

text \<open>A record the writer handles: a header at least, a page at most, not numbered 127.\<close>

definition plain_rec :: "bytes \<Rightarrow> bool" where
  "plain_rec rec \<longleftrightarrow>
     4 \<le> length rec \<and> int (length rec) \<le> TRFS_PAGE_SIZE \<and> sle_dec (take 4 rec) \<noteq> TRFS_LOG_COMPLETE"

definition msg_ok :: "kheap \<Rightarrow> trfsMqMsg \<Rightarrow> bool" where
  "msg_ok h m \<longleftrightarrow>
     (\<exists>rec. blocks h (msg_data m) = Some rec \<and> msg_len m = int (length rec) \<and> plain_rec rec)"

definition thread_ptrs :: "klog \<Rightarrow> ptr list" where
  "thread_ptrs st =
     (case pc (thr st) of Waiting p \<Rightarrow> if p = NULL then [] else [p] | Head \<Rightarrow> [] | Exited e \<Rightarrow> [])"

text \<open>The blocks the log owns: the page, the thread's own block, the queued records.\<close>

definition owned :: "klog \<Rightarrow> ptr list" where
  "owned st = page (tlw st) # thread_ptrs st @ map msg_data (log_queue st)"

definition page_ok :: "klog \<Rightarrow> bool" where
  "page_ok st \<longleftrightarrow>
     page (tlw st) \<noteq> NULL \<and> (\<exists>pg. blocks (heap st) (page (tlw st)) = Some pg \<and> int (length pg) = TRFS_PAGE_SIZE) \<and>
     0 \<le> page_size (tlw st) \<and> page_size (tlw st) \<le> TRFS_PAGE_SIZE \<and>
     buf (thr st) = nat (page_size (tlw st))"

definition file_ok :: "klog \<Rightarrow> bool" where
  "file_ok st \<longleftrightarrow>
     (\<exists>f. tfile (tlw st) = FOpen f \<and> f_writable f \<and> f_pos f = length (f_data f))"

definition log_inv :: "klog \<Rightarrow> bool" where
  "log_inv st \<longleftrightarrow>
     log_q_ready (mq st) \<and> heap_wf (heap st) \<and> file_ok st \<and> page_ok st \<and>
     distinct (owned st) \<and> (\<forall>p \<in> set (owned st). blocks (heap st) p \<noteq> None) \<and>
     (\<forall>m \<in> set (log_queue st). msg_ok (heap st) m) \<and> (\<forall>e. pc (thr st) \<noteq> Exited e)"

section \<open>Lemmas\<close>

lemmas log_spec_defs = log_queue_def queued_def paged_def written_def

subsection \<open>The file\<close>

lemma write_page_appends:
  assumes vw: "full_write vw" and f: "tfile (tlw st) = FOpen f" "f_writable f"
      "f_pos f = length (f_data f)"
    and pg: "page_ok st"
  shows "\<exists>f'. write_page vw st = Some (st\<lparr>tlw := (tlw st)\<lparr>tfile := FOpen f'\<rparr>\<rparr>) \<and>
    f_writable f' \<and> f_pos f' = length (f_data f') \<and> f_data f' = f_data f @ paged st"
proof -
  let ?n = "nat (page_size (tlw st))"
  obtain blk where blk: "blocks (heap st) (page (tlw st)) = Some blk" "int (length blk) = 4096"
    and ps: "0 \<le> page_size (tlw st)" "page_size (tlw st) \<le> 4096" "page (tlw st) \<noteq> NULL"
    using pg by (auto simp: page_ok_def)
  have n: "nat (page_size (tlw st) mod 2 ^ 32) = ?n" "?n \<le> length blk"
    using ps blk(2) by (simp_all add: mod_pos_pos_trivial)
  have ub: "user_bytes (heap st) (page (tlw st)) ?n = Some (Some (paged st))"
    using blk ps n by (simp add: user_bytes_def load_def paged_def block_of_def)
  have len: "length (paged st) = ?n" using n blk by (simp add: paged_def block_of_def)
  have vwf: "vw f (Some (paged st)) ?n = (int ?n, write_at f (paged st))"
  proof -
    have "length (paged st) < 2 ^ 31" using len ps by simp
    with vw f(2) have "vw f (Some (paged st)) (length (paged st)) =
        (int (length (paged st)), write_at f (paged st))" by (simp add: full_write_def)
    then show ?thesis by (simp add: len)
  qed
  show ?thesis
    using f ub vwf
    by (intro exI [of _ "write_at f (paged st)"])
      (simp add: write_page_def Let_def n(1) [simplified] trfs_file_write_def write_at_def)
qed

lemma flush_appends:
  assumes "full_write vw" and "file_ok st" and "page_ok st"
  shows "\<exists>st'. trfs_log_write_flush vw st = Some st' \<and> written st' = written st @ paged st"
  using write_page_appends [OF assms(1) _ _ _ assms(3)] assms(2)
  by (auto simp: file_ok_def trfs_log_write_flush_def written_def)

subsection \<open>Freeing\<close>

lemma kfree_allocated:
  "p \<noteq> NULL \<Longrightarrow> blocks h p \<noteq> None \<Longrightarrow> kfree p h = Some (h\<lparr>blocks := (blocks h)(p := None)\<rparr>)"
  by (simp add: kfree_def)

lemma kfree_null [simp]: "kfree NULL h = Some h"
  by (simp add: kfree_def)

lemma free_all_Nil [simp]: "free_all [] h = Some h"
  by (simp add: free_all_def)

lemma free_all_none: "fold (\<lambda>p h. case h of None \<Rightarrow> None | Some h \<Rightarrow> kfree p h) ps None = None"
  by (induction ps) auto

lemma free_all_Cons [simp]:
  "free_all (p # ps) h = (case kfree p h of None \<Rightarrow> None | Some h' \<Rightarrow> free_all ps h')"
  by (auto simp: free_all_def free_all_none split: option.splits)

lemma free_all_two:
  assumes "heap_wf h" and "blocks h m \<noteq> None" and "p = NULL \<or> blocks h p \<noteq> None" and "p \<noteq> m"
  shows "free_all [m, p] h = Some (h\<lparr>blocks := (blocks h)(m := None, p := None)\<rparr>)"
proof -
  note null = heap_wf_null [OF assms(1)]
  have "m \<noteq> NULL" using null assms(2) by metis
  then have m: "kfree m h = Some (h\<lparr>blocks := (blocks h)(m := None)\<rparr>)"
    using assms(2) by (simp add: kfree_def)
  show ?thesis
  proof (cases "p = NULL")
    case True
    then have "((blocks h)(m := None))(p := None) = (blocks h)(m := None)"
      using null by (intro fun_upd_idem) simp
    with m True show ?thesis by simp
  next
    case False
    with m assms show ?thesis by (simp add: kfree_def)
  qed
qed

text \<open>Freeing one of several distinct allocated blocks leaves the others as they are.\<close>

lemma block_of_upd: "block_of (h\<lparr>blocks := (blocks h)(p := v)\<rparr>) q =
    (if q = p then (case v of Some blk \<Rightarrow> blk | None \<Rightarrow> []) else block_of h q)"
  by (simp add: block_of_def)

lemma heap_wf_upd: "heap_wf h \<Longrightarrow> blocks h p \<noteq> None \<Longrightarrow> heap_wf (h\<lparr>blocks := (blocks h)(p := v)\<rparr>)"
  by (auto simp: heap_wf_def split: if_splits)

subsection \<open>Copying a record into the page\<close>

lemma copy_to_page_appends:
  assumes pg: "page_ok st" and room: "page_size (tlw st) + n \<le> TRFS_PAGE_SIZE"
    and rec: "blocks (heap st) p = Some rec" "n = int (length rec)" and ne: "p \<noteq> page (tlw st)"
  shows "\<exists>pg'. copy_to_page p n st =
      Some (st\<lparr>heap := (heap st)\<lparr>blocks := (blocks (heap st))(page (tlw st) \<mapsto> pg')\<rparr>,
               thr := (thr st)\<lparr>buf := nat (page_size (tlw st) + n)\<rparr>,
               tlw := (tlw st)\<lparr>page_size := page_size (tlw st) + n\<rparr>\<rparr>) \<and>
    int (length pg') = TRFS_PAGE_SIZE \<and> take (nat (page_size (tlw st) + n)) pg' = paged st @ rec"
proof -
  obtain blk where blk: "blocks (heap st) (page (tlw st)) = Some blk" "int (length blk) = 4096"
    and ps: "0 \<le> page_size (tlw st)" "buf (thr st) = nat (page_size (tlw st))"
    using pg by (auto simp: page_ok_def)
  have n: "size_t n = length rec" using room ps rec by (simp add: size_t_def)
  let ?b = "nat (page_size (tlw st))"
  let ?pg' = "take ?b blk @ rec @ drop (?b + length rec) blk"
  have fits: "?b + length rec \<le> length blk" using room ps blk rec by simp
  have st: "store ?b rec blk = Some ?pg'" using fits by (simp add: store_def)
  have nn: "nat (page_size (tlw st) + n) = ?b + length rec" using ps rec by simp
  have "copy_to_page p n st =
      Some (st\<lparr>heap := (heap st)\<lparr>blocks := (blocks (heap st))(page (tlw st) \<mapsto> ?pg')\<rparr>,
               thr := (thr st)\<lparr>buf := nat (page_size (tlw st) + n)\<rparr>,
               tlw := (tlw st)\<lparr>page_size := page_size (tlw st) + n\<rparr>\<rparr>)"
    using rec(1) blk(1) ps st n nn by (simp add: copy_to_page_def load_def)
  moreover have "int (length ?pg') = 4096" using fits blk by simp
  moreover have "take (?b + length rec) ?pg' = paged st @ rec"
    using fits blk by (simp add: paged_def block_of_def)
  ultimately show ?thesis using nn by auto
qed

subsection \<open>One step of the thread\<close>

lemma msg_ok_cong: "blocks h' (msg_data m) = blocks h (msg_data m) \<Longrightarrow> msg_ok h' m = msg_ok h m"
  by (simp add: msg_ok_def)

lemma make_room_ok:
  assumes "full_write vw" and "file_ok st" and "page_ok st" and "0 \<le> n" and "n \<le> TRFS_PAGE_SIZE"
  shows "\<exists>st'. make_room vw n st = Some st' \<and> file_ok st' \<and> page_ok st' \<and>
    page_size (tlw st') + n \<le> TRFS_PAGE_SIZE \<and> written st' @ paged st' = written st @ paged st \<and>
    heap st' = heap st \<and> mq st' = mq st \<and> page (tlw st') = page (tlw st) \<and>
    pc (thr st') = pc (thr st) \<and> len (thr st') = len (thr st)"
proof (cases "page_size (tlw st) + n > TRFS_PAGE_SIZE")
  case False
  then show ?thesis using assms by (simp add: make_room_def)
next
  case True
  obtain f where f: "tfile (tlw st) = FOpen f" "f_writable f" "f_pos f = length (f_data f)"
    using assms(2) by (auto simp: file_ok_def)
  from write_page_appends [OF assms(1) f assms(3)] True assms(3-) f show ?thesis
    by (auto simp: make_room_def file_ok_def page_ok_def written_def paged_def)
qed

lemma head_step_trace:
  assumes inv: "log_inv st" and head: "pc (thr st) = Head" and km: "alloc_sized km"
  shows "\<exists>st' p. log_write_step km vw False st = Some st' \<and> log_inv st' \<and> trace st' = trace st \<and>
    pc (thr st') = Waiting p \<and> log_queue st' = log_queue st"
proof (cases "km (requests (heap st)) 4")
  case None
  then show ?thesis
    using inv head
    by (auto simp: log_write_step_def kmalloc_def Let_def log_inv_def heap_wf_def file_ok_def
        page_ok_def owned_def thread_ptrs_def trace_def log_spec_defs block_of_def msg_ok_def
        le_SucI)
next
  case (Some g)
  let ?p = "Suc (requests (heap st))"
  let ?h = "(heap st)\<lparr>requests := ?p, blocks := (blocks (heap st))(?p \<mapsto> g)\<rparr>"
  let ?st = "st\<lparr>heap := ?h, thr := (thr st)\<lparr>pc := Waiting ?p\<rparr>\<rparr>"
  have fresh: "blocks (heap st) ?p = None" using inv kmalloc_fresh by (auto simp: log_inv_def)
  then have new: "?p \<notin> set (owned st)" using inv by (auto simp: log_inv_def)
  have step: "log_write_step km vw False st = Some ?st"
    using head Some by (simp add: log_write_step_def kmalloc_def Let_def)
  have wf: "heap_wf ?h" using inv by (auto simp: log_inv_def heap_wf_def le_SucI)
  have q: "log_queue ?st = log_queue st" by (simp add: log_queue_def)
  have own: "owned ?st = page (tlw st) # ?p # map msg_data (log_queue st)"
    "owned st = page (tlw st) # map msg_data (log_queue st)"
    using head by (simp_all add: owned_def thread_ptrs_def log_queue_def)
  have same: "block_of ?h x = block_of (heap st) x" if "x \<in> set (owned st)" for x
    using that new by (auto simp: block_of_def)
  have "msg_ok ?h m" if "m \<in> set (log_queue st)" for m
  proof -
    have "msg_data m \<in> set (owned st)" using that by (simp add: own(2))
    with new have "msg_data m \<noteq> ?p" by metis
    with that inv show ?thesis by (auto simp: log_inv_def intro: msg_ok_cong [THEN iffD1, rotated])
  qed
  moreover have "page_ok ?st" using inv new own by (auto simp: log_inv_def page_ok_def)
  ultimately have "log_inv ?st"
    using inv wf q own new by (auto simp: log_inv_def file_ok_def)
  moreover have "queued ?st = queued st"
    using same own(2) by (simp add: queued_def q)
  then have "trace ?st = trace st"
    using same own(2) by (simp add: trace_def written_def paged_def)
  ultimately show ?thesis using step q by auto
qed

text \<open>The thread asleep on an empty queue does nothing.\<close>

lemma blocked_step:
  assumes "log_inv st" and "pc (thr st) = Waiting p" and "log_queue st = []"
  shows "log_write_step km vw False st = Some st"
  using assms recv_blocks [of "mq st" TRFS_LOG_QID]
  by (simp add: log_write_step_def log_inv_def log_q_ready_def log_queue_def)

text \<open>A record moves into the page, and both blocks the thread held are freed.\<close>

lemma move_record:
  assumes wf: "heap_wf (heap st)" and fo: "file_ok st" and po: "page_ok st"
    and rec: "blocks (heap st) m = Some rec" "len (thr st) = int (length rec)" "plain_rec rec"
    and m: "m \<noteq> page (tlw st)"
    and p: "p = NULL \<or> blocks (heap st) p \<noteq> None" "p \<noteq> page (tlw st)" "p \<noteq> m"
    and vw: "full_write vw"
  shows "\<exists>st' pg'. log_write_msg vw m p st = Some st' \<and> mq st' = mq st \<and> pc (thr st') = Head \<and>
    file_ok st' \<and> page_ok st' \<and> page (tlw st') = page (tlw st) \<and>
    written st' @ paged st' = written st @ paged st @ rec \<and> heap_wf (heap st') \<and>
    blocks (heap st') = (blocks (heap st))(page (tlw st) \<mapsto> pg', m := None, p := None)"
proof -
  let ?n = "int (length rec)"
  have n: "0 \<le> ?n" "?n \<le> 4096" using rec(3) by (auto simp: plain_rec_def)
  obtain st2 where st2: "make_room vw ?n st = Some st2" "file_ok st2" "page_ok st2"
    "page_size (tlw st2) + ?n \<le> 4096" "written st2 @ paged st2 = written st @ paged st"
    "heap st2 = heap st" "mq st2 = mq st" "page (tlw st2) = page (tlw st)" "len (thr st2) = ?n"
    using make_room_ok [OF vw fo po n] rec(2) by auto
  define h where "h pg' = (heap st)\<lparr>blocks := (blocks (heap st))(page (tlw st) \<mapsto> pg')\<rparr>" for pg'
  obtain pg' where cp: "copy_to_page m ?n st2 =
      Some (st2\<lparr>heap := h pg', thr := (thr st2)\<lparr>buf := nat (page_size (tlw st2) + ?n)\<rparr>,
        tlw := (tlw st2)\<lparr>page_size := page_size (tlw st2) + ?n\<rparr>\<rparr>)"
    and pg': "int (length pg') = 4096" "take (nat (page_size (tlw st2) + ?n)) pg' = paged st2 @ rec"
    using copy_to_page_appends [OF st2(3,4), of m rec] rec(1) st2 m by (auto simp: h_def)
  have wf': "heap_wf (h pg')"
    using wf po by (auto simp: h_def page_ok_def intro!: heap_wf_upd)
  have free: "free_all [m, p] (h pg') =
      Some ((h pg')\<lparr>blocks := (blocks (h pg'))(m := None, p := None)\<rparr>)"
    by (rule free_all_two [OF wf']) (use rec(1) m p in \<open>auto simp: h_def\<close>)
  define st' where "st' = st2\<lparr>
      heap := (heap st)\<lparr>blocks := (blocks (heap st))(page (tlw st) \<mapsto> pg', m := None, p := None)\<rparr>,
      thr := (thr st2)\<lparr>buf := nat (page_size (tlw st2) + ?n), pc := Head\<rparr>,
      tlw := (tlw st2)\<lparr>page_size := page_size (tlw st2) + ?n\<rparr>\<rparr>"
  have "log_write_msg vw m p st = Some st'"
    using rec st2(1,6,9) cp free by (simp add: log_write_msg_def load_def plain_rec_def st'_def h_def)
  moreover have "heap_wf (heap st')"
    using wf' by (auto simp: heap_wf_def st'_def h_def split: if_splits)
  moreover have "page_ok st'" "file_ok st'"
    using st2(2,3,4,8) pg'(1) m p(2) by (auto simp: st'_def page_ok_def file_ok_def)
  moreover have "written st' @ paged st' = written st @ paged st @ rec"
  proof -
    have "paged st' = paged st2 @ rec"
      using pg'(2) st2(8) m p(2) by (simp add: st'_def paged_def block_of_def)
    moreover have "written st' = written st2" by (simp add: st'_def written_def)
    ultimately show ?thesis using st2(5) by simp
  qed
  ultimately show ?thesis using st2(7,8) by (intro exI [of _ st'] exI [of _ pg']) (simp add: st'_def)
qed

text \<open>The thread takes the oldest record and moves it into the page.\<close>

lemma wait_step_trace:
  assumes inv: "log_inv st" and wait: "pc (thr st) = Waiting p" and q: "log_queue st = m # ms"
    and vw: "full_write vw"
  shows "\<exists>st'. log_write_step km vw False st = Some st' \<and> log_inv st' \<and> trace st' = trace st \<and>
    pc (thr st') = Head \<and> log_queue st' = ms"
proof -
  have rdy: "log_q_ready (mq st)" and wf: "heap_wf (heap st)" and dist: "distinct (owned st)"
    and alloc: "\<forall>x \<in> set (owned st). blocks (heap st) x \<noteq> None"
    using inv by (auto simp: log_inv_def)
  have own: "owned st = page (tlw st) # (if p = NULL then [] else [p]) @ msg_data m # map msg_data ms"
    using wait q by (simp add: owned_def thread_ptrs_def)
  obtain rec where rec: "blocks (heap st) (msg_data m) = Some rec" "msg_len m = int (length rec)"
    "plain_rec rec" using inv q by (auto simp: log_inv_def msg_ok_def)
  have n: "int32 (msg_len m) = int (length rec)" using rec by (auto simp: plain_rec_def int32_nat)
  obtain mq' where mq': "trfsMqRecv 2 True (Some (len (thr st))) (- 1) False (mq st) =
      RecvRet (int (length rec)) (Some m) mq'" "log_q_ready mq'" "content (queue_of 2 mq') = ms"
    using recv_next [of "mq st" 2 m ms] rdy q n
    by (fastforce simp: log_q_ready_def log_queue_def opened_def)
  define st1 where "st1 = st\<lparr>mq := mq', thr := (thr st)\<lparr>len := int (length rec)\<rparr>\<rparr>"
  have st1: "file_ok st1" "page_ok st1" "written st1 = written st" "paged st1 = paged st"
    "heap st1 = heap st" "len (thr st1) = int (length rec)" "page (tlw st1) = page (tlw st)"
    "mq st1 = mq'"
    using inv by (auto simp: st1_def log_inv_def file_ok_def page_ok_def written_def paged_def)
  have null: "blocks (heap st) NULL = None" using wf by (rule heap_wf_null)
  have ptrs: "msg_data m \<noteq> page (tlw st)" "p = NULL \<or> blocks (heap st) p \<noteq> None"
    "p \<noteq> page (tlw st)" "p \<noteq> msg_data m"
    using dist alloc null unfolding own by (auto split: if_splits)
  obtain st' pg' where st': "log_write_msg vw (msg_data m) p st1 = Some st'" "mq st' = mq'"
    "pc (thr st') = Head" "file_ok st'" "page_ok st'" "page (tlw st') = page (tlw st)"
    "written st' @ paged st' = written st @ paged st @ rec" "heap_wf (heap st')"
    "blocks (heap st') = (blocks (heap st))(page (tlw st) \<mapsto> pg', msg_data m := None, p := None)"
    using move_record [of st1 "msg_data m" rec p vw] wf rec(1,3) ptrs vw st1 by auto
  have step: "log_write_step km vw False st = Some st'"
    using wait mq'(1) st'(1) n by (simp add: log_write_step_def st1_def)
  have q': "log_queue st' = ms" using st'(2) mq'(3) by (simp add: log_queue_def)
  have own': "owned st' = page (tlw st) # map msg_data ms"
    using st'(3,6) q' by (simp add: owned_def thread_ptrs_def)
  have kept: "blocks (heap st') (msg_data x) = blocks (heap st) (msg_data x)" if "x \<in> set ms" for x
  proof -
    have x: "msg_data x \<in> msg_data ` set ms" using that by simp
    then have "msg_data x \<noteq> page (tlw st)" "msg_data x \<noteq> msg_data m"
      using dist unfolding own by auto
    moreover have "msg_data x \<noteq> p"
    proof (cases "p = NULL")
      case True
      have "blocks (heap st) (msg_data x) \<noteq> None"
        using alloc that unfolding own by simp
      with True null show ?thesis by metis
    next
      case False
      then show ?thesis using x dist unfolding own by auto
    qed
    ultimately show ?thesis unfolding st'(9) by simp
  qed
  have "\<forall>x \<in> set (owned st'). blocks (heap st') x \<noteq> None"
  proof -
    have "blocks (heap st') (page (tlw st)) \<noteq> None"
      using ptrs(1,3) unfolding st'(9) by auto
    moreover have "blocks (heap st') (msg_data x) \<noteq> None" if "x \<in> set ms" for x
      using alloc that unfolding own kept [OF that] by simp
    ultimately show ?thesis unfolding own' by simp
  qed
  moreover have "\<forall>x \<in> set ms. msg_ok (heap st') x"
  proof
    fix x assume x: "x \<in> set ms"
    then have "msg_ok (heap st) x" using inv q by (simp add: log_inv_def)
    then show "msg_ok (heap st') x" unfolding msg_ok_def kept [OF x] .
  qed
  moreover have "distinct (owned st')" using dist unfolding own own' by simp
  ultimately have "log_inv st'"
    using mq'(2) st'(2-5,8) unfolding log_inv_def q' by simp
  moreover have "concat (queued st) = rec @ concat (queued st')"
  proof -
    have "map (\<lambda>m. block_of (heap st') (msg_data m)) ms = map (\<lambda>m. block_of (heap st) (msg_data m)) ms"
      using kept by (simp add: block_of_def)
    moreover have "block_of (heap st) (msg_data m) = rec" using rec(1) by (simp add: block_of_def)
    ultimately show ?thesis by (simp add: queued_def q q' cong: map_cong)
  qed
  then have "trace st' = trace st" using st'(7) by (simp add: trace_def)
  ultimately show ?thesis using step st'(3) q' by auto
qed

text \<open>Draining the queue takes two steps for each record.\<close>

lemma drain_enough:
  assumes "log_inv st" and "alloc_sized km" and "full_write vw"
    and "2 * length (log_queue st) + (if pc (thr st) = Head then 1 else 0) \<le> n"
  shows "\<exists>st'. drain km vw n st = Some st' \<and> log_inv st' \<and> trace st' = trace st \<and> log_queue st' = []"
  using assms
proof (induction n arbitrary: st)
  case 0
  then show ?case by (auto split: if_splits)
next
  case (Suc n)
  show ?case
  proof (cases "pc (thr st)")
    case Head
    from head_step_trace [OF Suc.prems(1) Head Suc.prems(2), of vw] obtain st' p where
      st': "log_write_step km vw False st = Some st'" "log_inv st'" "trace st' = trace st"
      "pc (thr st') = Waiting p" "log_queue st' = log_queue st" by blast
    with Suc.IH [OF st'(2) Suc.prems(2,3)] Suc.prems(4) Head show ?thesis by auto
  next
    case (Waiting p)
    show ?thesis
    proof (cases "log_queue st")
      case Nil
      have "drain km vw k st = Some st" for k
        by (induction k) (simp_all add: blocked_step [OF Suc.prems(1) Waiting Nil])
      with Suc.prems Nil show ?thesis by blast
    next
      case (Cons m ms)
      from wait_step_trace [OF Suc.prems(1) Waiting Cons Suc.prems(3), of km] obtain st' where
        st': "log_write_step km vw False st = Some st'" "log_inv st'" "trace st' = trace st"
        "pc (thr st') = Head" "log_queue st' = ms" by blast
      with Suc.IH [OF st'(2) Suc.prems(2,3)] Suc.prems(4) Cons show ?thesis by auto
    qed
  next
    case (Exited e)
    with Suc.prems show ?thesis by (simp add: log_inv_def)
  qed
qed

subsection \<open>Start-up\<close>

text \<open>The queue the mount creates is the one the log uses.\<close>

lemma log_queue_created:
  "\<exists>q. trfs_create_log_q mq_boot = Some (0, q) \<and> log_q_ready q \<and>
     content (queue_of TRFS_LOG_QID q) = []"
proof -
  obtain q where q: "trfs_create_log_q mq_boot = Some (0, q)" "mq_inv q" "numAfdxQs q = 10"
    "\<forall>i < 10. content (queues q ! i) = [] \<and> capacity (queues q ! i) = 1024 \<and>
       exit_flag (attr (queues q ! i)) = 0"
    using create_log_q_boot by blast
  have "(1::nat) < 10" by simp
  with q show ?thesis by (intro exI [of _ q]) (simp add: log_q_ready_def opened_def queue_of_def)
qed

text \<open>
  Starting the thread on a fresh page establishes the invariant; the trace is empty because the
  file has just been truncated.
\<close>

lemma log_start_inv:
  assumes q: "log_q_ready (mq st)" "log_queue st = []" and wf: "heap_wf (heap st)"
    and f: "tfile (tlw st) = FOpen f" "f_writable f" "f_pos f = 0" "f_data f = []"
    and km: "km (requests (heap st)) 4096 = Some pg" "length pg = 4096"
  shows "log_inv (log_write_start km st)" "trace (log_write_start km st) = []"
    "log_queue (log_write_start km st) = []" "pc (thr (log_write_start km st)) = Head"
proof -
  define h where "h = (heap st)\<lparr>requests := Suc (requests (heap st)),
    blocks := (blocks (heap st))(Suc (requests (heap st)) \<mapsto> pg)\<rparr>"
  have st': "log_write_start km st = st\<lparr>heap := h,
      tlw := (tlw st)\<lparr>page := Suc (requests (heap st)), page_size := 0\<rparr>,
      thr := \<lparr>pc = Head, buf = 0, len = 1\<rparr>\<rparr>"
    using km(1) by (simp add: log_write_start_def kmalloc_def Let_def h_def)
  show q': "log_queue (log_write_start km st) = []" and "pc (thr (log_write_start km st)) = Head"
    using q(2) by (simp_all add: st' log_queue_def)
  have "heap_wf h" using wf by (auto simp: heap_wf_def h_def le_Suc_eq)
  moreover have own: "owned (log_write_start km st) = [Suc (requests (heap st))]"
    using q' by (simp add: owned_def thread_ptrs_def st')
  ultimately show "log_inv (log_write_start km st)"
    unfolding log_inv_def own q' using q(1) f km(2)
    by (auto simp: st' file_ok_def page_ok_def h_def)
  show "trace (log_write_start km st) = []"
    using f q' by (simp add: trace_def queued_def written_def paged_def st')
qed

subsection \<open>A state that satisfies the invariant\<close>

text \<open>An allocator that always succeeds, a disk that takes every write, and the log right after
  its start on an empty file, used to show that the hypotheses of the properties can hold.\<close>

definition sample_alloc :: allocator where
  "sample_alloc k n = Some (replicate n 0)"

definition sample_write :: vfs_write where
  "sample_write f d n = (case d of None \<Rightarrow> (- EFAULT, f) | Some bs \<Rightarrow> (int n, write_at f bs))"

definition sample_file :: kfile where
  "sample_file = \<lparr>f_reg = True, f_readable = False, f_writable = True, f_pos = 0, f_data = []\<rparr>"

definition sample_log :: klog where
  "sample_log = log_write_start sample_alloc
     \<lparr>heap = \<lparr>blocks = Map.empty, requests = 0\<rparr>,
      mq = (case trfs_create_log_q mq_boot of Some (r, q) \<Rightarrow> q | None \<Rightarrow> mq_boot),
      tlw = \<lparr>tfile_name = Some [116], tfile = FOpen sample_file, page = NULL, page_size = 0,
             locks_ready = True\<rparr>,
      next_id = 1, thr = \<lparr>pc = Head, buf = 0, len = 0\<rparr>\<rparr>"

lemma sample_alloc_sized: "alloc_sized sample_alloc"
  by (simp add: alloc_sized_def sample_alloc_def)

lemma sample_full_write: "full_write sample_write"
  by (simp add: full_write_def sample_write_def)

lemma sample_log_inv: "log_inv sample_log"
  and sample_log_facts: "trace sample_log = []" "log_queue sample_log = []"
    "pc (thr sample_log) = Head" "next_id sample_log = 1"
proof -
  obtain q where q: "trfs_create_log_q mq_boot = Some (0, q)" "log_q_ready q"
    "content (queue_of TRFS_LOG_QID q) = []"
    using log_queue_created by blast
  define st where "st = \<lparr>heap = \<lparr>blocks = Map.empty, requests = 0\<rparr>, mq = q,
      tlw = \<lparr>tfile_name = Some [116], tfile = FOpen sample_file, page = NULL, page_size = 0,
             locks_ready = True\<rparr>,
      next_id = 1, thr = \<lparr>pc = Head, buf = 0, len = 0\<rparr>\<rparr>"
  have st: "sample_log = log_write_start sample_alloc st" by (simp add: sample_log_def q(1) st_def)
  have pre: "log_q_ready (mq st)" "log_queue st = []" "heap_wf (heap st)"
    "tfile (tlw st) = FOpen sample_file" "f_writable sample_file" "f_pos sample_file = 0"
    "f_data sample_file = []" "sample_alloc (requests (heap st)) 4096 = Some (replicate 4096 0)"
    "length (replicate 4096 (0 :: byte)) = 4096"
    using q by (simp_all add: st_def log_queue_def heap_wf_def sample_file_def sample_alloc_def)
  note facts = log_start_inv [of st sample_file sample_alloc, OF pre]
  show "log_inv sample_log" "trace sample_log = []" "log_queue sample_log = []"
    "pc (thr sample_log) = Head"
    unfolding st using facts by simp_all
  show "next_id sample_log = 1"
    by (simp add: st st_def log_write_start_def kmalloc_def sample_alloc_def Let_def)
qed

subsection \<open>The record with the number 127\<close>

lemma free_all_three:
  assumes "heap_wf h" and "blocks h a \<noteq> None" and "blocks h b \<noteq> None" and "a \<noteq> b"
    and "c = NULL \<or> blocks h c \<noteq> None" and "c \<noteq> a" and "c \<noteq> b"
  shows "free_all [a, b, c] h = Some (h\<lparr>blocks := (blocks h)(a := None, b := None, c := None)\<rparr>)"
proof -
  have "a \<noteq> NULL" using assms(1,2) heap_wf_null by metis
  then have a: "kfree a h = Some (h\<lparr>blocks := (blocks h)(a := None)\<rparr>)"
    using assms(2) by (rule kfree_allocated)
  have "free_all [b, c] (h\<lparr>blocks := (blocks h)(a := None)\<rparr>) =
      Some (h\<lparr>blocks := (blocks h)(a := None, b := None, c := None)\<rparr>)"
    using free_all_two [of "h\<lparr>blocks := (blocks h)(a := None)\<rparr>" b c] assms
    by (auto simp: heap_wf_def dom_def split: if_splits)
  with a show ?thesis by (simp add: free_all_def)
qed

text \<open>The thread compares the first word of a record, its number, with the stop code.\<close>

lemma stop_step:
  assumes q: "log_q_ready (mq st)" and wait: "pc (thr st) = Waiting p"
    and m: "log_queue st = m # ms" "blocks (heap st) (msg_data m) = Some rec" "4 \<le> length rec"
      "0 \<le> int32 (msg_len m)" "sle_dec (take 4 rec) = 127"
    and wf: "heap_wf (heap st)" and pg: "blocks (heap st) (page (tlw st)) \<noteq> None"
      "msg_data m \<noteq> page (tlw st)" "p = NULL \<or> blocks (heap st) p \<noteq> None" "p \<noteq> page (tlw st)"
      "p \<noteq> msg_data m"
  shows "\<exists>st'. log_write_step km vw False st = Some st' \<and> pc (thr st') = Exited 0 \<and>
    page (tlw st') = NULL \<and> tfile (tlw st') = tfile (tlw st) \<and> log_queue st' = ms \<and>
    (\<forall>n. drain km vw n st' = Some st')"
proof -
  obtain mq' where mq': "trfsMqRecv 2 True (Some (len (thr st))) (- 1) False (mq st) =
      RecvRet (int32 (msg_len m)) (Some m) mq'" "content (queue_of 2 mq') = ms"
    using recv_next [of "mq st" 2 m ms] q m(1) by (fastforce simp: log_q_ready_def log_queue_def)
  let ?h = "(heap st)\<lparr>blocks := (blocks (heap st))(page (tlw st) := None, msg_data m := None, p := None)\<rparr>"
  define st' where "st' = st\<lparr>mq := mq', heap := ?h, tlw := (tlw st)\<lparr>page := NULL\<rparr>,
    thr := (thr st)\<lparr>len := int32 (msg_len m), pc := Exited 0\<rparr>\<rparr>"
  have "free_all [page (tlw st), msg_data m, p] (heap st) = Some ?h"
    by (rule free_all_three [OF wf]) (use pg m in auto)
  then have "log_write_step km vw False st = Some st'"
    using wait mq'(1) m by (simp add: log_write_step_def log_write_msg_def load_def log_write_out_def st'_def)
  moreover have "drain km vw n st' = Some st'" for n
    by (induction n) (simp_all add: log_write_step_def st'_def)
  ultimately show ?thesis using mq'(2) by (intro exI [of _ st']) (simp add: st'_def log_queue_def)
qed

end
