(* ===== verification/Structs.thy ===== *)
theory Structs
  imports Prelude
begin

section \<open>The trace records: C structures and their layout\<close>

text \<open>
  \<^verbatim>\<open>src/trfs/structs.h\<close> declares the record that the kernel writes for each traced
  operation, \<^verbatim>\<open>src/Userland/structs.h\<close> the same records as the replayer reads them. The
  bytes on disk are the kernel's structures, so what the replayer reads depends on the layout
  the C compiler gives the two declarations. This theory translates every structure as the
  list of its fields with their C types, and computes offsets and sizes the way the LP64 ABI
  of the target (x86-64 Linux) does: a field starts at the next multiple of its alignment, and
  the size of a structure is rounded up to the largest alignment of its fields.

  The lemmas show that the computed layout is a layout (fields are aligned, ordered, disjoint
  and inside the structure, for any list of fields), that the two declarations of each record
  give the same offsets and sizes, and that all records start with the same header.
\<close>

subsection \<open>C types and layout\<close>

datatype ctype =
    C_uint8 | C_char | C_ushort | C_int | C_uint | C_mode | C_uint64 | C_size
  | C_char_arr nat

fun csize :: "ctype \<Rightarrow> nat" where
  "csize C_uint8 = 1"
| "csize C_char = 1"
| "csize C_ushort = 2"
| "csize C_int = 4"
| "csize C_uint = 4"
| "csize C_mode = 4"
| "csize C_uint64 = 8"
| "csize C_size = 8"
| "csize (C_char_arr n) = n"

fun calign :: "ctype \<Rightarrow> nat" where
  "calign (C_char_arr n) = 1"
| "calign t = csize t"

text \<open>The names of the fields.\<close>

datatype field =
    F_r_id | F_r_size | F_r_type | F_flags | F_mode | F_pid | F_addr
  | F_ret | F_len | F_pathname | F_count | F_ppos | F_len1 | F_len2
  | F_pathname1 | F_pathname2 | F_plen | F_hlen | F_slen

type_synonym cstruct = "(field \<times> ctype) list"

definition align_up :: "nat \<Rightarrow> nat \<Rightarrow> nat" where
  "align_up a n = (n + a - 1) div a * a"

fun offsets :: "nat \<Rightarrow> cstruct \<Rightarrow> (field \<times> nat) list" where
  "offsets pos [] = []"
| "offsets pos ((f, t) # fs) =
     (let off = align_up (calign t) pos in (f, off) # offsets (off + csize t) fs)"

fun end_of :: "nat \<Rightarrow> cstruct \<Rightarrow> nat" where
  "end_of pos [] = pos"
| "end_of pos ((f, t) # fs) = end_of (align_up (calign t) pos + csize t) fs"

fun struct_align :: "cstruct \<Rightarrow> nat" where
  "struct_align [] = 1"
| "struct_align ((f, t) # fs) = max (calign t) (struct_align fs)"

definition sizeof :: "cstruct \<Rightarrow> nat" where
  "sizeof S = align_up (struct_align S) (end_of 0 S)"

definition offsetof :: "cstruct \<Rightarrow> field \<Rightarrow> nat" where
  "offsetof S f = (case map_of (offsets 0 S) f of Some off \<Rightarrow> off | None \<Rightarrow> 0)"

definition fieldsize :: "cstruct \<Rightarrow> field \<Rightarrow> nat" where
  "fieldsize S f = (case map_of S f of Some t \<Rightarrow> csize t | None \<Rightarrow> 0)"

subsection \<open>The records as the kernel writes them\<close>

text \<open>\<^verbatim>\<open>src/trfs/structs.h\<close>.\<close>

definition trfs_open_op :: cstruct where
  "trfs_open_op =
     [(F_r_id, C_uint), (F_r_size, C_ushort), (F_r_type, C_uint8), (F_flags, C_int),
      (F_mode, C_mode), (F_pid, C_uint), (F_addr, C_uint64), (F_ret, C_int),
      (F_len, C_ushort), (F_pathname, C_char_arr 1)]"

definition trfs_read_op :: cstruct where
  "trfs_read_op =
     [(F_r_id, C_uint), (F_r_size, C_ushort), (F_r_type, C_uint8), (F_pid, C_uint),
      (F_addr, C_uint64), (F_count, C_size), (F_ppos, C_ushort), (F_ret, C_int),
      (F_len, C_ushort), (F_pathname, C_char_arr 1)]"

definition trfs_write_op :: cstruct where
  "trfs_write_op =
     [(F_r_id, C_uint), (F_r_size, C_ushort), (F_r_type, C_uint8), (F_pid, C_uint),
      (F_addr, C_uint64), (F_count, C_size), (F_ppos, C_ushort), (F_ret, C_int),
      (F_len, C_ushort), (F_pathname, C_char_arr 1)]"

definition trfs_close_op :: cstruct where
  "trfs_close_op =
     [(F_r_id, C_uint), (F_r_size, C_ushort), (F_r_type, C_uint8), (F_pid, C_uint),
      (F_addr, C_uint64), (F_ret, C_int), (F_len, C_ushort), (F_pathname, C_char_arr 1)]"

definition trfs_mkdir_op :: cstruct where
  "trfs_mkdir_op =
     [(F_r_id, C_uint), (F_r_size, C_ushort), (F_r_type, C_uint8), (F_pid, C_uint),
      (F_mode, C_int), (F_ret, C_int), (F_len, C_ushort), (F_pathname, C_char_arr 1)]"

definition trfs_rmdir_op :: cstruct where
  "trfs_rmdir_op =
     [(F_r_id, C_uint), (F_r_size, C_ushort), (F_r_type, C_uint8), (F_pid, C_uint),
      (F_ret, C_int), (F_len, C_ushort), (F_pathname, C_char_arr 1)]"

definition trfs_unlink_op :: cstruct where
  "trfs_unlink_op =
     [(F_r_id, C_uint), (F_r_size, C_ushort), (F_r_type, C_uint8), (F_pid, C_uint),
      (F_ret, C_int), (F_len, C_ushort), (F_pathname, C_char_arr 1)]"

definition trfs_rename_op :: cstruct where
  "trfs_rename_op =
     [(F_r_id, C_uint), (F_r_size, C_ushort), (F_r_type, C_uint8), (F_pid, C_uint),
      (F_ret, C_int), (F_len1, C_ushort), (F_len2, C_ushort),
      (F_pathname1, C_char_arr 1), (F_pathname2, C_char_arr 1)]"

definition trfs_link_op :: cstruct where
  "trfs_link_op =
     [(F_r_id, C_uint), (F_r_size, C_ushort), (F_r_type, C_char), (F_pid, C_uint),
      (F_ret, C_int), (F_plen, C_ushort), (F_hlen, C_ushort), (F_pathname, C_char_arr 1)]"

definition trfs_symlink_op :: cstruct where
  "trfs_symlink_op =
     [(F_r_id, C_uint), (F_r_size, C_ushort), (F_r_type, C_char), (F_pid, C_uint),
      (F_ret, C_int), (F_plen, C_ushort), (F_slen, C_ushort), (F_pathname, C_char_arr 1)]"

definition trfs_trunct_op :: cstruct where
  "trfs_trunct_op =
     [(F_r_id, C_uint), (F_r_size, C_ushort), (F_r_type, C_char), (F_pid, C_uint),
      (F_ret, C_int), (F_len, C_ushort), (F_pathname, C_char_arr 1)]"

definition trfs_mknod_op :: cstruct where
  "trfs_mknod_op =
     [(F_r_id, C_uint), (F_r_size, C_ushort), (F_r_type, C_char), (F_pid, C_uint),
      (F_ret, C_int), (F_len, C_ushort), (F_pathname, C_char_arr 1)]"

definition trfs_setxattr_op :: cstruct where
  "trfs_setxattr_op =
     [(F_r_id, C_uint), (F_r_size, C_ushort), (F_r_type, C_uint8), (F_pid, C_uint),
      (F_addr, C_uint64), (F_ret, C_int), (F_len, C_ushort), (F_pathname, C_char_arr 1)]"

definition trfs_getxattr_op :: cstruct where
  "trfs_getxattr_op =
     [(F_r_id, C_uint), (F_r_size, C_ushort), (F_r_type, C_uint8), (F_pid, C_uint),
      (F_addr, C_uint64), (F_ret, C_int), (F_len, C_ushort), (F_pathname, C_char_arr 1)]"

definition trfs_listxattr_op :: cstruct where
  "trfs_listxattr_op =
     [(F_r_id, C_uint), (F_r_size, C_ushort), (F_r_type, C_uint8), (F_pid, C_uint),
      (F_addr, C_uint64), (F_ret, C_int), (F_len, C_ushort), (F_pathname, C_char_arr 1)]"

definition trfs_removexattr_op :: cstruct where
  "trfs_removexattr_op =
     [(F_r_id, C_uint), (F_r_size, C_ushort), (F_r_type, C_uint8), (F_pid, C_uint),
      (F_addr, C_uint64), (F_ret, C_int), (F_len, C_ushort), (F_pathname, C_char_arr 1)]"

subsection \<open>The records as the replayer reads them\<close>

text \<open>\<^verbatim>\<open>src/Userland/structs.h\<close>; the prefix \<open>u_\<close> marks the user-space declaration.\<close>

definition u_trfs_open_op :: cstruct where
  "u_trfs_open_op =
     [(F_r_id, C_uint), (F_r_size, C_ushort), (F_r_type, C_char), (F_flags, C_int),
      (F_mode, C_mode), (F_pid, C_uint), (F_addr, C_uint64), (F_ret, C_int),
      (F_len, C_ushort), (F_pathname, C_char_arr 1)]"

definition u_trfs_read_op :: cstruct where
  "u_trfs_read_op =
     [(F_r_id, C_uint), (F_r_size, C_ushort), (F_r_type, C_char), (F_pid, C_uint),
      (F_addr, C_uint64), (F_count, C_size), (F_ppos, C_int), (F_ret, C_int),
      (F_len, C_ushort), (F_pathname, C_char_arr 1)]"

definition u_trfs_write_op :: cstruct where
  "u_trfs_write_op =
     [(F_r_id, C_uint), (F_r_size, C_ushort), (F_r_type, C_char), (F_pid, C_uint),
      (F_addr, C_uint64), (F_count, C_size), (F_ppos, C_int), (F_ret, C_int),
      (F_len, C_ushort), (F_pathname, C_char_arr 1)]"

definition u_trfs_close_op :: cstruct where
  "u_trfs_close_op =
     [(F_r_id, C_uint), (F_r_size, C_ushort), (F_r_type, C_char), (F_pid, C_uint),
      (F_addr, C_uint64), (F_ret, C_int), (F_len, C_ushort), (F_pathname, C_char_arr 1)]"

definition u_trfs_mkdir_op :: cstruct where
  "u_trfs_mkdir_op =
     [(F_r_id, C_uint), (F_r_size, C_ushort), (F_r_type, C_char), (F_pid, C_uint),
      (F_mode, C_int), (F_ret, C_int), (F_len, C_ushort), (F_pathname, C_char_arr 1)]"

definition u_trfs_rmdir_op :: cstruct where
  "u_trfs_rmdir_op =
     [(F_r_id, C_uint), (F_r_size, C_ushort), (F_r_type, C_char), (F_pid, C_uint),
      (F_ret, C_int), (F_len, C_ushort), (F_pathname, C_char_arr 1)]"

definition u_trfs_unlink_op :: cstruct where
  "u_trfs_unlink_op =
     [(F_r_id, C_uint), (F_r_size, C_ushort), (F_r_type, C_char), (F_pid, C_uint),
      (F_ret, C_int), (F_len, C_ushort), (F_pathname, C_char_arr 1)]"

definition u_trfs_rename_op :: cstruct where
  "u_trfs_rename_op =
     [(F_r_id, C_uint), (F_r_size, C_ushort), (F_r_type, C_char), (F_pid, C_uint),
      (F_ret, C_int), (F_len1, C_ushort), (F_len2, C_ushort),
      (F_pathname1, C_char_arr 1), (F_pathname2, C_char_arr 1)]"

definition u_trfs_link_op :: cstruct where
  "u_trfs_link_op =
     [(F_r_id, C_uint), (F_r_size, C_ushort), (F_r_type, C_char), (F_pid, C_uint),
      (F_ret, C_int), (F_plen, C_ushort), (F_hlen, C_ushort), (F_pathname, C_char_arr 1)]"

definition u_trfs_symlink_op :: cstruct where
  "u_trfs_symlink_op =
     [(F_r_id, C_uint), (F_r_size, C_ushort), (F_r_type, C_char), (F_pid, C_uint),
      (F_ret, C_int), (F_plen, C_ushort), (F_slen, C_ushort), (F_pathname, C_char_arr 1)]"

definition u_trfs_trunct_op :: cstruct where
  "u_trfs_trunct_op =
     [(F_r_id, C_uint), (F_r_size, C_ushort), (F_r_type, C_char), (F_pid, C_uint),
      (F_ret, C_int), (F_len, C_ushort), (F_pathname, C_char_arr 1)]"

definition u_trfs_mknod_op :: cstruct where
  "u_trfs_mknod_op =
     [(F_r_id, C_uint), (F_r_size, C_ushort), (F_r_type, C_char), (F_pid, C_uint),
      (F_ret, C_int), (F_len, C_ushort), (F_pathname, C_char_arr 1)]"

definition u_trfs_setxattr_op :: cstruct where
  "u_trfs_setxattr_op =
     [(F_r_id, C_uint), (F_r_size, C_ushort), (F_r_type, C_uint8), (F_pid, C_uint),
      (F_addr, C_uint64), (F_ret, C_int), (F_len, C_ushort), (F_pathname, C_char_arr 1)]"

definition u_trfs_getxattr_op :: cstruct where
  "u_trfs_getxattr_op =
     [(F_r_id, C_uint), (F_r_size, C_ushort), (F_r_type, C_uint8), (F_pid, C_uint),
      (F_addr, C_uint64), (F_ret, C_int), (F_len, C_ushort), (F_pathname, C_char_arr 1)]"

definition u_trfs_listxattr_op :: cstruct where
  "u_trfs_listxattr_op =
     [(F_r_id, C_uint), (F_r_size, C_ushort), (F_r_type, C_uint8), (F_pid, C_uint),
      (F_addr, C_uint64), (F_ret, C_int), (F_len, C_ushort), (F_pathname, C_char_arr 1)]"

definition u_trfs_removexattr_op :: cstruct where
  "u_trfs_removexattr_op =
     [(F_r_id, C_uint), (F_r_size, C_ushort), (F_r_type, C_uint8), (F_pid, C_uint),
      (F_addr, C_uint64), (F_ret, C_int), (F_len, C_ushort), (F_pathname, C_char_arr 1)]"

section \<open>Lemmas\<close>

lemmas kernel_structs =
  trfs_open_op_def trfs_read_op_def trfs_write_op_def trfs_close_op_def
  trfs_mkdir_op_def trfs_rmdir_op_def trfs_unlink_op_def trfs_rename_op_def
  trfs_link_op_def trfs_symlink_op_def trfs_trunct_op_def trfs_mknod_op_def
  trfs_setxattr_op_def trfs_getxattr_op_def trfs_listxattr_op_def
  trfs_removexattr_op_def

lemmas user_structs =
  u_trfs_open_op_def u_trfs_read_op_def u_trfs_write_op_def u_trfs_close_op_def
  u_trfs_mkdir_op_def u_trfs_rmdir_op_def u_trfs_unlink_op_def u_trfs_rename_op_def
  u_trfs_link_op_def u_trfs_symlink_op_def u_trfs_trunct_op_def u_trfs_mknod_op_def
  u_trfs_setxattr_op_def u_trfs_getxattr_op_def u_trfs_listxattr_op_def
  u_trfs_removexattr_op_def

lemmas layout_defs = offsetof_def sizeof_def fieldsize_def align_up_def

subsection \<open>The layout algorithm\<close>

lemma calign_pos [simp]: "0 < calign t"
  by (cases t) auto

lemma align_up_ge: "0 < a \<Longrightarrow> n \<le> align_up a n"
proof -
  assume a: "0 < a"
  have "(n + a - 1) div a * a + (n + a - 1) mod a = n + a - 1" by simp
  moreover have "(n + a - 1) mod a < a" using a by simp
  ultimately show ?thesis using a unfolding align_up_def by linarith
qed

lemma align_up_dvd [simp]: "a dvd align_up a n"
  by (simp add: align_up_def)

lemma offsets_ge: "(f, off) \<in> set (offsets pos S) \<Longrightarrow> pos \<le> off"
proof (induction pos S rule: offsets.induct)
  case (1 pos)
  then show ?case by simp
next
  case (2 pos g t fs)
  have "pos \<le> align_up (calign t) pos" by (simp add: align_up_ge)
  with "2.prems" "2.IH" [OF refl] show ?case by (fastforce simp: Let_def)
qed

lemma end_of_ge: "pos \<le> end_of pos S"
proof (induction pos S rule: end_of.induct)
  case (1 pos)
  then show ?case by simp
next
  case (2 pos g t fs)
  have "pos \<le> align_up (calign t) pos" by (simp add: align_up_ge)
  with "2.IH" show ?case by simp
qed

text \<open>Every field is aligned and ends before the structure does; fields come in order.\<close>

lemma offsets_nth:
  assumes "i < length S"
  shows "length (offsets pos S) = length S \<and>
    fst (offsets pos S ! i) = fst (S ! i) \<and>
    calign (snd (S ! i)) dvd snd (offsets pos S ! i) \<and>
    snd (offsets pos S ! i) + csize (snd (S ! i)) \<le> end_of pos S"
  using assms
proof (induction pos S arbitrary: i rule: offsets.induct)
  case (1 pos)
  then show ?case by simp
next
  case (2 pos g t fs)
  have len: "length (offsets p fs) = length fs" for p
    by (induction p fs rule: offsets.induct) (simp_all add: Let_def)
  show ?case
  proof (cases i)
    case 0
    then show ?thesis by (simp add: Let_def len end_of_ge)
  next
    case (Suc j)
    with "2.prems" "2.IH" [OF refl, of j] show ?thesis by (simp add: Let_def len)
  qed
qed

lemma offsets_ordered:
  "i < j \<Longrightarrow> j < length S \<Longrightarrow>
   snd (offsets pos S ! i) + csize (snd (S ! i)) \<le> snd (offsets pos S ! j)"
proof (induction pos S arbitrary: i j rule: offsets.induct)
  case (1 pos)
  then show ?case by simp
next
  case (2 pos g t fs)
  from "2.prems" obtain j' where j: "j = Suc j'" "j' < length fs" by (cases j) auto
  show ?case
  proof (cases i)
    case 0
    let ?p = "align_up (calign t) pos + csize t"
    have "offsets ?p fs ! j' \<in> set (offsets ?p fs)"
      using j(2) offsets_nth [of j' fs ?p] by simp
    then have "?p \<le> snd (offsets ?p fs ! j')"
      using offsets_ge [of "fst (offsets ?p fs ! j')" "snd (offsets ?p fs ! j')"] by simp
    with 0 j show ?thesis by (simp add: Let_def)
  next
    case (Suc i')
    with "2.prems" j "2.IH" [OF refl, of i' j'] show ?thesis by (simp add: Let_def)
  qed
qed

lemma end_of_le_sizeof: "end_of 0 S \<le> sizeof S"
proof -
  have "0 < struct_align S" by (induction S rule: struct_align.induct) auto
  then show ?thesis by (simp add: sizeof_def align_up_ge)
qed

subsection \<open>The layout of each record\<close>

text \<open>The computed offsets and sizes, as simplification rules.\<close>

lemma trfs_open_op_offsets:
  "offsets 0 trfs_open_op =
     [(F_r_id, 0), (F_r_size, 4), (F_r_type, 6), (F_flags, 8), (F_mode, 12),
      (F_pid, 16), (F_addr, 24), (F_ret, 32), (F_len, 36), (F_pathname, 38)]"
  by code_simp

lemma trfs_open_op_layout [simp]:
  "sizeof trfs_open_op = 40"
  "offsetof trfs_open_op F_r_id = 0"
  "offsetof trfs_open_op F_r_size = 4"
  "offsetof trfs_open_op F_r_type = 6"
  "offsetof trfs_open_op F_flags = 8"
  "offsetof trfs_open_op F_mode = 12"
  "offsetof trfs_open_op F_pid = 16"
  "offsetof trfs_open_op F_addr = 24"
  "offsetof trfs_open_op F_ret = 32"
  "offsetof trfs_open_op F_len = 36"
  "offsetof trfs_open_op F_pathname = 38"
  by (code_simp, simp_all add: offsetof_def trfs_open_op_offsets)

lemma trfs_read_op_offsets:
  "offsets 0 trfs_read_op =
     [(F_r_id, 0), (F_r_size, 4), (F_r_type, 6), (F_pid, 8), (F_addr, 16),
      (F_count, 24), (F_ppos, 32), (F_ret, 36), (F_len, 40), (F_pathname, 42)]"
  by code_simp

lemma trfs_read_op_layout [simp]:
  "sizeof trfs_read_op = 48"
  "offsetof trfs_read_op F_r_id = 0"
  "offsetof trfs_read_op F_r_size = 4"
  "offsetof trfs_read_op F_r_type = 6"
  "offsetof trfs_read_op F_pid = 8"
  "offsetof trfs_read_op F_addr = 16"
  "offsetof trfs_read_op F_count = 24"
  "offsetof trfs_read_op F_ppos = 32"
  "offsetof trfs_read_op F_ret = 36"
  "offsetof trfs_read_op F_len = 40"
  "offsetof trfs_read_op F_pathname = 42"
  by (code_simp, simp_all add: offsetof_def trfs_read_op_offsets)

lemma trfs_write_op_offsets:
  "offsets 0 trfs_write_op =
     [(F_r_id, 0), (F_r_size, 4), (F_r_type, 6), (F_pid, 8), (F_addr, 16),
      (F_count, 24), (F_ppos, 32), (F_ret, 36), (F_len, 40), (F_pathname, 42)]"
  by code_simp

lemma trfs_write_op_layout [simp]:
  "sizeof trfs_write_op = 48"
  "offsetof trfs_write_op F_r_id = 0"
  "offsetof trfs_write_op F_r_size = 4"
  "offsetof trfs_write_op F_r_type = 6"
  "offsetof trfs_write_op F_pid = 8"
  "offsetof trfs_write_op F_addr = 16"
  "offsetof trfs_write_op F_count = 24"
  "offsetof trfs_write_op F_ppos = 32"
  "offsetof trfs_write_op F_ret = 36"
  "offsetof trfs_write_op F_len = 40"
  "offsetof trfs_write_op F_pathname = 42"
  by (code_simp, simp_all add: offsetof_def trfs_write_op_offsets)

lemma trfs_close_op_offsets:
  "offsets 0 trfs_close_op =
     [(F_r_id, 0), (F_r_size, 4), (F_r_type, 6), (F_pid, 8), (F_addr, 16), (F_ret, 24),
      (F_len, 28), (F_pathname, 30)]"
  by code_simp

lemma trfs_close_op_layout [simp]:
  "sizeof trfs_close_op = 32"
  "offsetof trfs_close_op F_r_id = 0"
  "offsetof trfs_close_op F_r_size = 4"
  "offsetof trfs_close_op F_r_type = 6"
  "offsetof trfs_close_op F_pid = 8"
  "offsetof trfs_close_op F_addr = 16"
  "offsetof trfs_close_op F_ret = 24"
  "offsetof trfs_close_op F_len = 28"
  "offsetof trfs_close_op F_pathname = 30"
  by (code_simp, simp_all add: offsetof_def trfs_close_op_offsets)

lemma trfs_mkdir_op_offsets:
  "offsets 0 trfs_mkdir_op =
     [(F_r_id, 0), (F_r_size, 4), (F_r_type, 6), (F_pid, 8), (F_mode, 12), (F_ret, 16),
      (F_len, 20), (F_pathname, 22)]"
  by code_simp

lemma trfs_mkdir_op_layout [simp]:
  "sizeof trfs_mkdir_op = 24"
  "offsetof trfs_mkdir_op F_r_id = 0"
  "offsetof trfs_mkdir_op F_r_size = 4"
  "offsetof trfs_mkdir_op F_r_type = 6"
  "offsetof trfs_mkdir_op F_pid = 8"
  "offsetof trfs_mkdir_op F_mode = 12"
  "offsetof trfs_mkdir_op F_ret = 16"
  "offsetof trfs_mkdir_op F_len = 20"
  "offsetof trfs_mkdir_op F_pathname = 22"
  by (code_simp, simp_all add: offsetof_def trfs_mkdir_op_offsets)

lemma trfs_rmdir_op_offsets:
  "offsets 0 trfs_rmdir_op =
     [(F_r_id, 0), (F_r_size, 4), (F_r_type, 6), (F_pid, 8), (F_ret, 12), (F_len, 16),
      (F_pathname, 18)]"
  by code_simp

lemma trfs_rmdir_op_layout [simp]:
  "sizeof trfs_rmdir_op = 20"
  "offsetof trfs_rmdir_op F_r_id = 0"
  "offsetof trfs_rmdir_op F_r_size = 4"
  "offsetof trfs_rmdir_op F_r_type = 6"
  "offsetof trfs_rmdir_op F_pid = 8"
  "offsetof trfs_rmdir_op F_ret = 12"
  "offsetof trfs_rmdir_op F_len = 16"
  "offsetof trfs_rmdir_op F_pathname = 18"
  by (code_simp, simp_all add: offsetof_def trfs_rmdir_op_offsets)

lemma trfs_unlink_op_offsets:
  "offsets 0 trfs_unlink_op =
     [(F_r_id, 0), (F_r_size, 4), (F_r_type, 6), (F_pid, 8), (F_ret, 12), (F_len, 16),
      (F_pathname, 18)]"
  by code_simp

lemma trfs_unlink_op_layout [simp]:
  "sizeof trfs_unlink_op = 20"
  "offsetof trfs_unlink_op F_r_id = 0"
  "offsetof trfs_unlink_op F_r_size = 4"
  "offsetof trfs_unlink_op F_r_type = 6"
  "offsetof trfs_unlink_op F_pid = 8"
  "offsetof trfs_unlink_op F_ret = 12"
  "offsetof trfs_unlink_op F_len = 16"
  "offsetof trfs_unlink_op F_pathname = 18"
  by (code_simp, simp_all add: offsetof_def trfs_unlink_op_offsets)

lemma trfs_rename_op_offsets:
  "offsets 0 trfs_rename_op =
     [(F_r_id, 0), (F_r_size, 4), (F_r_type, 6), (F_pid, 8), (F_ret, 12), (F_len1, 16),
      (F_len2, 18), (F_pathname1, 20), (F_pathname2, 21)]"
  by code_simp

lemma trfs_rename_op_layout [simp]:
  "sizeof trfs_rename_op = 24"
  "offsetof trfs_rename_op F_r_id = 0"
  "offsetof trfs_rename_op F_r_size = 4"
  "offsetof trfs_rename_op F_r_type = 6"
  "offsetof trfs_rename_op F_pid = 8"
  "offsetof trfs_rename_op F_ret = 12"
  "offsetof trfs_rename_op F_len1 = 16"
  "offsetof trfs_rename_op F_len2 = 18"
  "offsetof trfs_rename_op F_pathname1 = 20"
  "offsetof trfs_rename_op F_pathname2 = 21"
  by (code_simp, simp_all add: offsetof_def trfs_rename_op_offsets)

lemma trfs_link_op_offsets:
  "offsets 0 trfs_link_op =
     [(F_r_id, 0), (F_r_size, 4), (F_r_type, 6), (F_pid, 8), (F_ret, 12), (F_plen, 16),
      (F_hlen, 18), (F_pathname, 20)]"
  by code_simp

lemma trfs_link_op_layout [simp]:
  "sizeof trfs_link_op = 24"
  "offsetof trfs_link_op F_r_id = 0"
  "offsetof trfs_link_op F_r_size = 4"
  "offsetof trfs_link_op F_r_type = 6"
  "offsetof trfs_link_op F_pid = 8"
  "offsetof trfs_link_op F_ret = 12"
  "offsetof trfs_link_op F_plen = 16"
  "offsetof trfs_link_op F_hlen = 18"
  "offsetof trfs_link_op F_pathname = 20"
  by (code_simp, simp_all add: offsetof_def trfs_link_op_offsets)

lemma trfs_symlink_op_offsets:
  "offsets 0 trfs_symlink_op =
     [(F_r_id, 0), (F_r_size, 4), (F_r_type, 6), (F_pid, 8), (F_ret, 12), (F_plen, 16),
      (F_slen, 18), (F_pathname, 20)]"
  by code_simp

lemma trfs_symlink_op_layout [simp]:
  "sizeof trfs_symlink_op = 24"
  "offsetof trfs_symlink_op F_r_id = 0"
  "offsetof trfs_symlink_op F_r_size = 4"
  "offsetof trfs_symlink_op F_r_type = 6"
  "offsetof trfs_symlink_op F_pid = 8"
  "offsetof trfs_symlink_op F_ret = 12"
  "offsetof trfs_symlink_op F_plen = 16"
  "offsetof trfs_symlink_op F_slen = 18"
  "offsetof trfs_symlink_op F_pathname = 20"
  by (code_simp, simp_all add: offsetof_def trfs_symlink_op_offsets)

lemma trfs_trunct_op_offsets:
  "offsets 0 trfs_trunct_op =
     [(F_r_id, 0), (F_r_size, 4), (F_r_type, 6), (F_pid, 8), (F_ret, 12), (F_len, 16),
      (F_pathname, 18)]"
  by code_simp

lemma trfs_trunct_op_layout [simp]:
  "sizeof trfs_trunct_op = 20"
  "offsetof trfs_trunct_op F_r_id = 0"
  "offsetof trfs_trunct_op F_r_size = 4"
  "offsetof trfs_trunct_op F_r_type = 6"
  "offsetof trfs_trunct_op F_pid = 8"
  "offsetof trfs_trunct_op F_ret = 12"
  "offsetof trfs_trunct_op F_len = 16"
  "offsetof trfs_trunct_op F_pathname = 18"
  by (code_simp, simp_all add: offsetof_def trfs_trunct_op_offsets)

lemma trfs_mknod_op_offsets:
  "offsets 0 trfs_mknod_op =
     [(F_r_id, 0), (F_r_size, 4), (F_r_type, 6), (F_pid, 8), (F_ret, 12), (F_len, 16),
      (F_pathname, 18)]"
  by code_simp

lemma trfs_mknod_op_layout [simp]:
  "sizeof trfs_mknod_op = 20"
  "offsetof trfs_mknod_op F_r_id = 0"
  "offsetof trfs_mknod_op F_r_size = 4"
  "offsetof trfs_mknod_op F_r_type = 6"
  "offsetof trfs_mknod_op F_pid = 8"
  "offsetof trfs_mknod_op F_ret = 12"
  "offsetof trfs_mknod_op F_len = 16"
  "offsetof trfs_mknod_op F_pathname = 18"
  by (code_simp, simp_all add: offsetof_def trfs_mknod_op_offsets)

lemma trfs_setxattr_op_offsets:
  "offsets 0 trfs_setxattr_op =
     [(F_r_id, 0), (F_r_size, 4), (F_r_type, 6), (F_pid, 8), (F_addr, 16), (F_ret, 24),
      (F_len, 28), (F_pathname, 30)]"
  by code_simp

lemma trfs_setxattr_op_layout [simp]:
  "sizeof trfs_setxattr_op = 32"
  "offsetof trfs_setxattr_op F_r_id = 0"
  "offsetof trfs_setxattr_op F_r_size = 4"
  "offsetof trfs_setxattr_op F_r_type = 6"
  "offsetof trfs_setxattr_op F_pid = 8"
  "offsetof trfs_setxattr_op F_addr = 16"
  "offsetof trfs_setxattr_op F_ret = 24"
  "offsetof trfs_setxattr_op F_len = 28"
  "offsetof trfs_setxattr_op F_pathname = 30"
  by (code_simp, simp_all add: offsetof_def trfs_setxattr_op_offsets)

lemma trfs_getxattr_op_offsets:
  "offsets 0 trfs_getxattr_op =
     [(F_r_id, 0), (F_r_size, 4), (F_r_type, 6), (F_pid, 8), (F_addr, 16), (F_ret, 24),
      (F_len, 28), (F_pathname, 30)]"
  by code_simp

lemma trfs_getxattr_op_layout [simp]:
  "sizeof trfs_getxattr_op = 32"
  "offsetof trfs_getxattr_op F_r_id = 0"
  "offsetof trfs_getxattr_op F_r_size = 4"
  "offsetof trfs_getxattr_op F_r_type = 6"
  "offsetof trfs_getxattr_op F_pid = 8"
  "offsetof trfs_getxattr_op F_addr = 16"
  "offsetof trfs_getxattr_op F_ret = 24"
  "offsetof trfs_getxattr_op F_len = 28"
  "offsetof trfs_getxattr_op F_pathname = 30"
  by (code_simp, simp_all add: offsetof_def trfs_getxattr_op_offsets)

lemma trfs_listxattr_op_offsets:
  "offsets 0 trfs_listxattr_op =
     [(F_r_id, 0), (F_r_size, 4), (F_r_type, 6), (F_pid, 8), (F_addr, 16), (F_ret, 24),
      (F_len, 28), (F_pathname, 30)]"
  by code_simp

lemma trfs_listxattr_op_layout [simp]:
  "sizeof trfs_listxattr_op = 32"
  "offsetof trfs_listxattr_op F_r_id = 0"
  "offsetof trfs_listxattr_op F_r_size = 4"
  "offsetof trfs_listxattr_op F_r_type = 6"
  "offsetof trfs_listxattr_op F_pid = 8"
  "offsetof trfs_listxattr_op F_addr = 16"
  "offsetof trfs_listxattr_op F_ret = 24"
  "offsetof trfs_listxattr_op F_len = 28"
  "offsetof trfs_listxattr_op F_pathname = 30"
  by (code_simp, simp_all add: offsetof_def trfs_listxattr_op_offsets)

lemma trfs_removexattr_op_offsets:
  "offsets 0 trfs_removexattr_op =
     [(F_r_id, 0), (F_r_size, 4), (F_r_type, 6), (F_pid, 8), (F_addr, 16), (F_ret, 24),
      (F_len, 28), (F_pathname, 30)]"
  by code_simp

lemma trfs_removexattr_op_layout [simp]:
  "sizeof trfs_removexattr_op = 32"
  "offsetof trfs_removexattr_op F_r_id = 0"
  "offsetof trfs_removexattr_op F_r_size = 4"
  "offsetof trfs_removexattr_op F_r_type = 6"
  "offsetof trfs_removexattr_op F_pid = 8"
  "offsetof trfs_removexattr_op F_addr = 16"
  "offsetof trfs_removexattr_op F_ret = 24"
  "offsetof trfs_removexattr_op F_len = 28"
  "offsetof trfs_removexattr_op F_pathname = 30"
  by (code_simp, simp_all add: offsetof_def trfs_removexattr_op_offsets)

lemma u_trfs_open_op_offsets:
  "offsets 0 u_trfs_open_op =
     [(F_r_id, 0), (F_r_size, 4), (F_r_type, 6), (F_flags, 8), (F_mode, 12),
      (F_pid, 16), (F_addr, 24), (F_ret, 32), (F_len, 36), (F_pathname, 38)]"
  by code_simp

lemma u_trfs_open_op_layout [simp]:
  "sizeof u_trfs_open_op = 40"
  "offsetof u_trfs_open_op F_r_id = 0"
  "offsetof u_trfs_open_op F_r_size = 4"
  "offsetof u_trfs_open_op F_r_type = 6"
  "offsetof u_trfs_open_op F_flags = 8"
  "offsetof u_trfs_open_op F_mode = 12"
  "offsetof u_trfs_open_op F_pid = 16"
  "offsetof u_trfs_open_op F_addr = 24"
  "offsetof u_trfs_open_op F_ret = 32"
  "offsetof u_trfs_open_op F_len = 36"
  "offsetof u_trfs_open_op F_pathname = 38"
  by (code_simp, simp_all add: offsetof_def u_trfs_open_op_offsets)

lemma u_trfs_read_op_offsets:
  "offsets 0 u_trfs_read_op =
     [(F_r_id, 0), (F_r_size, 4), (F_r_type, 6), (F_pid, 8), (F_addr, 16),
      (F_count, 24), (F_ppos, 32), (F_ret, 36), (F_len, 40), (F_pathname, 42)]"
  by code_simp

lemma u_trfs_read_op_layout [simp]:
  "sizeof u_trfs_read_op = 48"
  "offsetof u_trfs_read_op F_r_id = 0"
  "offsetof u_trfs_read_op F_r_size = 4"
  "offsetof u_trfs_read_op F_r_type = 6"
  "offsetof u_trfs_read_op F_pid = 8"
  "offsetof u_trfs_read_op F_addr = 16"
  "offsetof u_trfs_read_op F_count = 24"
  "offsetof u_trfs_read_op F_ppos = 32"
  "offsetof u_trfs_read_op F_ret = 36"
  "offsetof u_trfs_read_op F_len = 40"
  "offsetof u_trfs_read_op F_pathname = 42"
  by (code_simp, simp_all add: offsetof_def u_trfs_read_op_offsets)

lemma u_trfs_write_op_offsets:
  "offsets 0 u_trfs_write_op =
     [(F_r_id, 0), (F_r_size, 4), (F_r_type, 6), (F_pid, 8), (F_addr, 16),
      (F_count, 24), (F_ppos, 32), (F_ret, 36), (F_len, 40), (F_pathname, 42)]"
  by code_simp

lemma u_trfs_write_op_layout [simp]:
  "sizeof u_trfs_write_op = 48"
  "offsetof u_trfs_write_op F_r_id = 0"
  "offsetof u_trfs_write_op F_r_size = 4"
  "offsetof u_trfs_write_op F_r_type = 6"
  "offsetof u_trfs_write_op F_pid = 8"
  "offsetof u_trfs_write_op F_addr = 16"
  "offsetof u_trfs_write_op F_count = 24"
  "offsetof u_trfs_write_op F_ppos = 32"
  "offsetof u_trfs_write_op F_ret = 36"
  "offsetof u_trfs_write_op F_len = 40"
  "offsetof u_trfs_write_op F_pathname = 42"
  by (code_simp, simp_all add: offsetof_def u_trfs_write_op_offsets)

lemma u_trfs_close_op_offsets:
  "offsets 0 u_trfs_close_op =
     [(F_r_id, 0), (F_r_size, 4), (F_r_type, 6), (F_pid, 8), (F_addr, 16), (F_ret, 24),
      (F_len, 28), (F_pathname, 30)]"
  by code_simp

lemma u_trfs_close_op_layout [simp]:
  "sizeof u_trfs_close_op = 32"
  "offsetof u_trfs_close_op F_r_id = 0"
  "offsetof u_trfs_close_op F_r_size = 4"
  "offsetof u_trfs_close_op F_r_type = 6"
  "offsetof u_trfs_close_op F_pid = 8"
  "offsetof u_trfs_close_op F_addr = 16"
  "offsetof u_trfs_close_op F_ret = 24"
  "offsetof u_trfs_close_op F_len = 28"
  "offsetof u_trfs_close_op F_pathname = 30"
  by (code_simp, simp_all add: offsetof_def u_trfs_close_op_offsets)

lemma u_trfs_mkdir_op_offsets:
  "offsets 0 u_trfs_mkdir_op =
     [(F_r_id, 0), (F_r_size, 4), (F_r_type, 6), (F_pid, 8), (F_mode, 12), (F_ret, 16),
      (F_len, 20), (F_pathname, 22)]"
  by code_simp

lemma u_trfs_mkdir_op_layout [simp]:
  "sizeof u_trfs_mkdir_op = 24"
  "offsetof u_trfs_mkdir_op F_r_id = 0"
  "offsetof u_trfs_mkdir_op F_r_size = 4"
  "offsetof u_trfs_mkdir_op F_r_type = 6"
  "offsetof u_trfs_mkdir_op F_pid = 8"
  "offsetof u_trfs_mkdir_op F_mode = 12"
  "offsetof u_trfs_mkdir_op F_ret = 16"
  "offsetof u_trfs_mkdir_op F_len = 20"
  "offsetof u_trfs_mkdir_op F_pathname = 22"
  by (code_simp, simp_all add: offsetof_def u_trfs_mkdir_op_offsets)

lemma u_trfs_rmdir_op_offsets:
  "offsets 0 u_trfs_rmdir_op =
     [(F_r_id, 0), (F_r_size, 4), (F_r_type, 6), (F_pid, 8), (F_ret, 12), (F_len, 16),
      (F_pathname, 18)]"
  by code_simp

lemma u_trfs_rmdir_op_layout [simp]:
  "sizeof u_trfs_rmdir_op = 20"
  "offsetof u_trfs_rmdir_op F_r_id = 0"
  "offsetof u_trfs_rmdir_op F_r_size = 4"
  "offsetof u_trfs_rmdir_op F_r_type = 6"
  "offsetof u_trfs_rmdir_op F_pid = 8"
  "offsetof u_trfs_rmdir_op F_ret = 12"
  "offsetof u_trfs_rmdir_op F_len = 16"
  "offsetof u_trfs_rmdir_op F_pathname = 18"
  by (code_simp, simp_all add: offsetof_def u_trfs_rmdir_op_offsets)

lemma u_trfs_unlink_op_offsets:
  "offsets 0 u_trfs_unlink_op =
     [(F_r_id, 0), (F_r_size, 4), (F_r_type, 6), (F_pid, 8), (F_ret, 12), (F_len, 16),
      (F_pathname, 18)]"
  by code_simp

lemma u_trfs_unlink_op_layout [simp]:
  "sizeof u_trfs_unlink_op = 20"
  "offsetof u_trfs_unlink_op F_r_id = 0"
  "offsetof u_trfs_unlink_op F_r_size = 4"
  "offsetof u_trfs_unlink_op F_r_type = 6"
  "offsetof u_trfs_unlink_op F_pid = 8"
  "offsetof u_trfs_unlink_op F_ret = 12"
  "offsetof u_trfs_unlink_op F_len = 16"
  "offsetof u_trfs_unlink_op F_pathname = 18"
  by (code_simp, simp_all add: offsetof_def u_trfs_unlink_op_offsets)

lemma u_trfs_rename_op_offsets:
  "offsets 0 u_trfs_rename_op =
     [(F_r_id, 0), (F_r_size, 4), (F_r_type, 6), (F_pid, 8), (F_ret, 12), (F_len1, 16),
      (F_len2, 18), (F_pathname1, 20), (F_pathname2, 21)]"
  by code_simp

lemma u_trfs_rename_op_layout [simp]:
  "sizeof u_trfs_rename_op = 24"
  "offsetof u_trfs_rename_op F_r_id = 0"
  "offsetof u_trfs_rename_op F_r_size = 4"
  "offsetof u_trfs_rename_op F_r_type = 6"
  "offsetof u_trfs_rename_op F_pid = 8"
  "offsetof u_trfs_rename_op F_ret = 12"
  "offsetof u_trfs_rename_op F_len1 = 16"
  "offsetof u_trfs_rename_op F_len2 = 18"
  "offsetof u_trfs_rename_op F_pathname1 = 20"
  "offsetof u_trfs_rename_op F_pathname2 = 21"
  by (code_simp, simp_all add: offsetof_def u_trfs_rename_op_offsets)

lemma u_trfs_link_op_offsets:
  "offsets 0 u_trfs_link_op =
     [(F_r_id, 0), (F_r_size, 4), (F_r_type, 6), (F_pid, 8), (F_ret, 12), (F_plen, 16),
      (F_hlen, 18), (F_pathname, 20)]"
  by code_simp

lemma u_trfs_link_op_layout [simp]:
  "sizeof u_trfs_link_op = 24"
  "offsetof u_trfs_link_op F_r_id = 0"
  "offsetof u_trfs_link_op F_r_size = 4"
  "offsetof u_trfs_link_op F_r_type = 6"
  "offsetof u_trfs_link_op F_pid = 8"
  "offsetof u_trfs_link_op F_ret = 12"
  "offsetof u_trfs_link_op F_plen = 16"
  "offsetof u_trfs_link_op F_hlen = 18"
  "offsetof u_trfs_link_op F_pathname = 20"
  by (code_simp, simp_all add: offsetof_def u_trfs_link_op_offsets)

lemma u_trfs_symlink_op_offsets:
  "offsets 0 u_trfs_symlink_op =
     [(F_r_id, 0), (F_r_size, 4), (F_r_type, 6), (F_pid, 8), (F_ret, 12), (F_plen, 16),
      (F_slen, 18), (F_pathname, 20)]"
  by code_simp

lemma u_trfs_symlink_op_layout [simp]:
  "sizeof u_trfs_symlink_op = 24"
  "offsetof u_trfs_symlink_op F_r_id = 0"
  "offsetof u_trfs_symlink_op F_r_size = 4"
  "offsetof u_trfs_symlink_op F_r_type = 6"
  "offsetof u_trfs_symlink_op F_pid = 8"
  "offsetof u_trfs_symlink_op F_ret = 12"
  "offsetof u_trfs_symlink_op F_plen = 16"
  "offsetof u_trfs_symlink_op F_slen = 18"
  "offsetof u_trfs_symlink_op F_pathname = 20"
  by (code_simp, simp_all add: offsetof_def u_trfs_symlink_op_offsets)

lemma u_trfs_trunct_op_offsets:
  "offsets 0 u_trfs_trunct_op =
     [(F_r_id, 0), (F_r_size, 4), (F_r_type, 6), (F_pid, 8), (F_ret, 12), (F_len, 16),
      (F_pathname, 18)]"
  by code_simp

lemma u_trfs_trunct_op_layout [simp]:
  "sizeof u_trfs_trunct_op = 20"
  "offsetof u_trfs_trunct_op F_r_id = 0"
  "offsetof u_trfs_trunct_op F_r_size = 4"
  "offsetof u_trfs_trunct_op F_r_type = 6"
  "offsetof u_trfs_trunct_op F_pid = 8"
  "offsetof u_trfs_trunct_op F_ret = 12"
  "offsetof u_trfs_trunct_op F_len = 16"
  "offsetof u_trfs_trunct_op F_pathname = 18"
  by (code_simp, simp_all add: offsetof_def u_trfs_trunct_op_offsets)

lemma u_trfs_mknod_op_offsets:
  "offsets 0 u_trfs_mknod_op =
     [(F_r_id, 0), (F_r_size, 4), (F_r_type, 6), (F_pid, 8), (F_ret, 12), (F_len, 16),
      (F_pathname, 18)]"
  by code_simp

lemma u_trfs_mknod_op_layout [simp]:
  "sizeof u_trfs_mknod_op = 20"
  "offsetof u_trfs_mknod_op F_r_id = 0"
  "offsetof u_trfs_mknod_op F_r_size = 4"
  "offsetof u_trfs_mknod_op F_r_type = 6"
  "offsetof u_trfs_mknod_op F_pid = 8"
  "offsetof u_trfs_mknod_op F_ret = 12"
  "offsetof u_trfs_mknod_op F_len = 16"
  "offsetof u_trfs_mknod_op F_pathname = 18"
  by (code_simp, simp_all add: offsetof_def u_trfs_mknod_op_offsets)

lemma u_trfs_setxattr_op_offsets:
  "offsets 0 u_trfs_setxattr_op =
     [(F_r_id, 0), (F_r_size, 4), (F_r_type, 6), (F_pid, 8), (F_addr, 16), (F_ret, 24),
      (F_len, 28), (F_pathname, 30)]"
  by code_simp

lemma u_trfs_setxattr_op_layout [simp]:
  "sizeof u_trfs_setxattr_op = 32"
  "offsetof u_trfs_setxattr_op F_r_id = 0"
  "offsetof u_trfs_setxattr_op F_r_size = 4"
  "offsetof u_trfs_setxattr_op F_r_type = 6"
  "offsetof u_trfs_setxattr_op F_pid = 8"
  "offsetof u_trfs_setxattr_op F_addr = 16"
  "offsetof u_trfs_setxattr_op F_ret = 24"
  "offsetof u_trfs_setxattr_op F_len = 28"
  "offsetof u_trfs_setxattr_op F_pathname = 30"
  by (code_simp, simp_all add: offsetof_def u_trfs_setxattr_op_offsets)

lemma u_trfs_getxattr_op_offsets:
  "offsets 0 u_trfs_getxattr_op =
     [(F_r_id, 0), (F_r_size, 4), (F_r_type, 6), (F_pid, 8), (F_addr, 16), (F_ret, 24),
      (F_len, 28), (F_pathname, 30)]"
  by code_simp

lemma u_trfs_getxattr_op_layout [simp]:
  "sizeof u_trfs_getxattr_op = 32"
  "offsetof u_trfs_getxattr_op F_r_id = 0"
  "offsetof u_trfs_getxattr_op F_r_size = 4"
  "offsetof u_trfs_getxattr_op F_r_type = 6"
  "offsetof u_trfs_getxattr_op F_pid = 8"
  "offsetof u_trfs_getxattr_op F_addr = 16"
  "offsetof u_trfs_getxattr_op F_ret = 24"
  "offsetof u_trfs_getxattr_op F_len = 28"
  "offsetof u_trfs_getxattr_op F_pathname = 30"
  by (code_simp, simp_all add: offsetof_def u_trfs_getxattr_op_offsets)

lemma u_trfs_listxattr_op_offsets:
  "offsets 0 u_trfs_listxattr_op =
     [(F_r_id, 0), (F_r_size, 4), (F_r_type, 6), (F_pid, 8), (F_addr, 16), (F_ret, 24),
      (F_len, 28), (F_pathname, 30)]"
  by code_simp

lemma u_trfs_listxattr_op_layout [simp]:
  "sizeof u_trfs_listxattr_op = 32"
  "offsetof u_trfs_listxattr_op F_r_id = 0"
  "offsetof u_trfs_listxattr_op F_r_size = 4"
  "offsetof u_trfs_listxattr_op F_r_type = 6"
  "offsetof u_trfs_listxattr_op F_pid = 8"
  "offsetof u_trfs_listxattr_op F_addr = 16"
  "offsetof u_trfs_listxattr_op F_ret = 24"
  "offsetof u_trfs_listxattr_op F_len = 28"
  "offsetof u_trfs_listxattr_op F_pathname = 30"
  by (code_simp, simp_all add: offsetof_def u_trfs_listxattr_op_offsets)

lemma u_trfs_removexattr_op_offsets:
  "offsets 0 u_trfs_removexattr_op =
     [(F_r_id, 0), (F_r_size, 4), (F_r_type, 6), (F_pid, 8), (F_addr, 16), (F_ret, 24),
      (F_len, 28), (F_pathname, 30)]"
  by code_simp

lemma u_trfs_removexattr_op_layout [simp]:
  "sizeof u_trfs_removexattr_op = 32"
  "offsetof u_trfs_removexattr_op F_r_id = 0"
  "offsetof u_trfs_removexattr_op F_r_size = 4"
  "offsetof u_trfs_removexattr_op F_r_type = 6"
  "offsetof u_trfs_removexattr_op F_pid = 8"
  "offsetof u_trfs_removexattr_op F_addr = 16"
  "offsetof u_trfs_removexattr_op F_ret = 24"
  "offsetof u_trfs_removexattr_op F_len = 28"
  "offsetof u_trfs_removexattr_op F_pathname = 30"
  by (code_simp, simp_all add: offsetof_def u_trfs_removexattr_op_offsets)

subsection \<open>The sizes of the fields\<close>

lemma trfs_open_op_fieldsizes [simp]:
  "fieldsize trfs_open_op F_r_id = 4"
  "fieldsize trfs_open_op F_r_size = 2"
  "fieldsize trfs_open_op F_r_type = 1"
  "fieldsize trfs_open_op F_flags = 4"
  "fieldsize trfs_open_op F_mode = 4"
  "fieldsize trfs_open_op F_pid = 4"
  "fieldsize trfs_open_op F_addr = 8"
  "fieldsize trfs_open_op F_ret = 4"
  "fieldsize trfs_open_op F_len = 2"
  "fieldsize trfs_open_op F_pathname = 1"
  by (simp_all add: fieldsize_def trfs_open_op_def)

lemma trfs_read_op_fieldsizes [simp]:
  "fieldsize trfs_read_op F_r_id = 4"
  "fieldsize trfs_read_op F_r_size = 2"
  "fieldsize trfs_read_op F_r_type = 1"
  "fieldsize trfs_read_op F_pid = 4"
  "fieldsize trfs_read_op F_addr = 8"
  "fieldsize trfs_read_op F_count = 8"
  "fieldsize trfs_read_op F_ppos = 2"
  "fieldsize trfs_read_op F_ret = 4"
  "fieldsize trfs_read_op F_len = 2"
  "fieldsize trfs_read_op F_pathname = 1"
  by (simp_all add: fieldsize_def trfs_read_op_def)

lemma trfs_write_op_fieldsizes [simp]:
  "fieldsize trfs_write_op F_r_id = 4"
  "fieldsize trfs_write_op F_r_size = 2"
  "fieldsize trfs_write_op F_r_type = 1"
  "fieldsize trfs_write_op F_pid = 4"
  "fieldsize trfs_write_op F_addr = 8"
  "fieldsize trfs_write_op F_count = 8"
  "fieldsize trfs_write_op F_ppos = 2"
  "fieldsize trfs_write_op F_ret = 4"
  "fieldsize trfs_write_op F_len = 2"
  "fieldsize trfs_write_op F_pathname = 1"
  by (simp_all add: fieldsize_def trfs_write_op_def)

lemma trfs_close_op_fieldsizes [simp]:
  "fieldsize trfs_close_op F_r_id = 4"
  "fieldsize trfs_close_op F_r_size = 2"
  "fieldsize trfs_close_op F_r_type = 1"
  "fieldsize trfs_close_op F_pid = 4"
  "fieldsize trfs_close_op F_addr = 8"
  "fieldsize trfs_close_op F_ret = 4"
  "fieldsize trfs_close_op F_len = 2"
  "fieldsize trfs_close_op F_pathname = 1"
  by (simp_all add: fieldsize_def trfs_close_op_def)

lemma trfs_mkdir_op_fieldsizes [simp]:
  "fieldsize trfs_mkdir_op F_r_id = 4"
  "fieldsize trfs_mkdir_op F_r_size = 2"
  "fieldsize trfs_mkdir_op F_r_type = 1"
  "fieldsize trfs_mkdir_op F_pid = 4"
  "fieldsize trfs_mkdir_op F_mode = 4"
  "fieldsize trfs_mkdir_op F_ret = 4"
  "fieldsize trfs_mkdir_op F_len = 2"
  "fieldsize trfs_mkdir_op F_pathname = 1"
  by (simp_all add: fieldsize_def trfs_mkdir_op_def)

lemma trfs_rmdir_op_fieldsizes [simp]:
  "fieldsize trfs_rmdir_op F_r_id = 4"
  "fieldsize trfs_rmdir_op F_r_size = 2"
  "fieldsize trfs_rmdir_op F_r_type = 1"
  "fieldsize trfs_rmdir_op F_pid = 4"
  "fieldsize trfs_rmdir_op F_ret = 4"
  "fieldsize trfs_rmdir_op F_len = 2"
  "fieldsize trfs_rmdir_op F_pathname = 1"
  by (simp_all add: fieldsize_def trfs_rmdir_op_def)

lemma trfs_unlink_op_fieldsizes [simp]:
  "fieldsize trfs_unlink_op F_r_id = 4"
  "fieldsize trfs_unlink_op F_r_size = 2"
  "fieldsize trfs_unlink_op F_r_type = 1"
  "fieldsize trfs_unlink_op F_pid = 4"
  "fieldsize trfs_unlink_op F_ret = 4"
  "fieldsize trfs_unlink_op F_len = 2"
  "fieldsize trfs_unlink_op F_pathname = 1"
  by (simp_all add: fieldsize_def trfs_unlink_op_def)

lemma trfs_rename_op_fieldsizes [simp]:
  "fieldsize trfs_rename_op F_r_id = 4"
  "fieldsize trfs_rename_op F_r_size = 2"
  "fieldsize trfs_rename_op F_r_type = 1"
  "fieldsize trfs_rename_op F_pid = 4"
  "fieldsize trfs_rename_op F_ret = 4"
  "fieldsize trfs_rename_op F_len1 = 2"
  "fieldsize trfs_rename_op F_len2 = 2"
  "fieldsize trfs_rename_op F_pathname1 = 1"
  "fieldsize trfs_rename_op F_pathname2 = 1"
  by (simp_all add: fieldsize_def trfs_rename_op_def)

lemma trfs_link_op_fieldsizes [simp]:
  "fieldsize trfs_link_op F_r_id = 4"
  "fieldsize trfs_link_op F_r_size = 2"
  "fieldsize trfs_link_op F_r_type = 1"
  "fieldsize trfs_link_op F_pid = 4"
  "fieldsize trfs_link_op F_ret = 4"
  "fieldsize trfs_link_op F_plen = 2"
  "fieldsize trfs_link_op F_hlen = 2"
  "fieldsize trfs_link_op F_pathname = 1"
  by (simp_all add: fieldsize_def trfs_link_op_def)

lemma trfs_symlink_op_fieldsizes [simp]:
  "fieldsize trfs_symlink_op F_r_id = 4"
  "fieldsize trfs_symlink_op F_r_size = 2"
  "fieldsize trfs_symlink_op F_r_type = 1"
  "fieldsize trfs_symlink_op F_pid = 4"
  "fieldsize trfs_symlink_op F_ret = 4"
  "fieldsize trfs_symlink_op F_plen = 2"
  "fieldsize trfs_symlink_op F_slen = 2"
  "fieldsize trfs_symlink_op F_pathname = 1"
  by (simp_all add: fieldsize_def trfs_symlink_op_def)

lemma trfs_trunct_op_fieldsizes [simp]:
  "fieldsize trfs_trunct_op F_r_id = 4"
  "fieldsize trfs_trunct_op F_r_size = 2"
  "fieldsize trfs_trunct_op F_r_type = 1"
  "fieldsize trfs_trunct_op F_pid = 4"
  "fieldsize trfs_trunct_op F_ret = 4"
  "fieldsize trfs_trunct_op F_len = 2"
  "fieldsize trfs_trunct_op F_pathname = 1"
  by (simp_all add: fieldsize_def trfs_trunct_op_def)

lemma trfs_mknod_op_fieldsizes [simp]:
  "fieldsize trfs_mknod_op F_r_id = 4"
  "fieldsize trfs_mknod_op F_r_size = 2"
  "fieldsize trfs_mknod_op F_r_type = 1"
  "fieldsize trfs_mknod_op F_pid = 4"
  "fieldsize trfs_mknod_op F_ret = 4"
  "fieldsize trfs_mknod_op F_len = 2"
  "fieldsize trfs_mknod_op F_pathname = 1"
  by (simp_all add: fieldsize_def trfs_mknod_op_def)

lemma trfs_setxattr_op_fieldsizes [simp]:
  "fieldsize trfs_setxattr_op F_r_id = 4"
  "fieldsize trfs_setxattr_op F_r_size = 2"
  "fieldsize trfs_setxattr_op F_r_type = 1"
  "fieldsize trfs_setxattr_op F_pid = 4"
  "fieldsize trfs_setxattr_op F_addr = 8"
  "fieldsize trfs_setxattr_op F_ret = 4"
  "fieldsize trfs_setxattr_op F_len = 2"
  "fieldsize trfs_setxattr_op F_pathname = 1"
  by (simp_all add: fieldsize_def trfs_setxattr_op_def)

lemma trfs_getxattr_op_fieldsizes [simp]:
  "fieldsize trfs_getxattr_op F_r_id = 4"
  "fieldsize trfs_getxattr_op F_r_size = 2"
  "fieldsize trfs_getxattr_op F_r_type = 1"
  "fieldsize trfs_getxattr_op F_pid = 4"
  "fieldsize trfs_getxattr_op F_addr = 8"
  "fieldsize trfs_getxattr_op F_ret = 4"
  "fieldsize trfs_getxattr_op F_len = 2"
  "fieldsize trfs_getxattr_op F_pathname = 1"
  by (simp_all add: fieldsize_def trfs_getxattr_op_def)

lemma trfs_listxattr_op_fieldsizes [simp]:
  "fieldsize trfs_listxattr_op F_r_id = 4"
  "fieldsize trfs_listxattr_op F_r_size = 2"
  "fieldsize trfs_listxattr_op F_r_type = 1"
  "fieldsize trfs_listxattr_op F_pid = 4"
  "fieldsize trfs_listxattr_op F_addr = 8"
  "fieldsize trfs_listxattr_op F_ret = 4"
  "fieldsize trfs_listxattr_op F_len = 2"
  "fieldsize trfs_listxattr_op F_pathname = 1"
  by (simp_all add: fieldsize_def trfs_listxattr_op_def)

lemma trfs_removexattr_op_fieldsizes [simp]:
  "fieldsize trfs_removexattr_op F_r_id = 4"
  "fieldsize trfs_removexattr_op F_r_size = 2"
  "fieldsize trfs_removexattr_op F_r_type = 1"
  "fieldsize trfs_removexattr_op F_pid = 4"
  "fieldsize trfs_removexattr_op F_addr = 8"
  "fieldsize trfs_removexattr_op F_ret = 4"
  "fieldsize trfs_removexattr_op F_len = 2"
  "fieldsize trfs_removexattr_op F_pathname = 1"
  by (simp_all add: fieldsize_def trfs_removexattr_op_def)

lemma u_trfs_open_op_fieldsizes [simp]:
  "fieldsize u_trfs_open_op F_r_id = 4"
  "fieldsize u_trfs_open_op F_r_size = 2"
  "fieldsize u_trfs_open_op F_r_type = 1"
  "fieldsize u_trfs_open_op F_flags = 4"
  "fieldsize u_trfs_open_op F_mode = 4"
  "fieldsize u_trfs_open_op F_pid = 4"
  "fieldsize u_trfs_open_op F_addr = 8"
  "fieldsize u_trfs_open_op F_ret = 4"
  "fieldsize u_trfs_open_op F_len = 2"
  "fieldsize u_trfs_open_op F_pathname = 1"
  by (simp_all add: fieldsize_def u_trfs_open_op_def)

lemma u_trfs_read_op_fieldsizes [simp]:
  "fieldsize u_trfs_read_op F_r_id = 4"
  "fieldsize u_trfs_read_op F_r_size = 2"
  "fieldsize u_trfs_read_op F_r_type = 1"
  "fieldsize u_trfs_read_op F_pid = 4"
  "fieldsize u_trfs_read_op F_addr = 8"
  "fieldsize u_trfs_read_op F_count = 8"
  "fieldsize u_trfs_read_op F_ppos = 4"
  "fieldsize u_trfs_read_op F_ret = 4"
  "fieldsize u_trfs_read_op F_len = 2"
  "fieldsize u_trfs_read_op F_pathname = 1"
  by (simp_all add: fieldsize_def u_trfs_read_op_def)

lemma u_trfs_write_op_fieldsizes [simp]:
  "fieldsize u_trfs_write_op F_r_id = 4"
  "fieldsize u_trfs_write_op F_r_size = 2"
  "fieldsize u_trfs_write_op F_r_type = 1"
  "fieldsize u_trfs_write_op F_pid = 4"
  "fieldsize u_trfs_write_op F_addr = 8"
  "fieldsize u_trfs_write_op F_count = 8"
  "fieldsize u_trfs_write_op F_ppos = 4"
  "fieldsize u_trfs_write_op F_ret = 4"
  "fieldsize u_trfs_write_op F_len = 2"
  "fieldsize u_trfs_write_op F_pathname = 1"
  by (simp_all add: fieldsize_def u_trfs_write_op_def)

lemma u_trfs_close_op_fieldsizes [simp]:
  "fieldsize u_trfs_close_op F_r_id = 4"
  "fieldsize u_trfs_close_op F_r_size = 2"
  "fieldsize u_trfs_close_op F_r_type = 1"
  "fieldsize u_trfs_close_op F_pid = 4"
  "fieldsize u_trfs_close_op F_addr = 8"
  "fieldsize u_trfs_close_op F_ret = 4"
  "fieldsize u_trfs_close_op F_len = 2"
  "fieldsize u_trfs_close_op F_pathname = 1"
  by (simp_all add: fieldsize_def u_trfs_close_op_def)

lemma u_trfs_mkdir_op_fieldsizes [simp]:
  "fieldsize u_trfs_mkdir_op F_r_id = 4"
  "fieldsize u_trfs_mkdir_op F_r_size = 2"
  "fieldsize u_trfs_mkdir_op F_r_type = 1"
  "fieldsize u_trfs_mkdir_op F_pid = 4"
  "fieldsize u_trfs_mkdir_op F_mode = 4"
  "fieldsize u_trfs_mkdir_op F_ret = 4"
  "fieldsize u_trfs_mkdir_op F_len = 2"
  "fieldsize u_trfs_mkdir_op F_pathname = 1"
  by (simp_all add: fieldsize_def u_trfs_mkdir_op_def)

lemma u_trfs_rmdir_op_fieldsizes [simp]:
  "fieldsize u_trfs_rmdir_op F_r_id = 4"
  "fieldsize u_trfs_rmdir_op F_r_size = 2"
  "fieldsize u_trfs_rmdir_op F_r_type = 1"
  "fieldsize u_trfs_rmdir_op F_pid = 4"
  "fieldsize u_trfs_rmdir_op F_ret = 4"
  "fieldsize u_trfs_rmdir_op F_len = 2"
  "fieldsize u_trfs_rmdir_op F_pathname = 1"
  by (simp_all add: fieldsize_def u_trfs_rmdir_op_def)

lemma u_trfs_unlink_op_fieldsizes [simp]:
  "fieldsize u_trfs_unlink_op F_r_id = 4"
  "fieldsize u_trfs_unlink_op F_r_size = 2"
  "fieldsize u_trfs_unlink_op F_r_type = 1"
  "fieldsize u_trfs_unlink_op F_pid = 4"
  "fieldsize u_trfs_unlink_op F_ret = 4"
  "fieldsize u_trfs_unlink_op F_len = 2"
  "fieldsize u_trfs_unlink_op F_pathname = 1"
  by (simp_all add: fieldsize_def u_trfs_unlink_op_def)

lemma u_trfs_rename_op_fieldsizes [simp]:
  "fieldsize u_trfs_rename_op F_r_id = 4"
  "fieldsize u_trfs_rename_op F_r_size = 2"
  "fieldsize u_trfs_rename_op F_r_type = 1"
  "fieldsize u_trfs_rename_op F_pid = 4"
  "fieldsize u_trfs_rename_op F_ret = 4"
  "fieldsize u_trfs_rename_op F_len1 = 2"
  "fieldsize u_trfs_rename_op F_len2 = 2"
  "fieldsize u_trfs_rename_op F_pathname1 = 1"
  "fieldsize u_trfs_rename_op F_pathname2 = 1"
  by (simp_all add: fieldsize_def u_trfs_rename_op_def)

lemma u_trfs_link_op_fieldsizes [simp]:
  "fieldsize u_trfs_link_op F_r_id = 4"
  "fieldsize u_trfs_link_op F_r_size = 2"
  "fieldsize u_trfs_link_op F_r_type = 1"
  "fieldsize u_trfs_link_op F_pid = 4"
  "fieldsize u_trfs_link_op F_ret = 4"
  "fieldsize u_trfs_link_op F_plen = 2"
  "fieldsize u_trfs_link_op F_hlen = 2"
  "fieldsize u_trfs_link_op F_pathname = 1"
  by (simp_all add: fieldsize_def u_trfs_link_op_def)

lemma u_trfs_symlink_op_fieldsizes [simp]:
  "fieldsize u_trfs_symlink_op F_r_id = 4"
  "fieldsize u_trfs_symlink_op F_r_size = 2"
  "fieldsize u_trfs_symlink_op F_r_type = 1"
  "fieldsize u_trfs_symlink_op F_pid = 4"
  "fieldsize u_trfs_symlink_op F_ret = 4"
  "fieldsize u_trfs_symlink_op F_plen = 2"
  "fieldsize u_trfs_symlink_op F_slen = 2"
  "fieldsize u_trfs_symlink_op F_pathname = 1"
  by (simp_all add: fieldsize_def u_trfs_symlink_op_def)

lemma u_trfs_trunct_op_fieldsizes [simp]:
  "fieldsize u_trfs_trunct_op F_r_id = 4"
  "fieldsize u_trfs_trunct_op F_r_size = 2"
  "fieldsize u_trfs_trunct_op F_r_type = 1"
  "fieldsize u_trfs_trunct_op F_pid = 4"
  "fieldsize u_trfs_trunct_op F_ret = 4"
  "fieldsize u_trfs_trunct_op F_len = 2"
  "fieldsize u_trfs_trunct_op F_pathname = 1"
  by (simp_all add: fieldsize_def u_trfs_trunct_op_def)

lemma u_trfs_mknod_op_fieldsizes [simp]:
  "fieldsize u_trfs_mknod_op F_r_id = 4"
  "fieldsize u_trfs_mknod_op F_r_size = 2"
  "fieldsize u_trfs_mknod_op F_r_type = 1"
  "fieldsize u_trfs_mknod_op F_pid = 4"
  "fieldsize u_trfs_mknod_op F_ret = 4"
  "fieldsize u_trfs_mknod_op F_len = 2"
  "fieldsize u_trfs_mknod_op F_pathname = 1"
  by (simp_all add: fieldsize_def u_trfs_mknod_op_def)

lemma u_trfs_setxattr_op_fieldsizes [simp]:
  "fieldsize u_trfs_setxattr_op F_r_id = 4"
  "fieldsize u_trfs_setxattr_op F_r_size = 2"
  "fieldsize u_trfs_setxattr_op F_r_type = 1"
  "fieldsize u_trfs_setxattr_op F_pid = 4"
  "fieldsize u_trfs_setxattr_op F_addr = 8"
  "fieldsize u_trfs_setxattr_op F_ret = 4"
  "fieldsize u_trfs_setxattr_op F_len = 2"
  "fieldsize u_trfs_setxattr_op F_pathname = 1"
  by (simp_all add: fieldsize_def u_trfs_setxattr_op_def)

lemma u_trfs_getxattr_op_fieldsizes [simp]:
  "fieldsize u_trfs_getxattr_op F_r_id = 4"
  "fieldsize u_trfs_getxattr_op F_r_size = 2"
  "fieldsize u_trfs_getxattr_op F_r_type = 1"
  "fieldsize u_trfs_getxattr_op F_pid = 4"
  "fieldsize u_trfs_getxattr_op F_addr = 8"
  "fieldsize u_trfs_getxattr_op F_ret = 4"
  "fieldsize u_trfs_getxattr_op F_len = 2"
  "fieldsize u_trfs_getxattr_op F_pathname = 1"
  by (simp_all add: fieldsize_def u_trfs_getxattr_op_def)

lemma u_trfs_listxattr_op_fieldsizes [simp]:
  "fieldsize u_trfs_listxattr_op F_r_id = 4"
  "fieldsize u_trfs_listxattr_op F_r_size = 2"
  "fieldsize u_trfs_listxattr_op F_r_type = 1"
  "fieldsize u_trfs_listxattr_op F_pid = 4"
  "fieldsize u_trfs_listxattr_op F_addr = 8"
  "fieldsize u_trfs_listxattr_op F_ret = 4"
  "fieldsize u_trfs_listxattr_op F_len = 2"
  "fieldsize u_trfs_listxattr_op F_pathname = 1"
  by (simp_all add: fieldsize_def u_trfs_listxattr_op_def)

lemma u_trfs_removexattr_op_fieldsizes [simp]:
  "fieldsize u_trfs_removexattr_op F_r_id = 4"
  "fieldsize u_trfs_removexattr_op F_r_size = 2"
  "fieldsize u_trfs_removexattr_op F_r_type = 1"
  "fieldsize u_trfs_removexattr_op F_pid = 4"
  "fieldsize u_trfs_removexattr_op F_addr = 8"
  "fieldsize u_trfs_removexattr_op F_ret = 4"
  "fieldsize u_trfs_removexattr_op F_len = 2"
  "fieldsize u_trfs_removexattr_op F_pathname = 1"
  by (simp_all add: fieldsize_def u_trfs_removexattr_op_def)

subsection \<open>The record header\<close>

text \<open>
  The replayer finds the size and the type of a record at fixed positions, before it knows
  which structure it reads: \<^verbatim>\<open>buf+sizeof(int)\<close> and
  \<^verbatim>\<open>rec[sizeof(int)+sizeof(unsigned short)]\<close> in \<^verbatim>\<open>src/Userland/treplay.c\<close>. The
  interface \<open>trace_record\<close> states what that relies on. \<open>headed n ty rec\<close> says that the
  block \<open>rec\<close> shows size \<open>n\<close> and type \<open>ty\<close> there.
\<close>

definition headed :: "nat \<Rightarrow> nat \<Rightarrow> bytes \<Rightarrow> bool" where
  "headed n ty rec \<longleftrightarrow>
     length rec = n \<and> load 4 2 rec = Some (le_enc 2 n) \<and> load 6 1 rec = Some (le_enc 1 ty)"

locale trace_record =
  fixes S :: cstruct
  assumes id_first: "offsetof S F_r_id = 0"
    and size_second: "offsetof S F_r_size = 4"
    and type_third: "offsetof S F_r_type = 6"
    and holds_header: "8 \<le> sizeof S"
begin

lemma headed_stores:
  assumes "stores ss blk = Some rec"
    and "final_at (offsetof S F_r_size) 2 ss = Some (le_enc 2 (length blk))"
    and "final_at (offsetof S F_r_type) 1 ss = Some (le_enc 1 ty)"
  shows "headed (length blk) ty rec"
  using assms stores_length [OF assms(1)]
  by (auto simp: headed_def size_second type_third dest: load_stores_final)

lemma id_stores:
  assumes "stores ss blk = Some rec" and "final_at (offsetof S F_r_id) 4 ss = Some v"
  shows "load 0 4 rec = Some v"
  using assms by (auto simp: id_first dest: load_stores_final)

end

interpretation open_rec: trace_record trfs_open_op
  by unfold_locales simp_all

interpretation read_rec: trace_record trfs_read_op
  by unfold_locales simp_all

interpretation write_rec: trace_record trfs_write_op
  by unfold_locales simp_all

interpretation close_rec: trace_record trfs_close_op
  by unfold_locales simp_all

interpretation mkdir_rec: trace_record trfs_mkdir_op
  by unfold_locales simp_all

interpretation rmdir_rec: trace_record trfs_rmdir_op
  by unfold_locales simp_all

interpretation unlink_rec: trace_record trfs_unlink_op
  by unfold_locales simp_all

interpretation rename_rec: trace_record trfs_rename_op
  by unfold_locales simp_all

interpretation link_rec: trace_record trfs_link_op
  by unfold_locales simp_all

interpretation symlink_rec: trace_record trfs_symlink_op
  by unfold_locales simp_all

interpretation trunct_rec: trace_record trfs_trunct_op
  by unfold_locales simp_all

interpretation mknod_rec: trace_record trfs_mknod_op
  by unfold_locales simp_all

interpretation setxattr_rec: trace_record trfs_setxattr_op
  by unfold_locales simp_all

interpretation getxattr_rec: trace_record trfs_getxattr_op
  by unfold_locales simp_all

interpretation listxattr_rec: trace_record trfs_listxattr_op
  by unfold_locales simp_all

interpretation removexattr_rec: trace_record trfs_removexattr_op
  by unfold_locales simp_all

section \<open>Properties\<close>

text \<open>The records and their two declarations.\<close>

definition record_pairs :: "(cstruct \<times> cstruct) list" where
  "record_pairs =
     [(trfs_open_op, u_trfs_open_op),
      (trfs_read_op, u_trfs_read_op),
      (trfs_write_op, u_trfs_write_op),
      (trfs_close_op, u_trfs_close_op),
      (trfs_mkdir_op, u_trfs_mkdir_op),
      (trfs_rmdir_op, u_trfs_rmdir_op),
      (trfs_unlink_op, u_trfs_unlink_op),
      (trfs_rename_op, u_trfs_rename_op),
      (trfs_link_op, u_trfs_link_op),
      (trfs_symlink_op, u_trfs_symlink_op),
      (trfs_trunct_op, u_trfs_trunct_op),
      (trfs_mknod_op, u_trfs_mknod_op),
      (trfs_setxattr_op, u_trfs_setxattr_op),
      (trfs_getxattr_op, u_trfs_getxattr_op),
      (trfs_listxattr_op, u_trfs_listxattr_op),
      (trfs_removexattr_op, u_trfs_removexattr_op)]"

text \<open>C14: The kernel's and the replayer's declarations of all sixteen records put every field at the
  same offset and have the same size, although they disagree about the type of \<open>ppos\<close>; and every
  record starts with the number, the size and the type where the replayer looks for them.\<close>

theorem record_layouts_agree:
  "list_all (\<lambda>(k, u). offsets 0 k = offsets 0 u \<and> sizeof k = sizeof u \<and>
     offsetof u F_r_id = 0 \<and> offsetof u F_r_size = 4 \<and> fieldsize u F_r_size = 2 \<and>
     offsetof u F_r_type = 6 \<and> fieldsize u F_r_type = 1) record_pairs"
  unfolding record_pairs_def
  by (simp add: trfs_open_op_offsets u_trfs_open_op_offsets trfs_read_op_offsets u_trfs_read_op_offsets
      trfs_write_op_offsets u_trfs_write_op_offsets trfs_close_op_offsets
      u_trfs_close_op_offsets trfs_mkdir_op_offsets u_trfs_mkdir_op_offsets
      trfs_rmdir_op_offsets u_trfs_rmdir_op_offsets trfs_unlink_op_offsets
      u_trfs_unlink_op_offsets trfs_rename_op_offsets u_trfs_rename_op_offsets
      trfs_link_op_offsets u_trfs_link_op_offsets trfs_symlink_op_offsets
      u_trfs_symlink_op_offsets trfs_trunct_op_offsets u_trfs_trunct_op_offsets
      trfs_mknod_op_offsets u_trfs_mknod_op_offsets trfs_setxattr_op_offsets
      u_trfs_setxattr_op_offsets trfs_getxattr_op_offsets u_trfs_getxattr_op_offsets
      trfs_listxattr_op_offsets u_trfs_listxattr_op_offsets trfs_removexattr_op_offsets
      u_trfs_removexattr_op_offsets)

text \<open>The layout computed for any list of fields is a layout: every field is aligned and inside
  the structure, and fields do not overlap, in the order of their declaration.\<close>

lemma layout_is_sound:
  "list_all (\<lambda>((f, off), (g, t)). f = g \<and> calign t dvd off \<and> off + csize t \<le> sizeof S)
     (zip (offsets 0 S) S) \<and>
   sorted_wrt (\<lambda>((_, off), (_, t)) ((_, off'), _). off + csize t \<le> off') (zip (offsets 0 S) S)"
proof
  have len: "length (offsets 0 S) = length S"
    by (cases S) (use offsets_nth [of 0 S 0] in auto)
  show "list_all (\<lambda>((f, off), (g, t)). f = g \<and> calign t dvd off \<and> off + csize t \<le> sizeof S)
      (zip (offsets 0 S) S)"
    unfolding list_all_length using len offsets_nth [of _ S 0] end_of_le_sizeof [of S]
    by (fastforce simp: split_beta)
  show "sorted_wrt (\<lambda>((_, off), (_, t)) ((_, off'), _). off + csize t \<le> off') (zip (offsets 0 S) S)"
    unfolding sorted_wrt_iff_nth_less using len offsets_ordered [of _ _ S 0]
    by (simp add: split_beta)
qed

end
