(* ===== verification/Log_Ops.thy ===== *)
theory Log_Ops
  imports Log_Write Structs
begin

section \<open>The trace operations (trfs/trfs_ops.c, trfs/trfs_ops.h)\<close>

text \<open>
  The record that \<^verbatim>\<open>trfs_ops.c\<close> builds for each file-system operation, and the log driver
  with its bitmap of enabled operations. Every operation of the table \<open>log_ops\<close> is one
  definition: the test of the bitmap, the size it asks \<open>kmalloc\<close> for, the assignments to the
  fields in the order of the source, and the hand-over to the queue. An assignment is a write of
  bytes at the offset of the field (theory \<open>Structs\<close>), so a write behind the end of the block
  is a memory fault (\<open>None\<close>) and what is not written keeps the bytes the allocator left there.

  The lemmas reduce every operation to one shape (\<open>log_ops_shape\<close>), show for which calls all
  writes stay inside the block (\<open>call_fits\<close>), that the record carries the header the replayer
  looks for and the arguments of the call, and that a traced call appends exactly its record to
  the trace.
\<close>

subsection \<open>Operation numbers\<close>

abbreviation (input) TRFS_OP_LINK :: nat where "TRFS_OP_LINK \<equiv> 3"
abbreviation (input) TRFS_OP_UNLINK :: nat where "TRFS_OP_UNLINK \<equiv> 4"
abbreviation (input) TRFS_OP_SYMLINK :: nat where "TRFS_OP_SYMLINK \<equiv> 5"
abbreviation (input) TRFS_OP_MKDIR :: nat where "TRFS_OP_MKDIR \<equiv> 6"
abbreviation (input) TRFS_OP_RMDIR :: nat where "TRFS_OP_RMDIR \<equiv> 7"
abbreviation (input) TRFS_OP_MKNOD :: nat where "TRFS_OP_MKNOD \<equiv> 8"
abbreviation (input) TRFS_OP_TRUNCATE :: nat where "TRFS_OP_TRUNCATE \<equiv> 9"
abbreviation (input) TRFS_OP_RENAME :: nat where "TRFS_OP_RENAME \<equiv> 10"
abbreviation (input) TRFS_OP_SETXATTR :: nat where "TRFS_OP_SETXATTR \<equiv> 14"
abbreviation (input) TRFS_OP_GETXATTR :: nat where "TRFS_OP_GETXATTR \<equiv> 15"
abbreviation (input) TRFS_OP_LISTXATTR :: nat where "TRFS_OP_LISTXATTR \<equiv> 16"
abbreviation (input) TRFS_OP_REMOVEXATTR :: nat where "TRFS_OP_REMOVEXATTR \<equiv> 17"
abbreviation (input) TRFS_OP_READ :: nat where "TRFS_OP_READ \<equiv> 20"
abbreviation (input) TRFS_OP_WRITE :: nat where "TRFS_OP_WRITE \<equiv> 21"
abbreviation (input) TRFS_OP_OPEN :: nat where "TRFS_OP_OPEN \<equiv> 23"
abbreviation (input) TRFS_OP_CLOSE :: nat where "TRFS_OP_CLOSE \<equiv> 24"

subsection \<open>What the operations are told\<close>

text \<open>
  A \<open>struct qstr\<close>: the characters before the terminating zero, and the recorded length. A
  \<open>struct file\<close> as the trace operations use it: its address, the name of its dentry, its
  flags and mode.
\<close>

record qstr =
  qname :: bytes
  qlen :: nat

record trfile =
  fl_addr :: nat
  fl_name :: qstr
  fl_flags :: u32
  fl_mode :: u32

record trfs_log_driver =
  drv_pid :: int
  bitmap :: u32

subsection \<open>Building a record\<close>

definition test_bit_set :: "u32 \<Rightarrow> nat \<Rightarrow> int" where
  "test_bit_set a n = sint (and (push_bit n 1) a)"

text \<open>An assignment to a field, \<open>strcpy\<close> to an address, \<open>memcpy\<close> from a string.\<close>

definition setf :: "cstruct \<Rightarrow> field \<Rightarrow> int \<Rightarrow> nat \<times> bytes" where
  "setf S f v = (offsetof S f, le_int (fieldsize S f) v)"

definition strcpy :: "nat \<Rightarrow> bytes \<Rightarrow> nat \<times> bytes" where
  "strcpy off s = (off, cstr s @ [0])"

definition memcpy_str :: "nat \<Rightarrow> bytes \<Rightarrow> nat \<Rightarrow> (nat \<times> bytes) option" where
  "memcpy_str off s n = (case load 0 n (s @ [0]) of None \<Rightarrow> None | Some d \<Rightarrow> Some (off, d))"

text \<open>The value of an \<open>unsigned short\<close> field after an \<open>int\<close> was stored in it.\<close>

definition ushort :: "int \<Rightarrow> nat" where
  "ushort x = nat (x mod 2 ^ 16)"

text \<open>
  The common part of all operations: allocate \<open>sz\<close> bytes; when that succeeds, draw the
  record number and run the writes \<open>fill\<close> (\<open>None\<close> when a source is read out of bounds);
  hand the block over, a null pointer included.
\<close>

definition log_record ::
  "allocator \<Rightarrow> int \<Rightarrow> (u32 \<Rightarrow> (nat \<times> bytes) list option) \<Rightarrow> klog \<Rightarrow> klog option" where
  "log_record km sz fill st =
     (let (op, h) = kmalloc km (size_t sz) (heap st); st = st\<lparr>heap := h\<rparr> in
      if op \<noteq> NULL then
        (let (rid, st) = get_next_record_id st in
         case fill rid of
           None \<Rightarrow> None
         | Some ss \<Rightarrow>
             (case stores ss (block_of (heap st) op) of
                None \<Rightarrow> None
              | Some rec \<Rightarrow>
                  TRFS_WRITE op sz
                    (st\<lparr>heap := (heap st)\<lparr>blocks := (blocks (heap st))(op \<mapsto> rec)\<rparr>\<rparr>)))
      else TRFS_WRITE NULL sz st)"

subsection \<open>The operations\<close>

definition trfs_log_mkdir_op ::
  "allocator \<Rightarrow> int \<Rightarrow> trfs_log_driver \<Rightarrow> qstr \<Rightarrow> int \<Rightarrow> int \<Rightarrow> klog \<Rightarrow> klog option" where
  "trfs_log_mkdir_op km pid this dentry mode ret st =
     (if test_bit_set (bitmap this) TRFS_OP_MKDIR = 0 then Some st
      else
        let path_len = int32 (int (qlen dentry));
            size = int32 (int (sizeof trfs_mkdir_op) + path_len)
        in log_record km size (\<lambda>rid.
             Some
               [setf trfs_mkdir_op F_r_id (uint rid),
                setf trfs_mkdir_op F_r_type (int TRFS_OP_MKDIR),
                setf trfs_mkdir_op F_r_size size,
                setf trfs_mkdir_op F_mode mode,
                setf trfs_mkdir_op F_len path_len,
                setf trfs_mkdir_op F_ret ret,
                strcpy (offsetof trfs_mkdir_op F_pathname) (qname dentry)])
             st)"

definition trfs_log_rmdir_op ::
  "allocator \<Rightarrow> int \<Rightarrow> trfs_log_driver \<Rightarrow> qstr \<Rightarrow> int \<Rightarrow> klog \<Rightarrow> klog option" where
  "trfs_log_rmdir_op km pid this dentry ret st =
     (if test_bit_set (bitmap this) TRFS_OP_RMDIR = 0 then Some st
      else
        let path_len = int32 (int (qlen dentry));
            size = int32 (int (sizeof trfs_rmdir_op) + path_len)
        in log_record km size (\<lambda>rid.
             Some
               [setf trfs_rmdir_op F_r_id (uint rid),
                setf trfs_rmdir_op F_r_type (int TRFS_OP_RMDIR),
                setf trfs_rmdir_op F_r_size size,
                setf trfs_rmdir_op F_len path_len,
                setf trfs_rmdir_op F_ret ret,
                strcpy (offsetof trfs_rmdir_op F_pathname) (qname dentry)])
             st)"

definition trfs_log_unlink_op ::
  "allocator \<Rightarrow> int \<Rightarrow> trfs_log_driver \<Rightarrow> qstr \<Rightarrow> int \<Rightarrow> klog \<Rightarrow> klog option" where
  "trfs_log_unlink_op km pid this dentry ret st =
     (if test_bit_set (bitmap this) TRFS_OP_UNLINK = 0 then Some st
      else
        let path_len = int32 (int (qlen dentry));
            size = int32 (int (sizeof trfs_unlink_op) + path_len)
        in log_record km size (\<lambda>rid.
             Some
               [setf trfs_unlink_op F_r_id (uint rid),
                setf trfs_unlink_op F_r_type (int TRFS_OP_UNLINK),
                setf trfs_unlink_op F_r_size size,
                setf trfs_unlink_op F_len path_len,
                setf trfs_unlink_op F_ret ret,
                strcpy (offsetof trfs_unlink_op F_pathname) (qname dentry)])
             st)"

text \<open>Both lengths are the length of the old name.\<close>

definition trfs_log_link_op ::
  "allocator \<Rightarrow> int \<Rightarrow> trfs_log_driver \<Rightarrow> qstr \<Rightarrow> qstr \<Rightarrow> int \<Rightarrow> klog \<Rightarrow> klog option" where
  "trfs_log_link_op km pid this old_dentry new_dentry ret st =
     (if test_bit_set (bitmap this) TRFS_OP_LINK = 0 then Some st
      else
        let path_len1 = int32 (int (qlen old_dentry));
            path_len2 = int32 (int (qlen old_dentry));
            size = int32 (int (sizeof trfs_link_op) + path_len1 + path_len2)
        in log_record km size (\<lambda>rid.
             Some
               [setf trfs_link_op F_r_id (uint rid),
                setf trfs_link_op F_r_type (int TRFS_OP_LINK),
                setf trfs_link_op F_r_size size,
                setf trfs_link_op F_plen path_len1,
                setf trfs_link_op F_hlen path_len2,
                setf trfs_link_op F_ret ret,
                strcpy (offsetof trfs_link_op F_pathname) (qname old_dentry),
                strcpy (nat (int (offsetof trfs_link_op F_pathname) + path_len1)) (qname new_dentry)])
             st)"

definition trfs_log_symlink_op ::
  "allocator \<Rightarrow> int \<Rightarrow> trfs_log_driver \<Rightarrow> qstr \<Rightarrow> bytes \<Rightarrow> int \<Rightarrow> klog \<Rightarrow> klog option" where
  "trfs_log_symlink_op km pid this dentry sname ret st =
     (if test_bit_set (bitmap this) TRFS_OP_SYMLINK = 0 then Some st
      else
        let path_len = int32 (int (qlen dentry));
            strlen = int (length (cstr sname));
            size = int32 (int (sizeof trfs_symlink_op) + path_len + strlen)
        in log_record km size (\<lambda>rid.
             Some
               [setf trfs_symlink_op F_r_id (uint rid),
                setf trfs_symlink_op F_r_type (int TRFS_OP_SYMLINK),
                setf trfs_symlink_op F_r_size size,
                setf trfs_symlink_op F_plen path_len,
                setf trfs_symlink_op F_slen strlen,
                setf trfs_symlink_op F_ret ret,
                strcpy (offsetof trfs_symlink_op F_pathname) (qname dentry),
                strcpy (nat (int (offsetof trfs_symlink_op F_pathname) + path_len)) sname])
             st)"

definition trfs_log_rename_op ::
  "allocator \<Rightarrow> int \<Rightarrow> trfs_log_driver \<Rightarrow> qstr \<Rightarrow> qstr \<Rightarrow> int \<Rightarrow> klog \<Rightarrow> klog option" where
  "trfs_log_rename_op km pid this old_dentry new_dentry ret st =
     (if test_bit_set (bitmap this) TRFS_OP_RENAME = 0 then Some st
      else
        let path_len1 = int32 (int (qlen old_dentry));
            path_len2 = int32 (int (qlen new_dentry));
            size = int32 (int (sizeof trfs_rename_op) + path_len1 + path_len2)
        in log_record km size (\<lambda>rid.
             Some
               [setf trfs_rename_op F_r_id (uint rid),
                setf trfs_rename_op F_r_type (int TRFS_OP_RENAME),
                setf trfs_rename_op F_r_size size,
                setf trfs_rename_op F_len1 path_len1,
                setf trfs_rename_op F_len2 path_len2,
                setf trfs_rename_op F_ret ret,
                strcpy (offsetof trfs_rename_op F_pathname1) (qname old_dentry),
                strcpy (nat (int (offsetof trfs_rename_op F_pathname1) + path_len1)) (qname new_dentry)])
             st)"

definition trfs_log_open_op ::
  "allocator \<Rightarrow> int \<Rightarrow> trfs_log_driver \<Rightarrow> trfile \<Rightarrow> int \<Rightarrow> klog \<Rightarrow> klog option" where
  "trfs_log_open_op km pid this file ret st =
     (if test_bit_set (bitmap this) TRFS_OP_OPEN = 0 then Some st
      else
        let path_len = int32 (int (qlen (fl_name file)));
            size = int32 (int (sizeof trfs_open_op) + path_len)
        in log_record km size (\<lambda>rid.
             Some
               [setf trfs_open_op F_r_id (uint rid),
                setf trfs_open_op F_r_type (int TRFS_OP_OPEN),
                setf trfs_open_op F_r_size size,
                setf trfs_open_op F_pid pid,
                setf trfs_open_op F_flags (uint (fl_flags file)),
                setf trfs_open_op F_mode (uint (fl_mode file)),
                setf trfs_open_op F_len path_len,
                setf trfs_open_op F_ret ret,
                setf trfs_open_op F_addr (int (fl_addr file)),
                strcpy (offsetof trfs_open_op F_pathname) (qname (fl_name file))])
             st)"

definition trfs_log_read_op ::
  "allocator \<Rightarrow> int \<Rightarrow> trfs_log_driver \<Rightarrow> trfile \<Rightarrow> nat \<Rightarrow> int \<Rightarrow> int \<Rightarrow> klog \<Rightarrow> klog option" where
  "trfs_log_read_op km pid this file count ppos ret st =
     (if test_bit_set (bitmap this) TRFS_OP_READ = 0 then Some st
      else
        let path_len = int32 (int (qlen (fl_name file)));
            size = int32 (int (sizeof trfs_read_op) + path_len)
        in log_record km size (\<lambda>rid.
             Some
               [setf trfs_read_op F_r_id (uint rid),
                setf trfs_read_op F_r_type (int TRFS_OP_READ),
                setf trfs_read_op F_r_size size,
                setf trfs_read_op F_pid pid,
                setf trfs_read_op F_len path_len,
                setf trfs_read_op F_count (int count),
                setf trfs_read_op F_ppos ppos,
                setf trfs_read_op F_ret ret,
                setf trfs_read_op F_addr (int (fl_addr file)),
                strcpy (offsetof trfs_read_op F_pathname) (qname (fl_name file))])
             st)"

text \<open>The data the caller wrote, \<open>ubuf\<close>, follows the name.\<close>

definition trfs_log_write_op ::
  "allocator \<Rightarrow> int \<Rightarrow> trfs_log_driver \<Rightarrow> trfile \<Rightarrow> bytes \<Rightarrow> nat \<Rightarrow> int \<Rightarrow> int \<Rightarrow> klog \<Rightarrow> klog option" where
  "trfs_log_write_op km pid this file ubuf count ppos ret st =
     (if test_bit_set (bitmap this) TRFS_OP_WRITE = 0 then Some st
      else
        let path_len = int32 (int (qlen (fl_name file)));
            size = int32 (int (sizeof trfs_write_op) + path_len + int count)
        in log_record km size (\<lambda>rid.
             case memcpy_str (offsetof trfs_write_op F_pathname) (qname (fl_name file)) (size_t path_len) of
               None \<Rightarrow> None
             | Some name \<Rightarrow>
                 (case load 0 count ubuf of
                    None \<Rightarrow> None
                  | Some d \<Rightarrow> Some
               [setf trfs_write_op F_r_id (uint rid),
                setf trfs_write_op F_r_type (int TRFS_OP_WRITE),
                setf trfs_write_op F_r_size size,
                setf trfs_write_op F_pid pid,
                setf trfs_write_op F_len path_len,
                setf trfs_write_op F_count (int count),
                setf trfs_write_op F_ppos ppos,
                setf trfs_write_op F_ret ret,
                setf trfs_write_op F_addr (int (fl_addr file)),
                name, (nat (int (offsetof trfs_write_op F_pathname) + path_len), d)]))
             st)"

text \<open>From here on the name is copied without its terminating zero, its length read back from the record.\<close>

definition trfs_log_close_op ::
  "allocator \<Rightarrow> int \<Rightarrow> trfs_log_driver \<Rightarrow> trfile \<Rightarrow> int \<Rightarrow> klog \<Rightarrow> klog option" where
  "trfs_log_close_op km pid this file ret st =
     (if test_bit_set (bitmap this) TRFS_OP_CLOSE = 0 then Some st
      else
        let path_len = int32 (int (qlen (fl_name file)));
            size = int32 (int (sizeof trfs_close_op) + path_len)
        in log_record km size (\<lambda>rid.
             case memcpy_str (offsetof trfs_close_op F_pathname) (qname (fl_name file)) (ushort path_len) of
               None \<Rightarrow> None
             | Some name \<Rightarrow> Some
               [setf trfs_close_op F_r_id (uint rid),
                setf trfs_close_op F_r_type (int TRFS_OP_CLOSE),
                setf trfs_close_op F_r_size size,
                setf trfs_close_op F_pid pid,
                setf trfs_close_op F_len path_len,
                setf trfs_close_op F_ret ret,
                setf trfs_close_op F_addr (int (fl_addr file)),
                name])
             st)"

text \<open>The operation number is that of \<open>close\<close>.\<close>

definition trfs_log_mknod_op ::
  "allocator \<Rightarrow> int \<Rightarrow> trfs_log_driver \<Rightarrow> qstr \<Rightarrow> u32 \<Rightarrow> u32 \<Rightarrow> int \<Rightarrow> klog \<Rightarrow> klog option" where
  "trfs_log_mknod_op km pid this dentry mode dev ret st =
     (if test_bit_set (bitmap this) TRFS_OP_CLOSE = 0 then Some st
      else
        let path_len = int32 (int (qlen dentry));
            size = int32 (int (sizeof trfs_mknod_op) + path_len)
        in log_record km size (\<lambda>rid.
             case memcpy_str (offsetof trfs_mknod_op F_pathname) (qname dentry) (ushort path_len) of
               None \<Rightarrow> None
             | Some name \<Rightarrow> Some
               [setf trfs_mknod_op F_r_id (uint rid),
                setf trfs_mknod_op F_r_type (int TRFS_OP_CLOSE),
                setf trfs_mknod_op F_r_size size,
                setf trfs_mknod_op F_pid pid,
                setf trfs_mknod_op F_len path_len,
                setf trfs_mknod_op F_ret ret,
                name])
             st)"

definition trfs_log_setxattr_op ::
  "allocator \<Rightarrow> int \<Rightarrow> trfs_log_driver \<Rightarrow> qstr \<Rightarrow> bytes \<Rightarrow> bytes \<Rightarrow> nat \<Rightarrow> int \<Rightarrow> int \<Rightarrow> klog \<Rightarrow> klog option" where
  "trfs_log_setxattr_op km pid this dentry xname value size1 flags ret st =
     (if test_bit_set (bitmap this) TRFS_OP_SETXATTR = 0 then Some st
      else
        let path_len = int32 (int (qlen dentry));
            size = int32 (int (sizeof trfs_setxattr_op) + path_len)
        in log_record km size (\<lambda>rid.
             case memcpy_str (offsetof trfs_setxattr_op F_pathname) (qname dentry) (ushort path_len) of
               None \<Rightarrow> None
             | Some name \<Rightarrow> Some
               [setf trfs_setxattr_op F_r_id (uint rid),
                setf trfs_setxattr_op F_r_type (int TRFS_OP_SETXATTR),
                setf trfs_setxattr_op F_r_size size,
                setf trfs_setxattr_op F_pid pid,
                setf trfs_setxattr_op F_len path_len,
                setf trfs_setxattr_op F_ret ret,
                name])
             st)"

definition trfs_log_getxattr_op ::
  "allocator \<Rightarrow> int \<Rightarrow> trfs_log_driver \<Rightarrow> qstr \<Rightarrow> bytes \<Rightarrow> nat \<Rightarrow> int \<Rightarrow> klog \<Rightarrow> klog option" where
  "trfs_log_getxattr_op km pid this dentry xname size1 ret st =
     (if test_bit_set (bitmap this) TRFS_OP_GETXATTR = 0 then Some st
      else
        let path_len = int32 (int (qlen dentry));
            size = int32 (int (sizeof trfs_getxattr_op) + path_len)
        in log_record km size (\<lambda>rid.
             case memcpy_str (offsetof trfs_getxattr_op F_pathname) (qname dentry) (ushort path_len) of
               None \<Rightarrow> None
             | Some name \<Rightarrow> Some
               [setf trfs_getxattr_op F_r_id (uint rid),
                setf trfs_getxattr_op F_r_type (int TRFS_OP_GETXATTR),
                setf trfs_getxattr_op F_r_size size,
                setf trfs_getxattr_op F_pid pid,
                setf trfs_getxattr_op F_len path_len,
                setf trfs_getxattr_op F_ret ret,
                name])
             st)"

definition trfs_log_listxattr_op ::
  "allocator \<Rightarrow> int \<Rightarrow> trfs_log_driver \<Rightarrow> qstr \<Rightarrow> nat \<Rightarrow> int \<Rightarrow> klog \<Rightarrow> klog option" where
  "trfs_log_listxattr_op km pid this dentry buffer_size ret st =
     (if test_bit_set (bitmap this) TRFS_OP_LISTXATTR = 0 then Some st
      else
        let path_len = int32 (int (qlen dentry));
            size = int32 (int (sizeof trfs_listxattr_op) + path_len)
        in log_record km size (\<lambda>rid.
             case memcpy_str (offsetof trfs_listxattr_op F_pathname) (qname dentry) (ushort path_len) of
               None \<Rightarrow> None
             | Some name \<Rightarrow> Some
               [setf trfs_listxattr_op F_r_id (uint rid),
                setf trfs_listxattr_op F_r_type (int TRFS_OP_LISTXATTR),
                setf trfs_listxattr_op F_r_size size,
                setf trfs_listxattr_op F_pid pid,
                setf trfs_listxattr_op F_len path_len,
                setf trfs_listxattr_op F_ret ret,
                name])
             st)"

definition trfs_log_removexattr_op ::
  "allocator \<Rightarrow> int \<Rightarrow> trfs_log_driver \<Rightarrow> qstr \<Rightarrow> bytes \<Rightarrow> int \<Rightarrow> klog \<Rightarrow> klog option" where
  "trfs_log_removexattr_op km pid this dentry xname ret st =
     (if test_bit_set (bitmap this) TRFS_OP_REMOVEXATTR = 0 then Some st
      else
        let path_len = int32 (int (qlen dentry));
            size = int32 (int (sizeof trfs_removexattr_op) + path_len)
        in log_record km size (\<lambda>rid.
             case memcpy_str (offsetof trfs_removexattr_op F_pathname) (qname dentry) (ushort path_len) of
               None \<Rightarrow> None
             | Some name \<Rightarrow> Some
               [setf trfs_removexattr_op F_r_id (uint rid),
                setf trfs_removexattr_op F_r_type (int TRFS_OP_REMOVEXATTR),
                setf trfs_removexattr_op F_r_size size,
                setf trfs_removexattr_op F_pid pid,
                setf trfs_removexattr_op F_len path_len,
                setf trfs_removexattr_op F_ret ret,
                name])
             st)"

subsection \<open>The table of operations and the driver\<close>

text \<open>A call through the table \<open>log_ops\<close>: which entry, with which arguments.\<close>

datatype trace_call =
    T_open trfile int
  | T_read trfile nat int int
  | T_write trfile bytes nat int int
  | T_close trfile int
  | T_mkdir qstr int int
  | T_rmdir qstr int
  | T_unlink qstr int
  | T_link qstr qstr int
  | T_symlink qstr bytes int
  | T_mknod qstr u32 u32 int
  | T_rename qstr qstr int
  | T_setxattr qstr bytes bytes nat int int
  | T_getxattr qstr bytes nat int
  | T_listxattr qstr nat int
  | T_removexattr qstr bytes int

fun log_ops :: "allocator \<Rightarrow> int \<Rightarrow> trfs_log_driver \<Rightarrow> trace_call \<Rightarrow> klog \<Rightarrow> klog option" where
  "log_ops km pid this (T_open file ret) = trfs_log_open_op km pid this file ret"
| "log_ops km pid this (T_read file count ppos ret) = trfs_log_read_op km pid this file count ppos ret"
| "log_ops km pid this (T_write file ubuf count ppos ret) = trfs_log_write_op km pid this file ubuf count ppos ret"
| "log_ops km pid this (T_close file ret) = trfs_log_close_op km pid this file ret"
| "log_ops km pid this (T_mkdir d mode ret) = trfs_log_mkdir_op km pid this d mode ret"
| "log_ops km pid this (T_rmdir d ret) = trfs_log_rmdir_op km pid this d ret"
| "log_ops km pid this (T_unlink d ret) = trfs_log_unlink_op km pid this d ret"
| "log_ops km pid this (T_link d e ret) = trfs_log_link_op km pid this d e ret"
| "log_ops km pid this (T_symlink d sname ret) = trfs_log_symlink_op km pid this d sname ret"
| "log_ops km pid this (T_mknod d mode dev ret) = trfs_log_mknod_op km pid this d mode dev ret"
| "log_ops km pid this (T_rename d e ret) = trfs_log_rename_op km pid this d e ret"
| "log_ops km pid this (T_setxattr d xname value n flags ret) = trfs_log_setxattr_op km pid this d xname value n flags ret"
| "log_ops km pid this (T_getxattr d xname n ret) = trfs_log_getxattr_op km pid this d xname n ret"
| "log_ops km pid this (T_listxattr d n ret) = trfs_log_listxattr_op km pid this d n ret"
| "log_ops km pid this (T_removexattr d xname ret) = trfs_log_removexattr_op km pid this d xname ret"

text \<open>
  \<open>trfs_log_driver_init\<close> allocates the driver and enables every operation: whatever the fresh
  block holds, \<open>tld->bitmap & 0\<close> is zero. \<open>alloc\<close> is the outcome of \<open>kmalloc\<close>, with
  the fresh block's contents.
\<close>

definition trfs_log_driver_init :: "trfs_log_driver option \<Rightarrow> trfs_log_driver option" where
  "trfs_log_driver_init alloc =
     (case alloc of
        None \<Rightarrow> None
      | Some tld \<Rightarrow> Some (tld\<lparr>bitmap := not (and (bitmap tld) 0)\<rparr>))"

definition trfs_log_driver_exit :: "ptr \<Rightarrow> kheap \<Rightarrow> kheap option" where
  "trfs_log_driver_exit tld h = (if tld \<noteq> NULL then kfree tld h else Some h)"


subsection \<open>Specification vocabulary\<close>

text \<open>Which bit enables a call, which number its record has, how long the record is.\<close>

fun call_bit :: "trace_call \<Rightarrow> nat" where
  "call_bit (T_open _ _) = TRFS_OP_OPEN"
| "call_bit (T_read _ _ _ _) = TRFS_OP_READ"
| "call_bit (T_write _ _ _ _ _) = TRFS_OP_WRITE"
| "call_bit (T_close _ _) = TRFS_OP_CLOSE"
| "call_bit (T_mkdir _ _ _) = TRFS_OP_MKDIR"
| "call_bit (T_rmdir _ _) = TRFS_OP_RMDIR"
| "call_bit (T_unlink _ _) = TRFS_OP_UNLINK"
| "call_bit (T_link _ _ _) = TRFS_OP_LINK"
| "call_bit (T_symlink _ _ _) = TRFS_OP_SYMLINK"
| "call_bit (T_mknod _ _ _ _) = TRFS_OP_CLOSE"
| "call_bit (T_rename _ _ _) = TRFS_OP_RENAME"
| "call_bit (T_setxattr _ _ _ _ _ _) = TRFS_OP_SETXATTR"
| "call_bit (T_getxattr _ _ _ _) = TRFS_OP_GETXATTR"
| "call_bit (T_listxattr _ _ _) = TRFS_OP_LISTXATTR"
| "call_bit (T_removexattr _ _ _) = TRFS_OP_REMOVEXATTR"

fun call_size :: "trace_call \<Rightarrow> nat" where
  "call_size (T_open f _) = sizeof trfs_open_op + qlen (fl_name f)"
| "call_size (T_read f _ _ _) = sizeof trfs_read_op + qlen (fl_name f)"
| "call_size (T_write f _ k _ _) = sizeof trfs_write_op + qlen (fl_name f) + k"
| "call_size (T_close f _) = sizeof trfs_close_op + qlen (fl_name f)"
| "call_size (T_mkdir d _ _) = sizeof trfs_mkdir_op + qlen d"
| "call_size (T_rmdir d _) = sizeof trfs_rmdir_op + qlen d"
| "call_size (T_unlink d _) = sizeof trfs_unlink_op + qlen d"
| "call_size (T_link d _ _) = sizeof trfs_link_op + qlen d + qlen d"
| "call_size (T_symlink d t _) = sizeof trfs_symlink_op + qlen d + length (cstr t)"
| "call_size (T_mknod d _ _ _) = sizeof trfs_mknod_op + qlen d"
| "call_size (T_rename d e _) = sizeof trfs_rename_op + qlen d + qlen e"
| "call_size (T_setxattr d _ _ _ _ _) = sizeof trfs_setxattr_op + qlen d"
| "call_size (T_getxattr d _ _ _) = sizeof trfs_getxattr_op + qlen d"
| "call_size (T_listxattr d _ _) = sizeof trfs_listxattr_op + qlen d"
| "call_size (T_removexattr d _ _) = sizeof trfs_removexattr_op + qlen d"

text \<open>
  The calls the kernel makes: names of at most 255 characters whose recorded length is their
  length, readable data, a size that an \<open>int\<close> can hold.
\<close>

definition name_ok :: "qstr \<Rightarrow> bool" where
  "name_ok q \<longleftrightarrow> qlen q = length (qname q) \<and> 0 \<notin> set (qname q) \<and> qlen q \<le> 255"

fun call_names :: "trace_call \<Rightarrow> qstr list" where
  "call_names (T_open f _) = [fl_name f]"
| "call_names (T_read f _ _ _) = [fl_name f]"
| "call_names (T_write f _ _ _ _) = [fl_name f]"
| "call_names (T_close f _) = [fl_name f]"
| "call_names (T_mkdir d _ _) = [d]"
| "call_names (T_rmdir d _) = [d]"
| "call_names (T_unlink d _) = [d]"
| "call_names (T_link d e _) = [d, e]"
| "call_names (T_symlink d _ _) = [d]"
| "call_names (T_mknod d _ _ _) = [d]"
| "call_names (T_rename d e _) = [d, e]"
| "call_names (T_setxattr d _ _ _ _ _) = [d]"
| "call_names (T_getxattr d _ _ _) = [d]"
| "call_names (T_listxattr d _ _) = [d]"
| "call_names (T_removexattr d _ _) = [d]"

fun call_readable :: "trace_call \<Rightarrow> bool" where
  "call_readable (T_write _ u k _ _) = (k \<le> length u)"
| "call_readable _ = True"

definition call_wf :: "trace_call \<Rightarrow> bool" where
  "call_wf c \<longleftrightarrow> list_all name_ok (call_names c) \<and> call_readable c \<and> call_size c < 2 ^ 31"

text \<open>
  Whether all writes to the record stay inside the block: only \<open>link\<close>, which counts the old
  name twice, can miss, by a new name more than three characters longer.
\<close>

fun call_fits :: "trace_call \<Rightarrow> bool" where
  "call_fits (T_link d e _) = (qlen e \<le> qlen d + 3)"
| "call_fits _ = True"

text \<open>
  What a record says about the call it was written for: the bytes that must stand at which
  offset, and that they do.
\<close>

fun call_facts :: "int \<Rightarrow> trace_call \<Rightarrow> (nat \<times> bytes) list" where
  "call_facts pid (T_open f r) =
    [setf trfs_open_op F_pid pid,
     setf trfs_open_op F_flags (uint (fl_flags f)),
     setf trfs_open_op F_mode (uint (fl_mode f)),
     setf trfs_open_op F_len (int (qlen (fl_name f))),
     setf trfs_open_op F_ret r, setf trfs_open_op F_addr (int (fl_addr f)),
     (offsetof trfs_open_op F_pathname, qname (fl_name f) @ [0])]"
| "call_facts pid (T_read f k pos r) =
    [setf trfs_read_op F_pid pid,
     setf trfs_read_op F_len (int (qlen (fl_name f))),
     setf trfs_read_op F_count (int k), setf trfs_read_op F_ppos pos,
     setf trfs_read_op F_ret r, setf trfs_read_op F_addr (int (fl_addr f)),
     (offsetof trfs_read_op F_pathname, qname (fl_name f) @ [0])]"
| "call_facts pid (T_write f u k pos r) =
    [setf trfs_write_op F_pid pid,
     setf trfs_write_op F_len (int (qlen (fl_name f))),
     setf trfs_write_op F_count (int k), setf trfs_write_op F_ppos pos,
     setf trfs_write_op F_ret r, setf trfs_write_op F_addr (int (fl_addr f)),
     (offsetof trfs_write_op F_pathname, qname (fl_name f)),
     (offsetof trfs_write_op F_pathname + qlen (fl_name f), take k u)]"
| "call_facts pid (T_close f r) =
    [setf trfs_close_op F_pid pid,
     setf trfs_close_op F_len (int (qlen (fl_name f))),
     setf trfs_close_op F_ret r, setf trfs_close_op F_addr (int (fl_addr f)),
     (offsetof trfs_close_op F_pathname, qname (fl_name f))]"
| "call_facts pid (T_mkdir d m r) =
    [setf trfs_mkdir_op F_mode m, setf trfs_mkdir_op F_len (int (qlen d)),
     setf trfs_mkdir_op F_ret r,
     (offsetof trfs_mkdir_op F_pathname, qname d @ [0])]"
| "call_facts pid (T_rmdir d r) =
    [setf trfs_rmdir_op F_len (int (qlen d)), setf trfs_rmdir_op F_ret r,
     (offsetof trfs_rmdir_op F_pathname, qname d @ [0])]"
| "call_facts pid (T_unlink d r) =
    [setf trfs_unlink_op F_len (int (qlen d)), setf trfs_unlink_op F_ret r,
     (offsetof trfs_unlink_op F_pathname, qname d @ [0])]"
| "call_facts pid (T_link d e r) =
    [setf trfs_link_op F_plen (int (qlen d)),
     setf trfs_link_op F_hlen (int (qlen d)), setf trfs_link_op F_ret r,
     (offsetof trfs_link_op F_pathname, qname d),
     (offsetof trfs_link_op F_pathname + qlen d, qname e @ [0])]"
| "call_facts pid (T_symlink d t r) =
    [setf trfs_symlink_op F_plen (int (qlen d)),
     setf trfs_symlink_op F_slen (int (length (cstr t))),
     setf trfs_symlink_op F_ret r,
     (offsetof trfs_symlink_op F_pathname, qname d),
     (offsetof trfs_symlink_op F_pathname + qlen d, cstr t @ [0])]"
| "call_facts pid (T_mknod d _ _ r) =
    [setf trfs_mknod_op F_pid pid, setf trfs_mknod_op F_len (int (qlen d)),
     setf trfs_mknod_op F_ret r,
     (offsetof trfs_mknod_op F_pathname, qname d)]"
| "call_facts pid (T_rename d e r) =
    [setf trfs_rename_op F_len1 (int (qlen d)),
     setf trfs_rename_op F_len2 (int (qlen e)), setf trfs_rename_op F_ret r,
     (offsetof trfs_rename_op F_pathname1, qname d),
     (offsetof trfs_rename_op F_pathname1 + qlen d, qname e @ [0])]"
| "call_facts pid (T_setxattr d _ _ _ _ r) =
    [setf trfs_setxattr_op F_pid pid,
     setf trfs_setxattr_op F_len (int (qlen d)),
     setf trfs_setxattr_op F_ret r,
     (offsetof trfs_setxattr_op F_pathname, qname d)]"
| "call_facts pid (T_getxattr d _ _ r) =
    [setf trfs_getxattr_op F_pid pid,
     setf trfs_getxattr_op F_len (int (qlen d)),
     setf trfs_getxattr_op F_ret r,
     (offsetof trfs_getxattr_op F_pathname, qname d)]"
| "call_facts pid (T_listxattr d _ r) =
    [setf trfs_listxattr_op F_pid pid,
     setf trfs_listxattr_op F_len (int (qlen d)),
     setf trfs_listxattr_op F_ret r,
     (offsetof trfs_listxattr_op F_pathname, qname d)]"
| "call_facts pid (T_removexattr d _ r) =
    [setf trfs_removexattr_op F_pid pid,
     setf trfs_removexattr_op F_len (int (qlen d)),
     setf trfs_removexattr_op F_ret r,
     (offsetof trfs_removexattr_op F_pathname, qname d)]"

definition carries :: "int \<Rightarrow> trace_call \<Rightarrow> bytes \<Rightarrow> bool" where
  "carries pid c rec \<longleftrightarrow>
     list_all (\<lambda>(off, v). load off (length v) rec = Some v) (call_facts pid c)"

text \<open>The record of call \<open>c\<close> with number \<open>rid\<close>.\<close>

definition is_record :: "int \<Rightarrow> trace_call \<Rightarrow> u32 \<Rightarrow> bytes \<Rightarrow> bool" where
  "is_record pid c rid rec \<longleftrightarrow>
     headed (call_size c) (call_bit c) rec \<and> load 0 4 rec = Some (le_int 4 (uint rid)) \<and>
     carries pid c rec"

text \<open>The calls the writer can handle, and whether a call's record reaches the queue.\<close>

definition call_ok :: "trfs_log_driver \<Rightarrow> trace_call \<Rightarrow> bool" where
  "call_ok this c \<longleftrightarrow>
     call_wf c \<and> call_fits c \<and> bit (bitmap this) (call_bit c) \<and> int (call_size c) \<le> TRFS_PAGE_SIZE"

definition logged :: "allocator \<Rightarrow> klog \<Rightarrow> trace_call \<Rightarrow> bool" where
  "logged km st c \<longleftrightarrow>
     km (requests (heap st)) (call_size c) \<noteq> None \<and>
     length (log_queue st) < TRFS_MQ_MAX_NO_OF_MSGS"

section \<open>Lemmas\<close>

subsection \<open>The record of a call\<close>

lemma cstr_name [simp]: "name_ok q \<Longrightarrow> cstr (qname q) = qname q"
  by (auto simp: name_ok_def cstr_def takeWhile_eq_all_conv)

lemma memcpy_name:
  "name_ok q \<Longrightarrow> n = qlen q \<Longrightarrow> memcpy_str off (qname q) n = Some (off, qname q)"
  by (simp add: memcpy_str_def load_def name_ok_def)

lemma name_lens:
  assumes "name_ok q"
  shows "int32 (int (qlen q)) = int (qlen q)" "ushort (int (qlen q)) = qlen q"
    "size_t (int (qlen q)) = qlen q" "length (qname q) = qlen q"
  using assms by (simp_all add: name_ok_def int32_nat ushort_def size_t_def)

lemma name_empty: "name_ok q \<Longrightarrow> qlen q = 0 \<longrightarrow> [] = qname q"
  by (auto simp: name_ok_def)

lemma int32_sizes:
  "name_ok d \<Longrightarrow> 0 \<le> k \<Longrightarrow> k \<le> 100 \<Longrightarrow> int32 (k + int (qlen d)) = k + int (qlen d)"
  "name_ok d \<Longrightarrow> 0 \<le> k \<Longrightarrow> k \<le> 100 \<Longrightarrow> int32 (2 * int (qlen d) + k) = 2 * int (qlen d) + k"
  "name_ok d \<Longrightarrow> name_ok e \<Longrightarrow> 0 \<le> k \<Longrightarrow> k \<le> 100 \<Longrightarrow>
     int32 (k + int (qlen d) + int (qlen e)) = k + int (qlen d) + int (qlen e)"
  by (auto simp: name_ok_def intro!: int32_id)

lemma le_int_sizes:
  "le_int n (numeral k) = le_enc n (numeral k)"
  "le_int n (numeral k + int x) = le_enc n (numeral k + x)"
  "le_int n (2 * int x + numeral k) = le_enc n (2 * x + numeral k)"
  "le_int n (numeral k + int x + int y) = le_enc n (numeral k + x + y)"
  using le_int_nat [of n "numeral k"] le_int_nat [of n "numeral k + x"]
    le_int_nat [of n "2 * x + numeral k"] le_int_nat [of n "numeral k + x + y"] by simp_all

lemma nat_offset: "nat (numeral k + int x) = numeral k + x"
  by (simp add: nat_add_distrib)

text \<open>
  \<open>builds n ty pid c fill\<close>: on any block of \<open>n\<close> bytes the writes \<open>fill\<close> succeed and leave
  the header and the arguments of the call \<open>c\<close>.
\<close>

definition builds :: "nat \<Rightarrow> nat \<Rightarrow> int \<Rightarrow> trace_call \<Rightarrow> (u32 \<Rightarrow> (nat \<times> bytes) list) \<Rightarrow> bool" where
  "builds n ty pid c fill \<longleftrightarrow>
     (\<forall>rid g. length g = n \<longrightarrow>
        (\<exists>rec. stores (fill rid) g = Some rec \<and> headed n ty rec \<and>
           load 0 4 rec = Some (le_int 4 (uint rid)) \<and> carries pid c rec))"

context trace_record
begin

lemma buildsI:
  assumes "\<And>rid. list_all (\<lambda>(p, v). p + length v \<le> n) (fill rid)"
    and "\<And>rid. final_at (offsetof S F_r_size) 2 (fill rid) = Some (le_enc 2 n)"
    and "\<And>rid. final_at (offsetof S F_r_type) 1 (fill rid) = Some (le_enc 1 ty)"
    and "\<And>rid. final_at (offsetof S F_r_id) 4 (fill rid) = Some (le_int 4 (uint rid))"
    and "\<And>rid. list_all (\<lambda>(off, v). final_at off (length v) (fill rid) = Some v) (call_facts pid c)"
  shows "builds n ty pid c fill"
  unfolding builds_def
proof (intro allI impI)
  fix rid and g :: bytes
  assume g: "length g = n"
  then obtain rec where rec: "stores (fill rid) g = Some rec"
    using assms(1) [of rid] stores_Some_iff [of "fill rid" g] by (auto simp: list_all_iff)
  have "headed n ty rec"
    using headed_stores [OF rec, unfolded g, OF assms(2,3)] .
  moreover have "carries pid c rec"
    using assms(5) [of rid] load_stores_final [OF _ rec] by (auto simp: carries_def list_all_iff)
  ultimately show "\<exists>rec. stores (fill rid) g = Some rec \<and> headed n ty rec \<and>
      load 0 4 rec = Some (le_int 4 (uint rid)) \<and> carries pid c rec"
    using rec id_stores [OF rec assms(4)] by blast
qed

end

text \<open>The shape of every operation: a guarded \<open>log_record\<close> whose writes build the record.\<close>

definition traces :: "allocator \<Rightarrow> int \<Rightarrow> trfs_log_driver \<Rightarrow> trace_call \<Rightarrow> bool" where
  "traces km pid this c \<longleftrightarrow>
     (\<exists>fill. builds (call_size c) (call_bit c) pid c fill \<and>
        (\<forall>st. log_ops km pid this c st =
           (if test_bit_set (bitmap this) (call_bit c) = 0 then Some st
            else log_record km (int (call_size c)) (\<lambda>rid. Some (fill rid)) st)))"

lemma tracesI:
  assumes "\<And>st. log_ops km pid this c st =
      (if test_bit_set (bitmap this) (call_bit c) = 0 then Some st
       else log_record km (int (call_size c)) (\<lambda>rid. Some (fill rid)) st)"
    and "builds (call_size c) (call_bit c) pid c fill"
  shows "traces km pid this c"
  using assms unfolding traces_def by blast

lemmas fill_simps = setf_def strcpy_def le_int_nat le_int_sizes

lemmas call_simps = Let_def int32_sizes nat_offset memcpy_name

lemma mkdir_traces:
  assumes "name_ok d"
  shows "traces km pid this (T_mkdir d mode ret)"
  by (rule tracesI, simp add: trfs_log_mkdir_op_def call_simps assms name_lens [OF assms], rule impI, rule refl,
      rule mkdir_rec.buildsI)
    (use assms name_lens [OF assms] in \<open>simp_all add: fill_simps\<close>)

lemma rmdir_traces:
  assumes "name_ok d"
  shows "traces km pid this (T_rmdir d ret)"
  by (rule tracesI, simp add: trfs_log_rmdir_op_def call_simps assms name_lens [OF assms], rule impI, rule refl,
      rule rmdir_rec.buildsI)
    (use assms name_lens [OF assms] in \<open>simp_all add: fill_simps\<close>)

lemma unlink_traces:
  assumes "name_ok d"
  shows "traces km pid this (T_unlink d ret)"
  by (rule tracesI, simp add: trfs_log_unlink_op_def call_simps assms name_lens [OF assms], rule impI, rule refl,
      rule unlink_rec.buildsI)
    (use assms name_lens [OF assms] in \<open>simp_all add: fill_simps\<close>)

lemma mknod_traces:
  assumes "name_ok d"
  shows "traces km pid this (T_mknod d mode dev ret)"
  by (rule tracesI, simp add: trfs_log_mknod_op_def call_simps assms name_lens [OF assms], rule impI, rule refl,
      rule mknod_rec.buildsI)
    (use assms name_lens [OF assms] in \<open>simp_all add: fill_simps\<close>)

lemma setxattr_traces:
  assumes "name_ok d"
  shows "traces km pid this (T_setxattr d x v n fl ret)"
  by (rule tracesI, simp add: trfs_log_setxattr_op_def call_simps assms name_lens [OF assms], rule impI, rule refl,
      rule setxattr_rec.buildsI)
    (use assms name_lens [OF assms] in \<open>simp_all add: fill_simps\<close>)

lemma getxattr_traces:
  assumes "name_ok d"
  shows "traces km pid this (T_getxattr d x n ret)"
  by (rule tracesI, simp add: trfs_log_getxattr_op_def call_simps assms name_lens [OF assms], rule impI, rule refl,
      rule getxattr_rec.buildsI)
    (use assms name_lens [OF assms] in \<open>simp_all add: fill_simps\<close>)

lemma listxattr_traces:
  assumes "name_ok d"
  shows "traces km pid this (T_listxattr d n ret)"
  by (rule tracesI, simp add: trfs_log_listxattr_op_def call_simps assms name_lens [OF assms], rule impI, rule refl,
      rule listxattr_rec.buildsI)
    (use assms name_lens [OF assms] in \<open>simp_all add: fill_simps\<close>)

lemma removexattr_traces:
  assumes "name_ok d"
  shows "traces km pid this (T_removexattr d x ret)"
  by (rule tracesI, simp add: trfs_log_removexattr_op_def call_simps assms name_lens [OF assms], rule impI, rule refl,
      rule removexattr_rec.buildsI)
    (use assms name_lens [OF assms] in \<open>simp_all add: fill_simps\<close>)

lemma open_traces:
  assumes "name_ok (fl_name f)"
  shows "traces km pid this (T_open f ret)"
  by (rule tracesI, simp add: trfs_log_open_op_def call_simps assms name_lens [OF assms], rule impI, rule refl,
      rule open_rec.buildsI)
    (use assms name_lens [OF assms] in \<open>simp_all add: fill_simps\<close>)

lemma read_traces:
  assumes "name_ok (fl_name f)"
  shows "traces km pid this (T_read f k pos ret)"
  by (rule tracesI, simp add: trfs_log_read_op_def call_simps assms name_lens [OF assms], rule impI, rule refl,
      rule read_rec.buildsI)
    (use assms name_lens [OF assms] in \<open>simp_all add: fill_simps\<close>)

lemma close_traces:
  assumes "name_ok (fl_name f)"
  shows "traces km pid this (T_close f ret)"
  by (rule tracesI, simp add: trfs_log_close_op_def call_simps assms name_lens [OF assms], rule impI, rule refl,
      rule close_rec.buildsI)
    (use assms name_lens [OF assms] in \<open>simp_all add: fill_simps\<close>)

lemma rename_traces:
  assumes "name_ok d" and "name_ok e"
  shows "traces km pid this (T_rename d e ret)"
  by (rule tracesI, simp add: trfs_log_rename_op_def call_simps assms name_lens [OF assms(1)]
        name_lens [OF assms(2)], rule impI, rule refl, rule rename_rec.buildsI)
    (use assms name_lens [OF assms(1)] name_lens [OF assms(2)] name_empty [OF assms(1)] in
      \<open>simp_all add: fill_simps\<close>)

lemma link_traces:
  assumes "name_ok d" and "name_ok e" and "qlen e \<le> qlen d + 3"
  shows "traces km pid this (T_link d e ret)"
  by (rule tracesI, simp add: trfs_log_link_op_def call_simps assms name_lens [OF assms(1)]
        name_lens [OF assms(2)], rule impI, rule refl, rule link_rec.buildsI)
    (use assms name_lens [OF assms(1)] name_lens [OF assms(2)] name_empty [OF assms(1)] in
      \<open>simp_all add: fill_simps\<close>)

lemma symlink_traces:
  assumes "name_ok d" and "call_size (T_symlink d t ret) < 2 ^ 31"
  shows "traces km pid this (T_symlink d t ret)"
proof -
  have sz: "int32 (24 + int (qlen d) + int (length (cstr t))) = 24 + int (qlen d) + int (length (cstr t))"
    using assms(2) by (intro int32_id) simp_all
  show ?thesis
    by (rule tracesI, simp add: trfs_log_symlink_op_def call_simps assms name_lens [OF assms(1)] sz,
        rule impI, rule refl, rule symlink_rec.buildsI)
      (use assms name_lens [OF assms(1)] name_empty [OF assms(1)] in \<open>simp_all add: fill_simps\<close>)
qed

lemma write_traces:
  assumes "name_ok (fl_name f)" and "call_size (T_write f u k pos ret) < 2 ^ 31" and "k \<le> length u"
  shows "traces km pid this (T_write f u k pos ret)"
proof -
  have sz: "int32 (48 + int (qlen (fl_name f)) + int k) = 48 + int (qlen (fl_name f)) + int k"
    using assms(2) by (intro int32_id) simp_all
  have ld: "load 0 k u = Some (take k u)" using assms(3) by (simp add: load_def)
  show ?thesis
    by (rule tracesI, simp add: trfs_log_write_op_def call_simps assms name_lens [OF assms(1)] sz ld,
        rule impI, rule refl, rule write_rec.buildsI)
      (use assms name_lens [OF assms(1)] name_empty [OF assms(1)] in \<open>simp_all add: fill_simps\<close>)
qed

lemma log_ops_traces:
  assumes "call_wf c" and "call_fits c"
  shows "traces km pid this c"
  using assms
  by (cases c) (simp_all add: call_wf_def mkdir_traces rmdir_traces unlink_traces mknod_traces
      setxattr_traces getxattr_traces listxattr_traces removexattr_traces open_traces read_traces
      close_traces rename_traces link_traces symlink_traces write_traces)

subsection \<open>Handing the record over\<close>

text \<open>The state after the block of a record was allocated and filled.\<close>

definition with_record :: "bytes \<Rightarrow> klog \<Rightarrow> klog" where
  "with_record rec st =
     st\<lparr>next_id := next_id st + 1,
        heap := (heap st)\<lparr>requests := Suc (requests (heap st)),
                          blocks := (blocks (heap st))(Suc (requests (heap st)) \<mapsto> rec)\<rparr>\<rparr>"

lemma log_record_built:
  assumes "km (requests (heap st)) n = Some g" and "n < 2 ^ 31"
    and "stores (fill (next_id st + 1)) g = Some rec"
  shows "log_record km (int n) (\<lambda>rid. Some (fill rid)) st =
    TRFS_WRITE (Suc (requests (heap st))) (int n) (with_record rec st)"
  using assms
  by (simp add: log_record_def kmalloc_def get_next_record_id_def block_of_def with_record_def
      size_t_of_nat Let_def)

lemma log_record_faults:
  assumes "km (requests (heap st)) n = Some g" and "n < 2 ^ 31"
    and "stores (fill (next_id st + 1)) g = None"
  shows "log_record km (int n) (\<lambda>rid. Some (fill rid)) st = None"
  using assms
  by (simp add: log_record_def kmalloc_def get_next_record_id_def block_of_def size_t_of_nat Let_def)

text \<open>When the allocator fails nothing is queued: the null pointer is refused by the queue.\<close>

lemma log_record_no_memory:
  assumes "km (requests (heap st)) n = None" and "n < 2 ^ 31"
  shows "log_record km (int n) fill st =
    Some (st\<lparr>heap := (heap st)\<lparr>requests := Suc (requests (heap st))\<rparr>\<rparr>)"
  using assms
  by (simp add: log_record_def kmalloc_def size_t_of_nat TRFS_WRITE_def trfsMqSend_def Let_def)

lemma with_record_simps [simp]:
  "mq (with_record rec st) = mq st" "tlw (with_record rec st) = tlw st"
  "thr (with_record rec st) = thr st" "next_id (with_record rec st) = next_id st + 1"
  by (simp_all add: with_record_def)

text \<open>With room in the queue the record is queued behind the others.\<close>

lemma TRFS_WRITE_room:
  assumes "log_q_ready (mq st)" and "p \<noteq> NULL" and "0 < n" and "n < 2 ^ 31"
    and "length (log_queue st) < TRFS_MQ_MAX_NO_OF_MSGS"
  shows "\<exists>mq'. TRFS_WRITE p (int n) st = Some (st\<lparr>mq := mq'\<rparr>) \<and> log_q_ready mq' \<and>
    content (queue_of TRFS_LOG_QID mq') =
      log_queue st @ [\<lparr>msg_pri = 0, msg_len = int n, msg_data = p\<rparr>]"
proof -
  obtain mq' where "trfsMqSend TRFS_LOG_QID p n 0 (mq st) = Some (int32 (int n), mq')"
    "log_q_ready mq'"
    "content (queue_of TRFS_LOG_QID mq') =
      log_queue st @ [\<lparr>msg_pri = 0, msg_len = int n, msg_data = p\<rparr>]"
    using send_room [of "mq st" TRFS_LOG_QID p n 0] assms
    by (auto simp: log_q_ready_def log_queue_def opened_def)
  with assms show ?thesis
    by (auto simp: TRFS_WRITE_def size_t_of_nat int32_nat Let_def)
qed

text \<open>When the queue is full the record is dropped, and its block is not freed.\<close>

lemma TRFS_WRITE_full:
  assumes "log_q_ready (mq st)" and "p \<noteq> NULL" and "0 < n" and "n < 2 ^ 31"
    and "length (log_queue st) = TRFS_MQ_MAX_NO_OF_MSGS"
  shows "TRFS_WRITE p (int n) st = Some st"
proof -
  have "trfsMqSend TRFS_LOG_QID p n 0 (mq st) = Some (int32 (int n), mq st)"
    using send_full [of "mq st" TRFS_LOG_QID p n 0] assms
    by (auto simp: log_q_ready_def log_queue_def)
  with assms show ?thesis by (simp add: TRFS_WRITE_def size_t_of_nat int32_nat)
qed

text \<open>A failed allocation changes nothing but the count of requests.\<close>

lemma failed_alloc_inv:
  assumes inv: "log_inv st"
  shows "log_inv (st\<lparr>heap := (heap st)\<lparr>requests := Suc (requests (heap st))\<rparr>\<rparr>)"
    "trace (st\<lparr>heap := (heap st)\<lparr>requests := Suc (requests (heap st))\<rparr>\<rparr>) = trace st"
proof -
  let ?st = "st\<lparr>heap := (heap st)\<lparr>requests := Suc (requests (heap st))\<rparr>\<rparr>"
  have own: "owned ?st = owned st" and q: "log_queue ?st = log_queue st"
    by (simp_all add: owned_def thread_ptrs_def log_queue_def)
  have "heap_wf (heap ?st)"
    using inv by (fastforce simp: log_inv_def heap_wf_def intro: le_SucI)
  moreover have "\<forall>m \<in> set (log_queue st). msg_ok (heap ?st) m" "page_ok ?st" "file_ok ?st"
    using inv by (auto simp: log_inv_def msg_ok_def page_ok_def file_ok_def)
  ultimately show "log_inv ?st" using inv unfolding log_inv_def own q by simp
  show "trace ?st = trace st"
    by (simp add: trace_def queued_def q written_def paged_def block_of_def)
qed

text \<open>A fresh block changes nothing for the blocks the log owns.\<close>

lemma with_record_kept:
  assumes "log_inv st" and "p \<in> set (owned st)"
  shows "p \<noteq> Suc (requests (heap st))" "blocks (heap (with_record rec st)) p = blocks (heap st) p"
proof -
  have "blocks (heap st) p \<noteq> None" "heap_wf (heap st)" using assms by (auto simp: log_inv_def)
  then show "p \<noteq> Suc (requests (heap st))" using kmalloc_fresh by metis
  then show "blocks (heap (with_record rec st)) p = blocks (heap st) p" by (simp add: with_record_def)
qed

lemma with_record_inv:
  assumes inv: "log_inv st"
  shows "log_inv (with_record rec st)" "queued (with_record rec st) = queued st"
    "trace (with_record rec st) = trace st" "log_queue (with_record rec st) = log_queue st"
    "owned (with_record rec st) = owned st"
proof -
  let ?st = "with_record rec st"
  note kept = with_record_kept [OF inv]
  show q: "log_queue ?st = log_queue st" by (simp add: log_queue_def)
  show own: "owned ?st = owned st" by (simp add: owned_def thread_ptrs_def q)
  have ql: "blocks (heap ?st) (msg_data m) = blocks (heap st) (msg_data m)" if "m \<in> set (log_queue st)" for m
    using that by (intro kept(2)) (auto simp: owned_def)
  have pg: "blocks (heap ?st) (page (tlw st)) = blocks (heap st) (page (tlw st))"
    by (intro kept(2)) (simp add: owned_def)
  have "heap_wf (heap ?st)"
    using inv by (auto simp: log_inv_def heap_wf_def with_record_def le_Suc_eq)
  moreover have "\<forall>p \<in> set (owned ?st). blocks (heap ?st) p \<noteq> None"
    using inv kept(2) unfolding own by (simp add: log_inv_def)
  moreover have "\<forall>m \<in> set (log_queue ?st). msg_ok (heap ?st) m"
    using inv ql unfolding q by (simp add: log_inv_def msg_ok_def)
  moreover have "page_ok ?st" "file_ok ?st"
    using inv pg by (simp_all add: log_inv_def page_ok_def file_ok_def)
  ultimately show "log_inv ?st"
    using inv own by (simp add: log_inv_def)
  show qd: "queued ?st = queued st"
    using ql by (simp add: queued_def q block_of_def)
  show "trace ?st = trace st"
    using pg by (simp add: trace_def qd written_def paged_def block_of_def)
qed

text \<open>Queueing an owned-by-nobody block extends the trace by its bytes.\<close>

lemma enqueue_inv:
  assumes inv: "log_inv st" and p: "p \<notin> set (owned st)" "blocks (heap st) p = Some rec" "plain_rec rec"
    and mq': "log_q_ready mq'" "content (queue_of TRFS_LOG_QID mq') =
      log_queue st @ [\<lparr>msg_pri = 0, msg_len = int (length rec), msg_data = p\<rparr>]"
  shows "log_inv (st\<lparr>mq := mq'\<rparr>)" "trace (st\<lparr>mq := mq'\<rparr>) = trace st @ rec"
    "queued (st\<lparr>mq := mq'\<rparr>) = queued st @ [rec]"
proof -
  let ?st = "st\<lparr>mq := mq'\<rparr>"
  have q: "log_queue ?st = log_queue st @ [\<lparr>msg_pri = 0, msg_len = int (length rec), msg_data = p\<rparr>]"
    using mq'(2) by (simp add: log_queue_def)
  have own: "owned ?st = owned st @ [p]" by (simp add: owned_def thread_ptrs_def q)
  show qd: "queued ?st = queued st @ [rec]"
    using p(2) by (simp add: queued_def q block_of_def)
  show "trace ?st = trace st @ rec"
    using qd by (simp add: trace_def written_def paged_def)
  have "msg_ok (heap st) \<lparr>msg_pri = 0, msg_len = int (length rec), msg_data = p\<rparr>"
    using p by (simp add: msg_ok_def)
  then show "log_inv ?st"
    using inv p mq'(1) by (auto simp: log_inv_def own q page_ok_def file_ok_def)
qed

subsection \<open>A traced call\<close>

lemma test_bit_set_bit: "n < 32 \<Longrightarrow> test_bit_set a n = 0 \<longleftrightarrow> \<not> bit a n"
proof -
  assume n: "n < 32"
  have "and (push_bit n 1) a = (if bit a n then push_bit n 1 else 0)"
    by (rule bit_word_eqI) (auto simp: bit_simps)
  moreover have "push_bit n (1 :: u32) \<noteq> 0" using n by simp
  moreover have "sint w = 0 \<longleftrightarrow> w = 0" for w :: u32 by (metis signed_0 signed_word_eqI)
  ultimately show ?thesis unfolding test_bit_set_def by (simp split: if_splits)
qed

lemma call_bit_lt: "call_bit c < 32"
  by (cases c) simp_all

lemma sle_dec_id: "sle_dec (le_int 4 (uint (rid :: u32))) = sint rid"
  by (simp add: sle_dec_def le_dec_le_int int32_mod) (simp add: int32_def)

lemma call_size_pos: "8 \<le> call_size c"
  by (cases c) simp_all

lemma record_plain:
  assumes "is_record pid c rid rec" and "int (call_size c) \<le> TRFS_PAGE_SIZE" and "rid \<noteq> 127"
  shows "plain_rec rec" "length rec = call_size c"
proof -
  show len: "length rec = call_size c" using assms(1) by (simp add: is_record_def headed_def)
  have "take 4 rec = le_int 4 (uint rid)"
    using assms(1) by (auto simp: is_record_def load_def split: if_splits)
  moreover have "sint rid \<noteq> 127"
    using assms(3) signed_word_eqI [of rid 127] by auto
  ultimately show "plain_rec rec"
    using assms(2) call_size_pos [of c] len by (simp add: plain_rec_def sle_dec_id)
qed

text \<open>What tracing a call does, whatever the allocator and the queue do.\<close>

lemma log_ops_disabled:
  assumes "\<not> bit (bitmap this) (call_bit c)"
  shows "log_ops km pid this c st = Some st"
  using assms
  by (cases c) (simp_all add: test_bit_set_bit trfs_log_open_op_def trfs_log_read_op_def
      trfs_log_write_op_def trfs_log_close_op_def trfs_log_mkdir_op_def trfs_log_rmdir_op_def
      trfs_log_unlink_op_def trfs_log_link_op_def trfs_log_symlink_op_def trfs_log_mknod_op_def
      trfs_log_rename_op_def trfs_log_setxattr_op_def trfs_log_getxattr_op_def
      trfs_log_listxattr_op_def trfs_log_removexattr_op_def)

lemma log_ops_no_memory:
  assumes "call_wf c" and "call_fits c" and "bit (bitmap this) (call_bit c)"
    and "km (requests (heap st)) (call_size c) = None"
  shows "log_ops km pid this c st = Some (st\<lparr>heap := (heap st)\<lparr>requests := Suc (requests (heap st))\<rparr>\<rparr>)"
proof -
  have "call_size c < 2 ^ 31" using assms(1) by (simp add: call_wf_def)
  with log_ops_traces [OF assms(1,2), of km pid this] assms(3,4) show ?thesis
    by (auto simp: traces_def test_bit_set_bit call_bit_lt intro!: log_record_no_memory)
qed

lemma log_ops_built:
  assumes "call_wf c" and "call_fits c" and "bit (bitmap this) (call_bit c)"
    and "km (requests (heap st)) (call_size c) = Some g" and "length g = call_size c"
  shows "\<exists>rec. is_record pid c (next_id st + 1) rec \<and>
    log_ops km pid this c st =
      TRFS_WRITE (Suc (requests (heap st))) (int (call_size c)) (with_record rec st)"
proof -
  have sz: "call_size c < 2 ^ 31" using assms(1) by (simp add: call_wf_def)
  from log_ops_traces [OF assms(1,2), of km pid this] obtain fill where
    b: "builds (call_size c) (call_bit c) pid c fill"
    and eq: "log_ops km pid this c st = log_record km (int (call_size c)) (\<lambda>rid. Some (fill rid)) st"
    using assms(3) by (auto simp: traces_def test_bit_set_bit call_bit_lt)
  from b assms(5) obtain rec where rec: "stores (fill (next_id st + 1)) g = Some rec"
    "is_record pid c (next_id st + 1) rec" by (auto simp: builds_def is_record_def)
  with eq log_record_built [of km st _ g fill, OF assms(4) sz rec(1)] show ?thesis by auto
qed

lemma log_ops_queued:
  assumes inv: "log_inv st" and c: "call_ok this c" and "next_id st + 1 \<noteq> 127"
    and "logged km st c" and "alloc_sized km"
  shows "\<exists>st' rec. log_ops km pid this c st = Some st' \<and> log_inv st' \<and> next_id st' = next_id st + 1 \<and>
    is_record pid c (next_id st + 1) rec \<and> trace st' = trace st @ rec \<and>
    queued st' = queued st @ [rec] \<and> thr st' = thr st \<and> tlw st' = tlw st"
proof -
  from c have c': "call_wf c" "call_fits c" "bit (bitmap this) (call_bit c)" "int (call_size c) \<le> 4096"
    by (simp_all add: call_ok_def)
  obtain g where g: "km (requests (heap st)) (call_size c) = Some g" "length g = call_size c"
    using assms(4,5) by (auto simp: logged_def alloc_sized_def)
  let ?p = "Suc (requests (heap st))"
  obtain rec where rec: "is_record pid c (next_id st + 1) rec"
    "log_ops km pid this c st = TRFS_WRITE ?p (int (call_size c)) (with_record rec st)"
    using log_ops_built [of c this km st g pid] c' g by blast
  note plain = record_plain [OF rec(1) c'(4) assms(3)]
  note wr = with_record_inv [OF inv, of rec]
  obtain mq' where mq': "log_ops km pid this c st = Some ((with_record rec st)\<lparr>mq := mq'\<rparr>)"
    "log_q_ready mq'" "content (queue_of TRFS_LOG_QID mq') =
      log_queue (with_record rec st) @ [\<lparr>msg_pri = 0, msg_len = int (length rec), msg_data = ?p\<rparr>]"
    using TRFS_WRITE_room [of "with_record rec st" ?p "call_size c"] rec(2) plain(2) c'(4)
      call_size_pos [of c] assms(4) wr(1,4) by (auto simp: log_inv_def logged_def)
  have "?p \<notin> set (owned (with_record rec st))"
    using with_record_kept(1) [OF inv] unfolding wr(5) by blast
  moreover have "blocks (heap (with_record rec st)) ?p = Some rec" by (simp add: with_record_def)
  ultimately show ?thesis
    using enqueue_inv [OF wr(1) _ _ plain(1) mq'(2,3)] mq'(1) rec(1) wr(2,3) by auto
qed

text \<open>A full queue: the number is used up, the block stays allocated and nobody owns it.\<close>

lemma log_ops_dropped:
  assumes inv: "log_inv st" and c: "call_ok this c"
    and g: "km (requests (heap st)) (call_size c) = Some g" "length g = call_size c"
    and full: "length (log_queue st) = TRFS_MQ_MAX_NO_OF_MSGS"
  shows "\<exists>rec. is_record pid c (next_id st + 1) rec \<and> log_ops km pid this c st = Some (with_record rec st)"
proof -
  from c have c': "call_wf c" "call_fits c" "bit (bitmap this) (call_bit c)" "int (call_size c) \<le> 4096"
    by (simp_all add: call_ok_def)
  obtain rec where rec: "is_record pid c (next_id st + 1) rec"
    "log_ops km pid this c st = TRFS_WRITE (Suc (requests (heap st))) (int (call_size c)) (with_record rec st)"
    using log_ops_built [of c this km st g pid] c' g by blast
  moreover have "TRFS_WRITE (Suc (requests (heap st))) (int (call_size c)) (with_record rec st) =
      Some (with_record rec st)"
    using inv full c'(4) call_size_pos [of c] with_record_inv [OF inv, of rec]
    by (intro TRFS_WRITE_full) (auto simp: log_inv_def)
  ultimately show ?thesis by auto
qed

lemma queue_bounded: "log_inv st \<Longrightarrow> length (log_queue st) \<le> TRFS_MQ_MAX_NO_OF_MSGS"
  using ring.bounded queue_of_inv by (fastforce simp: log_inv_def log_q_ready_def log_queue_def)

lemma log_ops_inv:
  assumes inv: "log_inv st" and c: "call_ok this c" and "next_id st + 1 \<noteq> 127" and "alloc_sized km"
    and st': "log_ops km pid this c st = Some st'"
  shows "log_inv st'" and "if logged km st c
    then \<exists>rec. is_record pid c (next_id st + 1) rec \<and> trace st' = trace st @ rec
    else trace st' = trace st"
proof -
  have "log_inv st' \<and> (if logged km st c
      then \<exists>rec. is_record pid c (next_id st + 1) rec \<and> trace st' = trace st @ rec
      else trace st' = trace st)"
  proof (cases "logged km st c")
    case True
    then show ?thesis using log_ops_queued [OF inv c assms(3) True assms(4), of pid] st' by auto
  next
    case nolog: False
    show ?thesis
    proof (cases "km (requests (heap st)) (call_size c)")
      case None
      then have "st' = st\<lparr>heap := (heap st)\<lparr>requests := Suc (requests (heap st))\<rparr>\<rparr>"
        using log_ops_no_memory [of c this km st pid] None c st' by (simp add: call_ok_def)
      then show ?thesis using nolog failed_alloc_inv [OF inv] by simp
    next
      case (Some g)
      then have "length (log_queue st) = 1024" "length g = call_size c"
        using nolog queue_bounded [OF inv] assms(4) by (auto simp: logged_def alloc_sized_def)
      then show ?thesis
        using log_ops_dropped [of st this c km g pid] inv c Some st' nolog with_record_inv [OF inv] by auto
    qed
  qed
  then show "log_inv st'" and "if logged km st c
    then \<exists>rec. is_record pid c (next_id st + 1) rec \<and> trace st' = trace st @ rec
    else trace st' = trace st" by simp_all
qed

subsection \<open>The overflow of the link record\<close>

lemma link_overflows:
  assumes d: "name_ok d" "name_ok e" "qlen d + 3 < qlen e"
    and en: "bit (bitmap this) TRFS_OP_LINK"
    and g: "km (requests (heap st)) (call_size (T_link d e ret)) = Some g"
      "length g = call_size (T_link d e ret)"
  shows "log_ops km pid this (T_link d e ret) st = None"
proof -
  define fill where "fill rid =
    [setf trfs_link_op F_r_id (uint (rid :: u32)), setf trfs_link_op F_r_type 3,
     setf trfs_link_op F_r_size (2 * int (qlen d) + 24), setf trfs_link_op F_plen (int (qlen d)),
     setf trfs_link_op F_hlen (int (qlen d)), setf trfs_link_op F_ret ret, strcpy 20 (qname d),
     strcpy (20 + qlen d) (qname e)]" for rid
  have "(20 + qlen d, qname e @ [0]) \<in> set (fill rid)" for rid
    using d(2) by (simp add: fill_def strcpy_def)
  then have over: "stores (fill rid) g = None" for rid
    by (rule stores_NoneI) (use d g name_lens [OF d(2)] in simp)
  have sz: "call_size (T_link d e ret) < 2 ^ 31" using d(1) by (simp add: name_ok_def)
  have "log_ops km pid this (T_link d e ret) st =
      log_record km (int (call_size (T_link d e ret))) (\<lambda>rid. Some (fill rid)) st"
    using en name_lens [OF d(1)]
    by (simp add: trfs_log_link_op_def call_simps d(1) test_bit_set_bit fill_def)
  also have "\<dots> = None" using g(1) sz over by (rule log_record_faults)
  finally show ?thesis .
qed

lemma log_ops_fault_iff:
  assumes inv: "log_inv st" and c: "call_wf c" "bit (bitmap this) (call_bit c)"
    and g: "km (requests (heap st)) (call_size c) = Some g" "length g = call_size c"
  shows "log_ops km pid this c st = None \<longleftrightarrow> \<not> call_fits c"
proof (cases "call_fits c")
  case True
  then obtain rec where rec: "log_ops km pid this c st =
      TRFS_WRITE (Suc (requests (heap st))) (int (call_size c)) (with_record rec st)"
    using log_ops_built [of c this km st g pid] c g by blast
  have "log_q_ready (mq (with_record rec st))" "0 < call_size c" "call_size c < 2 ^ 31"
    "length (log_queue (with_record rec st)) \<le> 1024"
    using inv c call_size_pos [of c] queue_bounded [OF inv] with_record_inv [OF inv]
    by (auto simp: log_inv_def call_wf_def)
  then have "TRFS_WRITE (Suc (requests (heap st))) (int (call_size c)) (with_record rec st) \<noteq> None"
    using TRFS_WRITE_room [of "with_record rec st" "Suc (requests (heap st))" "call_size c"]
      TRFS_WRITE_full [of "with_record rec st" "Suc (requests (heap st))" "call_size c"]
    by (cases "length (log_queue (with_record rec st)) = 1024") auto
  with True rec show ?thesis by simp
next
  case False
  then obtain d e ret where "c = T_link d e ret" "qlen d + 3 < qlen e" by (cases c) auto
  with c g False link_overflows [of d e this km st ret g pid] show ?thesis by (simp add: call_wf_def)
qed

section \<open>Properties\<close>

text \<open>A trace call of the tests below: making the directory \<open>a\<close>.\<close>

definition sample_call :: trace_call where
  "sample_call = T_mkdir \<lparr>qname = [97], qlen = 1\<rparr> 511 0"

definition sample_driver :: trfs_log_driver where
  "sample_driver = \<lparr>drv_pid = 0, bitmap = - 1\<rparr>"

lemma sample_call_ok: "call_ok sample_driver sample_call"
  by (simp add: call_ok_def sample_call_def sample_driver_def call_wf_def name_ok_def)

text \<open>C12: A traced call whose bit is set, when memory and room in the queue are there, queues
  exactly one record: it carries the next number, the header the replayer looks for (its size in
  16 bits and its type) and the arguments of the call, and the rest of the log is unchanged.\<close>

theorem traced_call_queues_its_record:
  assumes "log_inv st" and "call_ok this c" and "next_id st + 1 \<noteq> 127" and "logged km st c"
    and "alloc_sized km"
  shows "\<exists>st' rec. log_ops km pid this c st = Some st' \<and> log_inv st' \<and> next_id st' = next_id st + 1 \<and>
    is_record pid c (next_id st + 1) rec \<and> trace st' = trace st @ rec \<and>
    queued st' = queued st @ [rec] \<and> thr st' = thr st \<and> tlw st' = tlw st"
  using log_ops_queued [OF assms] .

theorem traced_call_queues_its_record_witness:
  "\<exists>st' rec. log_ops sample_alloc 7 sample_driver sample_call sample_log = Some st' \<and>
     is_record 7 sample_call 2 rec \<and> queued st' = [rec]"
  using traced_call_queues_its_record [OF sample_log_inv sample_call_ok _ _ sample_alloc_sized, of 7]
  by (fastforce simp: sample_log_facts logged_def sample_alloc_def queued_def)

text \<open>C13: No operation writes outside the block it allocated, except \<open>link\<close>, and \<open>link\<close> exactly
  when the new name is more than three characters longer than the old one.\<close>

theorem record_overflow_iff_long_link:
  assumes "log_inv st" and "call_wf c" and "bit (bitmap this) (call_bit c)"
    and "km (requests (heap st)) (call_size c) = Some g" and "length g = call_size c"
  shows "log_ops km pid this c st = None \<longleftrightarrow> \<not> call_fits c"
  using log_ops_fault_iff [OF assms(1-3), of km g pid] assms(4,5) by simp

theorem record_overflow_iff_long_link_witness:
  "log_ops sample_alloc 7 sample_driver
     (T_link \<lparr>qname = [97], qlen = 1\<rparr> \<lparr>qname = [98, 98, 98, 98, 98], qlen = 5\<rparr> 0) sample_log = None \<and>
   log_ops sample_alloc 7 sample_driver
     (T_link \<lparr>qname = [97], qlen = 1\<rparr> \<lparr>qname = [98, 98, 98, 98], qlen = 4\<rparr> 0) sample_log \<noteq> None"
proof
  let ?c = "\<lambda>n. T_link \<lparr>qname = [97], qlen = 1\<rparr> \<lparr>qname = replicate n 98, qlen = n\<rparr> 0"
  have "log_ops sample_alloc 7 sample_driver (?c n) sample_log = None \<longleftrightarrow> \<not> call_fits (?c n)"
    if "n \<le> 5" for n
    by (rule record_overflow_iff_long_link [OF sample_log_inv])
      (use that in \<open>auto simp: sample_alloc_def sample_driver_def call_wf_def name_ok_def\<close>)
  from this [of 5] this [of 4]
  show "log_ops sample_alloc 7 sample_driver
     (T_link \<lparr>qname = [97], qlen = 1\<rparr> \<lparr>qname = [98, 98, 98, 98, 98], qlen = 5\<rparr> 0) sample_log = None"
   "log_ops sample_alloc 7 sample_driver
     (T_link \<lparr>qname = [97], qlen = 1\<rparr> \<lparr>qname = [98, 98, 98, 98], qlen = 4\<rparr> 0) sample_log \<noteq> None"
    by (simp_all add: numeral_eq_Suc)
qed

end
