(* ===== verification/Vfs.thy ===== *)
theory Vfs
  imports Log_Ops "HOL-Library.Monad_Syntax" "HOL-Library.Multiset"
begin

section \<open>The file system between the kernel and the lower file system (trfs/trfs.h)\<close>

text \<open>
  The state in which the operations of the stackable file system run, and the helpers of
  \<^verbatim>\<open>trfs.h\<close> they share.

  The kernel (its VFS layer, the lower file system, the allocator) is a parameter \<open>kern\<close>: a
  function that for every call the module makes gives the result and the kernel's objects
  afterwards. It may change these objects in any way, so that other processes are covered as
  well. The fields of kernel structures that the module reads or writes itself are records
  (\<open>inode\<close>, \<open>dentry\<close>, \<open>vfile\<close>, \<open>super_block\<close>); what the module owns (the private data of
  dentries, files and the superblock, the log driver and the log) is state that only the module
  changes. Every call is appended to \<open>events\<close>, so that theorems can speak of the order of calls
  and of what is acquired and released.

  A pointer is the signed reading of its 64 bits, so that \<open>ERR_PTR(-e)\<close> is the integer \<open>- e\<close>
  and a null pointer is 0. Following a pointer that is not valid is a memory fault, the outcome
  \<open>None\<close>, as is the use of the log driver when there is none.
\<close>

unbundle bit_operations_syntax



subsection \<open>Pointers\<close>

type_synonym kaddr = int

definition IS_ERR :: "kaddr \<Rightarrow> bool" where
  "IS_ERR p \<longleftrightarrow> - 4095 \<le> p \<and> p < 0"

definition valid :: "kaddr \<Rightarrow> bool" where
  "valid p \<longleftrightarrow> p \<noteq> 0 \<and> \<not> IS_ERR p"

subsection \<open>The kernel's objects\<close>

record path =
  pdentry :: kaddr
  pmnt :: kaddr

text \<open>The entries of the operation tables.\<close>

datatype iop =
  I_create | I_lookup | I_link | I_unlink | I_symlink | I_mkdir | I_rmdir | I_mknod | I_rename |
  I_readlink | I_get_link | I_permission | I_setattr | I_getattr | I_setxattr | I_getxattr |
  I_listxattr | I_removexattr

datatype fop =
  FO_llseek | FO_read | FO_write | FO_iterate | FO_unlocked_ioctl | FO_compat_ioctl | FO_mmap | FO_open |
  FO_flush | FO_release | FO_fsync | FO_fasync | FO_read_iter | FO_write_iter

text \<open>Which function an entry of a table of file operations holds: the module's, one of the kernel's, the lower file system's.\<close>

datatype fimpl = Trfs | Generic_file_llseek | Generic_read_dir | Lower

datatype aops = Trfs_aops | Other_aops bool \<comment> \<open>whether there is a \<open>writepage\<close>\<close>

text \<open>\<open>lower_inode\<close> is the other field of the \<open>struct trfs_inode_info\<close> around the inode.\<close>

record inode =
  lower_inode :: kaddr
  i_ino :: nat
  i_mode :: u32
  i_rdev :: u32
  i_nlink :: nat
  i_size :: int
  i_atime :: int
  i_mtime :: int
  i_ctime :: int
  i_version :: nat
  i_new :: bool
  i_sb :: kaddr
  i_op :: "iop list option"
  i_fop :: "(fop \<times> fimpl) list"
  i_aops :: aops

record dentry =
  d_inode :: kaddr
  d_parent :: kaddr
  d_sb :: kaddr
  d_name :: qstr
  d_flags :: u32
  d_unhashed :: bool
  d_op_set :: bool

record vfile =
  f_dentry :: kaddr
  f_inode :: kaddr
  f_flags :: u32
  f_mode :: u32
  f_pos :: int
  f_op :: "(fop \<times> fimpl) list option"
  f_aops :: aops

record super_block =
  s_maxbytes :: int
  s_time_gran :: nat
  s_ops_set :: bool
  s_root :: kaddr
  s_umount_begin :: bool

text \<open>
  \<open>outp\<close> and \<open>outn\<close> are the memory that a callee fills through a pointer argument: a path, a
  number of blocks. \<open>world\<close> is the rest of the kernel.
\<close>

record 'k kobjs =
  inodes :: "kaddr \<Rightarrow> inode"
  dentries :: "kaddr \<Rightarrow> dentry"
  files :: "kaddr \<Rightarrow> vfile"
  supers :: "kaddr \<Rightarrow> super_block"
  outp :: path
  outn :: int
  world :: 'k

record iattr =
  ia_valid :: u32
  ia_size :: int
  ia_file :: kaddr

subsection \<open>The calls the module makes\<close>

text \<open>Calls that acquire or release a reference, a lock or a block of memory.\<close>

datatype (plugins only: code size) ref_call =
    R_path_get path
  | R_path_put path
  | R_dget kaddr
  | R_dput kaddr
  | R_dget_parent kaddr
  | R_mntget kaddr
  | R_spin_lock kaddr
  | R_spin_unlock kaddr
  | R_inode_lock kaddr
  | R_inode_unlock kaddr
  | R_lock_rename kaddr kaddr
  | R_unlock_rename kaddr kaddr
  | R_iget5_locked kaddr nat kaddr
  | R_igrab kaddr
  | R_iput kaddr
  | R_d_splice_alias kaddr kaddr
  | R_d_make_root kaddr
  | R_vfs_path_lookup kaddr kaddr bytes
  | R_kern_path bytes
  | R_d_lookup kaddr bytes
  | R_d_alloc kaddr bytes
  | R_dentry_open path u32
  | R_get_file kaddr
  | R_fput kaddr
  | R_s_active_inc kaddr
  | R_s_active_dec kaddr
  | R_alloc nat
  | R_free kaddr

text \<open>The calls that change a directory of the lower file system.\<close>

datatype (plugins only: code size) dir_call =
    C_vfs_create kaddr kaddr u32 bool
  | C_vfs_link kaddr kaddr kaddr
  | C_vfs_unlink kaddr kaddr
  | C_vfs_symlink kaddr kaddr bytes
  | C_vfs_mkdir kaddr kaddr u32
  | C_vfs_rmdir kaddr kaddr
  | C_vfs_mknod kaddr kaddr u32 u32
  | C_vfs_rename kaddr kaddr kaddr kaddr

text \<open>The calls about attributes and symbolic links.\<close>

datatype (plugins only: code size) attr_call =
    C_readlink kaddr int
  | C_inode_permission kaddr int
  | C_inode_change_ok kaddr iattr
  | C_inode_newsize_ok kaddr int
  | C_truncate_setsize kaddr int
  | C_notify_change kaddr iattr
  | C_vfs_getattr path
  | C_generic_fillattr kaddr
  | C_vfs_setxattr kaddr bytes bytes nat int
  | C_vfs_getxattr kaddr bytes nat
  | C_vfs_listxattr kaddr nat
  | C_vfs_removexattr kaddr bytes

text \<open>The calls that maintain the kernel's own objects.\<close>

datatype (plugins only: code size) node_call =
    C_copy_attr_all kaddr kaddr
  | C_copy_attr_times kaddr kaddr
  | C_copy_attr_atime kaddr kaddr
  | C_copy_inode_size kaddr kaddr
  | C_set_nlink kaddr nat
  | C_clear_nlink kaddr
  | C_i_size_write kaddr int
  | C_d_drop kaddr
  | C_d_add kaddr
  | C_d_rehash kaddr
  | C_init_special_inode kaddr u32 u32
  | C_unlock_new_inode kaddr
  | C_d_revalidate kaddr u32
  | C_vfs_statfs path
  | C_truncate_inode_pages kaddr
  | C_clear_inode kaddr
  | C_umount_begin kaddr
  | C_ilookup kaddr nat
  | C_inode_init_once kaddr

text \<open>The calls about open files.\<close>

datatype (plugins only: code size) file_call =
    C_vfs_read kaddr nat int
  | C_vfs_write kaddr bytes nat int
  | C_iterate_dir kaddr
  | C_lower_ioctl kaddr fop nat nat
  | C_lower_mmap kaddr kaddr
  | C_file_accessed kaddr
  | C_filemap_write_and_wait kaddr
  | C_lower_flush kaddr kaddr
  | C_generic_file_fsync kaddr int int int
  | C_vfs_fsync_range kaddr int int int
  | C_lower_fasync int kaddr int
  | C_generic_file_llseek kaddr int int
  | C_read_iter kaddr kaddr
  | C_write_iter kaddr kaddr
  | C_lower_fault kaddr kaddr
  | C_lower_page_mkwrite kaddr kaddr

datatype kcall = Ref ref_call | Dir dir_call | Attr attr_call | Node node_call | File file_call

text \<open>
  The environment: the kernel, the allocator of the log, the number of the process. An event is a
  call with its result and the path it stored, or a call of the tracer.
\<close>

record 'k env =
  kern :: "kcall \<Rightarrow> 'k kobjs \<Rightarrow> int \<times> 'k kobjs"
  kmal :: allocator
  cur_pid :: int

datatype event = Call kcall int path | Traced trace_call

subsection \<open>What the module owns\<close>

record trfs_file_info =
  lower_file :: kaddr
  lower_vm_ops :: kaddr

record trfs_dentry_info =
  lower_path :: path

record trfs_sb_info =
  lower_sb :: kaddr

record 'k vfs =
  ko :: "'k kobjs"
  d_fsdata :: "kaddr \<Rightarrow> kaddr" \<comment> \<open>of a dentry\<close>
  dinfos :: "kaddr \<rightharpoonup> trfs_dentry_info"
  private_data :: "kaddr \<Rightarrow> kaddr" \<comment> \<open>of a file\<close>
  finfos :: "kaddr \<rightharpoonup> trfs_file_info"
  s_fs_info :: "kaddr \<Rightarrow> kaddr" \<comment> \<open>of a superblock\<close>
  sinfos :: "kaddr \<rightharpoonup> trfs_sb_info"
  tld :: "trfs_log_driver option"
  klg :: klog
  events :: "event list"

type_synonym 'k op = "'k vfs \<Rightarrow> (int \<times> 'k vfs) option"

text \<open>A call of the kernel that follows the pointers \<open>ps\<close>.\<close>

definition invoke :: "'k env \<Rightarrow> kaddr list \<Rightarrow> kcall \<Rightarrow> 'k op" where
  "invoke E ps c s =
     (if list_all valid ps then
        (let r = fst (kern E c (ko s)); k = snd (kern E c (ko s)) in
         Some (r, s\<lparr>ko := k, events := events s @ [Call c r (outp k)]\<rparr>))
      else None)"

definition invoke_void :: "'k env \<Rightarrow> kaddr list \<Rightarrow> kcall \<Rightarrow> 'k vfs \<Rightarrow> 'k vfs option" where
  "invoke_void E ps c s = map_option snd (invoke E ps c s)"

text \<open>\<open>tld->ops->trace_...\<close>: the log driver is followed without a test.\<close>

definition trace_op :: "'k env \<Rightarrow> trace_call \<Rightarrow> 'k vfs \<Rightarrow> 'k vfs option" where
  "trace_op E c s =
     (case tld s of
        None \<Rightarrow> None
      | Some drv \<Rightarrow>
          (case log_ops (kmal E) (cur_pid E) drv c (klg s) of
             None \<Rightarrow> None
           | Some l \<Rightarrow> Some (s\<lparr>klg := l, events := events s @ [Traced c]\<rparr>)))"

subsection \<open>Reading fields\<close>

definition inode_at :: "kaddr \<Rightarrow> 'k vfs \<Rightarrow> inode option" where
  "inode_at i s = (if valid i then Some (inodes (ko s) i) else None)"

definition dentry_at :: "kaddr \<Rightarrow> 'k vfs \<Rightarrow> dentry option" where
  "dentry_at d s = (if valid d then Some (dentries (ko s) d) else None)"

definition file_at :: "kaddr \<Rightarrow> 'k vfs \<Rightarrow> vfile option" where
  "file_at f s = (if valid f then Some (files (ko s) f) else None)"

definition set_inode :: "kaddr \<Rightarrow> (inode \<Rightarrow> inode) \<Rightarrow> 'k vfs \<Rightarrow> 'k vfs option" where
  "set_inode i g s =
     (if valid i then Some (s\<lparr>ko := (ko s)\<lparr>inodes := (inodes (ko s))(i := g (inodes (ko s) i))\<rparr>\<rparr>)
      else None)"

definition set_dentry :: "kaddr \<Rightarrow> (dentry \<Rightarrow> dentry) \<Rightarrow> 'k vfs \<Rightarrow> 'k vfs option" where
  "set_dentry d g s =
     (if valid d then Some (s\<lparr>ko := (ko s)\<lparr>dentries := (dentries (ko s))(d := g (dentries (ko s) d))\<rparr>\<rparr>)
      else None)"

definition set_file :: "kaddr \<Rightarrow> (vfile \<Rightarrow> vfile) \<Rightarrow> 'k vfs \<Rightarrow> 'k vfs option" where
  "set_file f g s =
     (if valid f then Some (s\<lparr>ko := (ko s)\<lparr>files := (files (ko s))(f := g (files (ko s) f))\<rparr>\<rparr>)
      else None)"

definition set_super :: "kaddr \<Rightarrow> (super_block \<Rightarrow> super_block) \<Rightarrow> 'k vfs \<Rightarrow> 'k vfs option" where
  "set_super b g s =
     (if valid b then Some (s\<lparr>ko := (ko s)\<lparr>supers := (supers (ko s))(b := g (supers (ko s) b))\<rparr>\<rparr>)
      else None)"

text \<open>What the tracer is told of a dentry and of a file.\<close>

definition dname :: "kaddr \<Rightarrow> 'k vfs \<Rightarrow> qstr" where
  "dname d s = d_name (dentries (ko s) d)"

definition trfile_of :: "kaddr \<Rightarrow> 'k vfs \<Rightarrow> trfile" where
  "trfile_of f s =
     (let fl = files (ko s) f in
      \<lparr>fl_addr = nat (f mod 2 ^ 64), fl_name = dname (f_dentry fl) s, fl_flags = f_flags fl,
       fl_mode = f_mode fl\<rparr>)"

subsection \<open>The helpers of trfs.h\<close>

definition TRFS_D :: "kaddr \<Rightarrow> 'k vfs \<Rightarrow> trfs_dentry_info option" where
  "TRFS_D dent s = (if valid dent then dinfos s (d_fsdata s dent) else None)"

definition TRFS_SB :: "kaddr \<Rightarrow> 'k vfs \<Rightarrow> trfs_sb_info option" where
  "TRFS_SB sb s = (if valid sb then sinfos s (s_fs_info s sb) else None)"

definition TRFS_F :: "kaddr \<Rightarrow> 'k vfs \<Rightarrow> trfs_file_info option" where
  "TRFS_F f s = (if valid f then finfos s (private_data s f) else None)"

definition trfs_lower_file :: "kaddr \<Rightarrow> 'k vfs \<Rightarrow> kaddr option" where
  "trfs_lower_file f s = map_option lower_file (TRFS_F f s)"

definition trfs_set_lower_file :: "kaddr \<Rightarrow> kaddr \<Rightarrow> 'k vfs \<Rightarrow> 'k vfs option" where
  "trfs_set_lower_file f v s =
     map_option (\<lambda>info. s\<lparr>finfos := (finfos s)(private_data s f \<mapsto> info\<lparr>lower_file := v\<rparr>)\<rparr>) (TRFS_F f s)"

definition trfs_lower_inode :: "kaddr \<Rightarrow> 'k vfs \<Rightarrow> kaddr option" where
  "trfs_lower_inode i s = map_option lower_inode (inode_at i s)"

definition trfs_set_lower_inode :: "kaddr \<Rightarrow> kaddr \<Rightarrow> 'k vfs \<Rightarrow> 'k vfs option" where
  "trfs_set_lower_inode i v = set_inode i (\<lambda>x. x\<lparr>lower_inode := v\<rparr>)"

definition trfs_lower_super :: "kaddr \<Rightarrow> 'k vfs \<Rightarrow> kaddr option" where
  "trfs_lower_super sb s = map_option lower_sb (TRFS_SB sb s)"

definition trfs_set_lower_super :: "kaddr \<Rightarrow> kaddr \<Rightarrow> 'k vfs \<Rightarrow> 'k vfs option" where
  "trfs_set_lower_super sb v s =
     map_option (\<lambda>info. s\<lparr>sinfos := (sinfos s)(s_fs_info s sb \<mapsto> info\<lparr>lower_sb := v\<rparr>)\<rparr>) (TRFS_SB sb s)"

text \<open>\<open>pathcpy\<close> to a path of the caller and to that of a dentry.\<close>

definition pathcpy :: "path \<Rightarrow> path \<Rightarrow> path" where
  "pathcpy dst src = dst\<lparr>pdentry := pdentry src, pmnt := pmnt src\<rparr>"

definition store_path :: "kaddr \<Rightarrow> path \<Rightarrow> 'k vfs \<Rightarrow> 'k vfs option" where
  "store_path dent src s =
     map_option (\<lambda>info. s\<lparr>dinfos := (dinfos s)(d_fsdata s dent \<mapsto>
        info\<lparr>lower_path := pathcpy (lower_path info) src\<rparr>)\<rparr>) (TRFS_D dent s)"

definition null_path :: path where
  "null_path = \<lparr>pdentry = 0, pmnt = 0\<rparr>"

definition trfs_get_lower_path :: "'k env \<Rightarrow> kaddr \<Rightarrow> 'k vfs \<Rightarrow> (path \<times> 'k vfs) option" where
  "trfs_get_lower_path E dent s = do {
     _ \<leftarrow> TRFS_D dent s;
     s \<leftarrow> invoke_void E [] (Ref (R_spin_lock dent)) s;
     info \<leftarrow> TRFS_D dent s;
     let lp = pathcpy null_path (lower_path info);
     s \<leftarrow> invoke_void E [] (Ref (R_path_get lp)) s;
     s \<leftarrow> invoke_void E [] (Ref (R_spin_unlock dent)) s;
     Some (lp, s)
   }"

definition trfs_put_lower_path :: "'k env \<Rightarrow> kaddr \<Rightarrow> path \<Rightarrow> 'k vfs \<Rightarrow> 'k vfs option" where
  "trfs_put_lower_path E dent lp s = invoke_void E [] (Ref (R_path_put lp)) s"

definition trfs_set_lower_path :: "'k env \<Rightarrow> kaddr \<Rightarrow> path \<Rightarrow> 'k vfs \<Rightarrow> 'k vfs option" where
  "trfs_set_lower_path E dent lp s = do {
     _ \<leftarrow> TRFS_D dent s;
     s \<leftarrow> invoke_void E [] (Ref (R_spin_lock dent)) s;
     s \<leftarrow> store_path dent lp s;
     invoke_void E [] (Ref (R_spin_unlock dent)) s
   }"

definition trfs_reset_lower_path :: "'k env \<Rightarrow> kaddr \<Rightarrow> 'k vfs \<Rightarrow> 'k vfs option" where
  "trfs_reset_lower_path E dent s = do {
     _ \<leftarrow> TRFS_D dent s;
     s \<leftarrow> invoke_void E [] (Ref (R_spin_lock dent)) s;
     s \<leftarrow> store_path dent null_path s;
     invoke_void E [] (Ref (R_spin_unlock dent)) s
   }"

definition trfs_put_reset_lower_path :: "'k env \<Rightarrow> kaddr \<Rightarrow> 'k vfs \<Rightarrow> 'k vfs option" where
  "trfs_put_reset_lower_path E dent s = do {
     _ \<leftarrow> TRFS_D dent s;
     s \<leftarrow> invoke_void E [] (Ref (R_spin_lock dent)) s;
     info \<leftarrow> TRFS_D dent s;
     let lp = pathcpy null_path (lower_path info);
     s \<leftarrow> store_path dent null_path s;
     s \<leftarrow> invoke_void E [] (Ref (R_spin_unlock dent)) s;
     invoke_void E [] (Ref (R_path_put lp)) s
   }"

definition d_inode_of :: "kaddr \<Rightarrow> 'k vfs \<Rightarrow> kaddr option" where
  "d_inode_of d s = map_option d_inode (dentry_at d s)"

definition lock_parent :: "'k env \<Rightarrow> kaddr \<Rightarrow> 'k vfs \<Rightarrow> (kaddr \<times> 'k vfs) option" where
  "lock_parent E dentry s = do {
     (dir, s) \<leftarrow> invoke E [dentry] (Ref (R_dget_parent dentry)) s;
     i \<leftarrow> d_inode_of dir s;
     s \<leftarrow> invoke_void E [i] (Ref (R_inode_lock i)) s;
     Some (dir, s)
   }"

definition unlock_dir :: "'k env \<Rightarrow> kaddr \<Rightarrow> 'k vfs \<Rightarrow> 'k vfs option" where
  "unlock_dir E dir s = do {
     i \<leftarrow> d_inode_of dir s;
     s \<leftarrow> invoke_void E [i] (Ref (R_inode_unlock i)) s;
     invoke_void E [dir] (Ref (R_dput dir)) s
   }"

end
