(* ===== verification/Account.thy ===== *)
theory Account
  imports Vfs
begin

text \<open>
  What the operations of the file system hold and what they trace, read off the calls they make,
  and the rules by which it is shown of an operation step by step.
\<close>

section \<open>Specification vocabulary\<close>

subsection \<open>What is held\<close>

text \<open>
  The resources that calls acquire and release, after the documentation of the kernel functions:
  \<open>path_get\<close> takes a reference to the dentry and to the mount (nothing for a null pointer),
  \<open>dget_parent\<close>, \<open>d_lookup\<close>, \<open>d_alloc\<close>, \<open>iget5_locked\<close> and \<open>dentry_open\<close> return a
  reference, \<open>d_splice_alias\<close> and \<open>d_make_root\<close> consume the reference to the inode whether
  they succeed or not, a path lookup that succeeds fills in a path with references.
\<close>

datatype resource =
    Dentry_ref kaddr
  | Mnt_ref kaddr
  | Spin kaddr
  | Inode_lock kaddr
  | Rename_lock kaddr kaddr
  | File_ref kaddr
  | Inode_ref kaddr
  | Sb_active kaddr
  | Block kaddr

datatype move = Acq resource | Rel resource

primrec moved :: "move \<Rightarrow> resource" where
  "moved (Acq r) = r"
| "moved (Rel r) = r"

definition path_refs :: "path \<Rightarrow> resource list" where
  "path_refs p =
     (if pdentry p = 0 then [] else [Dentry_ref (pdentry p)]) @
     (if pmnt p = 0 then [] else [Mnt_ref (pmnt p)])"

fun ref_moves :: "ref_call \<Rightarrow> int \<Rightarrow> path \<Rightarrow> move list" where
  "ref_moves (R_path_get p) r out = map Acq (path_refs p)"
| "ref_moves (R_path_put p) r out = map Rel (path_refs p)"
| "ref_moves (R_dget d) r out = [Acq (Dentry_ref d)]"
| "ref_moves (R_dput d) r out = [Rel (Dentry_ref d)]"
| "ref_moves (R_dget_parent d) r out = [Acq (Dentry_ref r)]"
| "ref_moves (R_mntget m) r out = map Acq (path_refs \<lparr>pdentry = 0, pmnt = m\<rparr>)"
| "ref_moves (R_spin_lock d) r out = [Acq (Spin d)]"
| "ref_moves (R_spin_unlock d) r out = [Rel (Spin d)]"
| "ref_moves (R_inode_lock i) r out = [Acq (Inode_lock i)]"
| "ref_moves (R_inode_unlock i) r out = [Rel (Inode_lock i)]"
| "ref_moves (R_lock_rename d e) r out = [Acq (Rename_lock d e)]"
| "ref_moves (R_unlock_rename d e) r out = [Rel (Rename_lock d e)]"
| "ref_moves (R_iget5_locked sb n i) r out = (if r \<noteq> 0 then [Acq (Inode_ref r)] else [])"
| "ref_moves (R_igrab i) r out = (if r \<noteq> 0 then [Acq (Inode_ref i)] else [])"
| "ref_moves (R_iput i) r out = [Rel (Inode_ref i)]"
| "ref_moves (R_d_splice_alias i d) r out = [Rel (Inode_ref i)]"
| "ref_moves (R_d_make_root i) r out = Rel (Inode_ref i) # (if r \<noteq> 0 then [Acq (Dentry_ref r)] else [])"
| "ref_moves (R_vfs_path_lookup d m n) r out = (if r = 0 then map Acq (path_refs out) else [])"
| "ref_moves (R_kern_path n) r out = (if r = 0 then map Acq (path_refs out) else [])"
| "ref_moves (R_d_lookup d n) r out = (if r \<noteq> 0 then [Acq (Dentry_ref r)] else [])"
| "ref_moves (R_d_alloc d n) r out = (if r \<noteq> 0 then [Acq (Dentry_ref r)] else [])"
| "ref_moves (R_dentry_open p fl) r out = (if valid r then [Acq (File_ref r)] else [])"
| "ref_moves (R_get_file f) r out = [Acq (File_ref f)]"
| "ref_moves (R_fput f) r out = [Rel (File_ref f)]"
| "ref_moves (R_s_active_inc b) r out = [Acq (Sb_active b)]"
| "ref_moves (R_s_active_dec b) r out = [Rel (Sb_active b)]"
| "ref_moves (R_alloc n) r out = (if r \<noteq> 0 then [Acq (Block r)] else [])"
| "ref_moves (R_free p) r out = [Rel (Block p)]"

fun event_moves :: "event \<Rightarrow> move list" where
  "event_moves (Call (Ref c) r out) = ref_moves c r out"
| "event_moves _ = []"

text \<open>The account: a release of what is not held is \<open>None\<close>.\<close>

fun settle :: "move list \<Rightarrow> resource multiset \<Rightarrow> resource multiset option" where
  "settle [] M = Some M"
| "settle (Acq r # ms) M = settle ms (add_mset r M)"
| "settle (Rel r # ms) M = (if r \<in># M then settle ms (M - {#r#}) else None)"

definition held :: "'k vfs \<Rightarrow> resource multiset option" where
  "held s = settle (concat (map event_moves (events s))) {#}"

text \<open>
  The account without the references that live on in the kernel's objects: those of a file
  system's inodes to lower inodes, of the superblock, and private data.
\<close>

primrec transient :: "resource \<Rightarrow> bool" where
  "transient (Dentry_ref d) = True"
| "transient (Mnt_ref m) = True"
| "transient (Spin d) = True"
| "transient (Inode_lock i) = True"
| "transient (Rename_lock d e) = True"
| "transient (File_ref f) = True"
| "transient (Inode_ref i) = False"
| "transient (Sb_active b) = False"
| "transient (Block p) = False"

definition pins :: "'k vfs \<Rightarrow> resource multiset option" where
  "pins s = settle (filter (transient \<circ> moved) (concat (map event_moves (events s)))) {#}"

subsection \<open>What is traced\<close>

fun event_traced :: "event \<Rightarrow> trace_call list" where
  "event_traced (Traced c) = [c]"
| "event_traced _ = []"

definition traced :: "'k vfs \<Rightarrow> trace_call list" where
  "traced s = concat (map event_traced (events s))"

fun log_all :: "'k env \<Rightarrow> trfs_log_driver option \<Rightarrow> trace_call list \<Rightarrow> klog \<Rightarrow> klog option" where
  "log_all E drv [] l = Some l"
| "log_all E drv (c # cs) l =
     (case drv of
        None \<Rightarrow> None
      | Some d \<Rightarrow>
          (case log_ops (kmal E) (cur_pid E) d c l of None \<Rightarrow> None | Some l' \<Rightarrow> log_all E drv cs l'))"

text \<open>The return value that a call of the tracer reports.\<close>

fun call_ret :: "trace_call \<Rightarrow> int" where
  "call_ret (T_open _ r) = r"
| "call_ret (T_read _ _ _ r) = r"
| "call_ret (T_write _ _ _ _ r) = r"
| "call_ret (T_close _ r) = r"
| "call_ret (T_mkdir _ _ r) = r"
| "call_ret (T_rmdir _ r) = r"
| "call_ret (T_unlink _ r) = r"
| "call_ret (T_link _ _ r) = r"
| "call_ret (T_symlink _ _ r) = r"
| "call_ret (T_mknod _ _ _ r) = r"
| "call_ret (T_rename _ _ r) = r"
| "call_ret (T_setxattr _ _ _ _ _ r) = r"
| "call_ret (T_getxattr _ _ _ r) = r"
| "call_ret (T_listxattr _ _ r) = r"
| "call_ret (T_removexattr _ _ r) = r"

subsection \<open>What is relied on of the kernel\<close>

text \<open>
  A positive dentry keeps its inode: the dentries whose inodes the module reads are those it
  has pinned, and a pinned positive dentry is unhashed by a removal, not turned negative.
\<close>

definition stable :: "'k env \<Rightarrow> bool" where
  "stable E \<longleftrightarrow>
     (\<forall>c k d. d_inode (dentries k d) \<noteq> 0 \<longrightarrow>
        d_inode (dentries (snd (kern E c k)) d) = d_inode (dentries k d))"

text \<open>
  \<open>since E s0 s M D T W\<close>: what is known in state \<open>s\<close> of an operation that began in \<open>s0\<close>: it
  holds the transient resources \<open>M\<close> besides those held at the beginning; the dentries in \<open>D\<close>
  still have the inodes noted there; the calls \<open>T\<close> have been traced, and the log is what they
  made of it; the module's own memory is that of \<open>W\<close>.
\<close>

definition own ::
  "'k vfs \<Rightarrow> (kaddr \<Rightarrow> kaddr) \<times> (kaddr \<rightharpoonup> trfs_dentry_info) \<times> (kaddr \<Rightarrow> kaddr) \<times>
     (kaddr \<rightharpoonup> trfs_file_info) \<times> (kaddr \<Rightarrow> kaddr) \<times> (kaddr \<rightharpoonup> trfs_sb_info)" where
  "own s = (d_fsdata s, dinfos s, private_data s, finfos s, s_fs_info s, sinfos s)"

definition since ::
  "'k env \<Rightarrow> 'k vfs \<Rightarrow> 'k vfs \<Rightarrow> resource multiset \<Rightarrow> (kaddr \<times> kaddr) list \<Rightarrow>
   trace_call list \<Rightarrow> 'k vfs \<Rightarrow> bool" where
  "since E s0 s M D T W \<longleftrightarrow>
     (\<forall>R. pins s0 = Some R \<longrightarrow> pins s = Some (R + M)) \<and>
     list_all (\<lambda>(d, i). valid i \<and> d_inode (dentries (ko s) d) = i) D \<and>
     tld s = tld s0 \<and> traced s = traced s0 @ T \<and> log_all E (tld s0) T (klg s0) = Some (klg s) \<and>
     own s = own W"

text \<open>\<open>after x Q\<close>: when \<open>x\<close> returns, its result satisfies \<open>Q\<close>.\<close>

definition after :: "'a option \<Rightarrow> ('a \<Rightarrow> bool) \<Rightarrow> bool" where
  "after x Q \<longleftrightarrow> (\<forall>v. x = Some v \<longrightarrow> Q v)"

section \<open>Lemmas\<close>

subsection \<open>The account\<close>

lemma settle_append: "settle (xs @ ys) M = Option.bind (settle xs M) (settle ys)"
  by (induction xs M rule: settle.induct) auto

lemma settle_frame: "settle ms M = Some N \<Longrightarrow> settle ms (R + M) = Some (R + N)"
  by (induction ms M arbitrary: N rule: settle.induct) (auto split: if_splits)

lemma settle_acq: "settle (map Acq rs) M = Some (M + mset rs)"
  by (induction rs arbitrary: M) auto

lemma settle_rel: "settle (map Rel rs) (M + mset rs) = Some M"
  by (induction rs arbitrary: M) auto

lemma transient_path [simp]:
  "filter (transient \<circ> moved) (map Acq (path_refs p)) = map Acq (path_refs p)"
  "filter (transient \<circ> moved) (map Rel (path_refs p)) = map Rel (path_refs p)"
  by (simp_all add: path_refs_def)

subsection \<open>Rules for sequences of steps\<close>

lemma after_Some [simp]: "after (Some v) Q \<longleftrightarrow> Q v"
  by (simp add: after_def)

lemma after_None [simp]: "after None Q"
  by (simp add: after_def)

lemma after_bind [simp]: "after (Option.bind x f) Q \<longleftrightarrow> after x (\<lambda>v. after (f v) Q)"
  by (cases x) (simp_all add: after_def)

lemma after_bindI: "(\<And>v. x = Some v \<Longrightarrow> after (f v) Q) \<Longrightarrow> after (Option.bind x f) Q"
  by (cases x) simp_all

lemma after_map [simp]: "after (map_option f x) Q \<longleftrightarrow> after x (Q \<circ> f)"
  by (cases x) (simp_all add: after_def)

lemma after_mono: "after x P \<Longrightarrow> (\<And>v. P v \<Longrightarrow> Q v) \<Longrightarrow> after x Q"
  by (simp add: after_def)

lemma afterD: "after x Q \<Longrightarrow> x = Some v \<Longrightarrow> Q v"
  by (simp add: after_def)

lemma since_refl: "since E s s {#} [] [] s"
  by (simp add: since_def)

lemma since_forget: "since E s0 s M D T W \<Longrightarrow> since E s0 s M [] T W"
  by (simp add: since_def)

lemma log_all_snoc:
  "log_all E drv cs l = Some l' \<Longrightarrow> log_all E drv (cs @ [c]) l = log_all E drv [c] l'"
  by (induction cs arbitrary: l) (auto split: option.splits)

lemma log_all_append:
  "log_all E drv (cs @ ds) l = Option.bind (log_all E drv cs l) (log_all E drv ds)"
  by (induction cs arbitrary: l) (auto split: option.splits)

lemma since_trans:
  assumes "since E s0 s1 M D T W" and "since E s1 s2 N D' T' W'"
  shows "since E s0 s2 (M + N) [] (T @ T') W'"
  using assms unfolding since_def by (simp add: log_all_append add.assoc)

text \<open>A call of the kernel changes the account by its moves and nothing else that \<open>since\<close> speaks of.\<close>

lemma since_invoke:
  assumes "stable E" and "since E s0 s M D T W" and "invoke E ps c s = Some (r, s')"
    and "settle (filter (transient \<circ> moved) (event_moves (Call c r (outp (ko s'))))) M = Some N"
  shows "since E s0 s' N D T W"
proof -
  have s': "s' = s\<lparr>ko := ko s', events := events s @ [Call c r (outp (ko s'))]\<rparr>"
    "ko s' = snd (kern E c (ko s))"
    using assms(3) by (auto simp: invoke_def Let_def split: if_splits)
  have "list_all (\<lambda>(d, i). valid i \<and> d_inode (dentries (ko s') d) = i) D"
    using assms(1,2) unfolding since_def stable_def s'(2) by (auto simp: list_all_iff valid_def)
  moreover have "traced s' = traced s" by (subst s'(1)) (simp add: traced_def)
  moreover have "pins s' = Some (R + N)" if "pins s = Some (R + M)" for R
    using that settle_frame [OF assms(4), of R] by (subst s'(1)) (simp add: pins_def settle_append del: event_moves.simps)
  moreover have "tld s' = tld s" "klg s' = klg s" "own s' = own s"
    by (subst s'(1), simp add: own_def)+
  ultimately show ?thesis using assms(2) by (simp add: since_def)
qed

text \<open>The moves of the calls, without those that are not transient.\<close>

definition keeps :: "kcall \<Rightarrow> bool" where
  "keeps c \<longleftrightarrow> (\<forall>r out. filter (transient \<circ> moved) (event_moves (Call c r out)) = [])"

lemma keeps_simps [simp]:
  "keeps (Dir dc)" "keeps (Attr ac)" "keeps (Node nc)" "keeps (File fc)"
  "keeps (Ref (R_iget5_locked sb n i))" "keeps (Ref (R_igrab i))" "keeps (Ref (R_iput i))"
  "keeps (Ref (R_d_splice_alias i d))" "keeps (Ref (R_s_active_inc b))" "keeps (Ref (R_s_active_dec b))"
  "keeps (Ref (R_alloc n))" "keeps (Ref (R_free p))"
  by (simp_all add: keeps_def)

lemma settle_keeps:
  "keeps c \<Longrightarrow> settle (filter (transient \<circ> moved) (event_moves (Call c r out))) M = Some M"
  by (simp add: keeps_def)

subsection \<open>One rule for each step\<close>

text \<open>
  The rules take an operation apart from the front: each says what remains to be shown of the
  rest of the operation, in the state after its first step.
\<close>

named_theorems steps \<comment> \<open>rules for the first step of an operation\<close>

named_theorems flow \<comment> \<open>those of them about the flow of control\<close>

lemma step_let [steps, flow]: "after (f e) Q \<Longrightarrow> after (Let e f) Q"
  by simp

lemma step_if [steps, flow]: "(b \<Longrightarrow> after x Q) \<Longrightarrow> (\<not> b \<Longrightarrow> after y Q) \<Longrightarrow> after (if b then x else y) Q"
  by simp

lemma step_bind_if [steps, flow]:
  "(b \<Longrightarrow> after (Option.bind x f) Q) \<Longrightarrow> (\<not> b \<Longrightarrow> after (Option.bind y f) Q) \<Longrightarrow>
   after (Option.bind (if b then x else y) f) Q"
  by simp

lemma step_bind_option [steps, flow]:
  "(x = None \<Longrightarrow> after (Option.bind a f) Q) \<Longrightarrow> (\<And>v. x = Some v \<Longrightarrow> after (Option.bind (b v) f) Q) \<Longrightarrow>
   after (Option.bind (case x of None \<Rightarrow> a | Some v \<Rightarrow> b v) f) Q"
  by (cases x) simp_all

lemma step_bind_let [steps, flow]: "after (Option.bind (g e) f) Q \<Longrightarrow> after (Option.bind (Let e g) f) Q"
  by simp

lemma step_bind_bind [steps, flow]:
  "after (Option.bind x (case_prod (\<lambda>a b. Option.bind (f a b) g))) Q \<Longrightarrow>
   after (Option.bind (Option.bind x (case_prod f)) g) Q"
  by (cases x) auto

lemma step_bind_bind1 [steps, flow]:
  "after (Option.bind x (\<lambda>v. Option.bind (f v) g)) Q \<Longrightarrow> after (Option.bind (Option.bind x f) g) Q"
  by (cases x) auto

lemma step_pair [steps, flow]: "after (f a b) Q \<Longrightarrow> after (Option.bind (Some (a, b)) (case_prod f)) Q"
  by simp

lemma step_value [steps, flow]: "after (f a) Q \<Longrightarrow> after (Option.bind (Some a) f) Q"
  by simp

lemma step_done [steps, flow]: "Q v \<Longrightarrow> after (Some v) Q"
  by simp

text \<open>Reading a field does not change the state.\<close>

lemmas step_read [steps, flow] =
  after_bindI [where x = "inode_at i s" for i s]
  after_bindI [where x = "dentry_at d s" for d s]
  after_bindI [where x = "file_at f s" for f s]
  after_bindI [where x = "d_inode_of d s" for d s]
  after_bindI [where x = "trfs_lower_inode i s" for i s]
  after_bindI [where x = "trfs_lower_file f s" for f s]
  after_bindI [where x = "trfs_lower_super b s" for b s]
  after_bindI [where x = "i_op x" for x]
  after_bindI [where x = "f_op x" for x]
  after_bindI [where x = "TRFS_D d s" for d s]
  after_bindI [where x = "TRFS_F f s" for f s]
  after_bindI [where x = "TRFS_SB b s" for b s]

lemma step_call:
  assumes "stable E" and "since E s0 s M D T W" and "keeps c"
    and "\<And>r s'. since E s0 s' M D T W \<Longrightarrow> after (f r s') Q"
  shows "after (Option.bind (invoke E ps c s) (case_prod f)) Q"
  by (rule after_bindI) (auto intro: assms(4) since_invoke [OF assms(1,2) _ settle_keeps [OF assms(3)]])

lemma step_move:
  assumes "stable E" and "since E s0 s M D T W"
    and "\<And>r out. settle (filter (transient \<circ> moved) (event_moves (Call c r out))) M = Some (N r)"
    and "\<And>r s'. since E s0 s' (N r) D T W \<Longrightarrow> after (f r s') Q"
  shows "after (Option.bind (invoke E ps c s) (case_prod f)) Q"
  by (rule after_bindI) (auto intro: assms(4) since_invoke [OF assms(1,2) _ assms(3)])

lemma invoke_void_bind:
  "Option.bind (invoke_void E ps c s) f = Option.bind (invoke E ps c s) (case_prod (\<lambda>r s'. f s'))"
  by (cases "invoke E ps c s") (auto simp: invoke_void_def)

lemma step_void:
  assumes "stable E" and "since E s0 s M D T W" and "keeps c"
    and "\<And>s'. since E s0 s' M D T W \<Longrightarrow> after (f s') Q"
  shows "after (Option.bind (invoke_void E ps c s) f) Q"
  unfolding invoke_void_bind by (rule step_call [OF assms(1-3)]) (rule assms(4))

lemma step_void_last:
  assumes "stable E" and "since E s0 s M D T W" and "keeps c" and "\<And>s'. since E s0 s' M D T W \<Longrightarrow> Q s'"
  shows "after (invoke_void E ps c s) Q"
  using step_void [OF assms(1-3), of Some Q ps] assms(4) by simp


lemmas step_calls [steps] =
  keeps_simps [THEN [3] step_call] keeps_simps [THEN [3] step_void] keeps_simps [THEN [3] step_void_last]

text \<open>The calls with moves.\<close>

lemma step_acquire:
  assumes "stable E" and "since E s0 s M D T W"
    and "\<And>r out. filter (transient \<circ> moved) (event_moves (Call c r out)) = map Acq (rs r)"
    and "\<And>r s'. since E s0 s' (M + mset (rs r)) D T W \<Longrightarrow> list_all valid ps \<Longrightarrow> after (f r s') Q"
  shows "after (Option.bind (invoke E ps c s) (case_prod f)) Q"
proof (rule after_bindI, clarify)
  fix r s' assume *: "invoke E ps c s = Some (r, s')"
  then have "list_all valid ps" by (simp add: invoke_def split: if_splits)
  moreover have "since E s0 s' (M + mset (rs r)) D T W"
    by (rule since_invoke [OF assms(1,2) *]) (simp only: assms(3) settle_acq)
  ultimately show "after (f r s') Q" by (intro assms(4))
qed

lemma step_release:
  assumes "stable E" and "since E s0 s (M + mset rs) D T W"
    and "\<And>r out. filter (transient \<circ> moved) (event_moves (Call c r out)) = map Rel rs"
    and "\<And>r s'. since E s0 s' M D T W \<Longrightarrow> after (f r s') Q"
  shows "after (Option.bind (invoke E ps c s) (case_prod f)) Q"
  by (rule step_move [OF assms(1,2) _ assms(4)]) (simp_all only: assms(3) settle_rel)

lemma step_acquire_void:
  assumes "stable E" and "since E s0 s M D T W"
    and "\<And>r out. filter (transient \<circ> moved) (event_moves (Call c r out)) = map Acq rs"
    and "\<And>s'. since E s0 s' (M + mset rs) D T W \<Longrightarrow> after (f s') Q"
  shows "after (Option.bind (invoke_void E ps c s) f) Q"
  unfolding invoke_void_bind by (rule step_acquire [OF assms(1-3)]) (rule assms(4))

lemma step_release_void:
  assumes "stable E" and "since E s0 s (M + mset rs) D T W"
    and "\<And>r out. filter (transient \<circ> moved) (event_moves (Call c r out)) = map Rel rs"
    and "\<And>s'. since E s0 s' M D T W \<Longrightarrow> after (f s') Q"
  shows "after (Option.bind (invoke_void E ps c s) f) Q"
  unfolding invoke_void_bind by (rule step_release [OF assms(1-3)]) (rule assms(4))

lemma step_release_void_last:
  assumes "stable E" and "since E s0 s (M + mset rs) D T W"
    and "\<And>r out. filter (transient \<circ> moved) (event_moves (Call c r out)) = map Rel rs"
    and "\<And>s'. since E s0 s' M D T W \<Longrightarrow> Q s'"
  shows "after (invoke_void E ps c s) Q"
  using step_release_void [OF assms(1-3), of Some Q ps] assms(4) by simp

text \<open>The tracer.\<close>

lemma step_trace [steps]:
  assumes "since E s0 s M D T W" and "\<And>s'. since E s0 s' M D (T @ [c]) W \<Longrightarrow> after (f s') Q"
  shows "after (Option.bind (trace_op E c s) f) Q"
proof (rule after_bindI)
  fix s' assume s': "trace_op E c s = Some s'"
  then obtain drv l where tr: "tld s = Some drv" "log_ops (kmal E) (cur_pid E) drv c (klg s) = Some l"
    "s' = s\<lparr>klg := l, events := events s @ [Traced c]\<rparr>"
    by (auto simp: trace_op_def split: option.splits)
  have "since E s0 s' M D (T @ [c]) W"
    using assms(1) tr(1,2) unfolding since_def tr(3)
    by (auto simp: pins_def traced_def own_def log_all_append dest: sym)
  then show "after (f s') Q" by (rule assms(2))
qed

subsection \<open>The helpers of trfs.h\<close>

lemma invoke_fields:
  assumes "invoke E ps c s = Some (r, s')"
  shows "d_fsdata s' = d_fsdata s" "dinfos s' = dinfos s" "private_data s' = private_data s"
    "finfos s' = finfos s" "s_fs_info s' = s_fs_info s" "sinfos s' = sinfos s"
    "tld s' = tld s" "klg s' = klg s" "list_all valid ps" "ko s' = snd (kern E c (ko s))"
    "r = fst (kern E c (ko s))" "events s' = events s @ [Call c r (outp (ko s'))]"
  using assms by (auto simp: invoke_def Let_def split: if_splits)

text \<open>Acquiring and releasing, with what is released last on top.\<close>

lemma acq_moves:
  "filter (transient \<circ> moved) (event_moves (Call (Ref (R_spin_lock d)) r out)) = map Acq [Spin d]"
  "filter (transient \<circ> moved) (event_moves (Call (Ref (R_path_get p)) r out)) = map Acq (path_refs p)"
  "filter (transient \<circ> moved) (event_moves (Call (Ref (R_dget d)) r out)) = map Acq [Dentry_ref d]"
  "filter (transient \<circ> moved) (event_moves (Call (Ref (R_inode_lock i)) r out)) = map Acq [Inode_lock i]"
  "filter (transient \<circ> moved) (event_moves (Call (Ref (R_get_file f)) r out)) = map Acq [File_ref f]"
  "filter (transient \<circ> moved) (event_moves (Call (Ref (R_mntget m)) r out)) =
     map Acq (path_refs \<lparr>pdentry = 0, pmnt = m\<rparr>)"
  "filter (transient \<circ> moved) (event_moves (Call (Ref (R_dget_parent d)) r out)) = map Acq [Dentry_ref r]"
  "filter (transient \<circ> moved) (event_moves (Call (Ref (R_lock_rename d e)) r out)) = map Acq [Rename_lock d e]"
  by simp_all

lemma rel_moves:
  "filter (transient \<circ> moved) (event_moves (Call (Ref (R_spin_unlock d)) r out)) = map Rel [Spin d]"
  "filter (transient \<circ> moved) (event_moves (Call (Ref (R_path_put p)) r out)) = map Rel (path_refs p)"
  "filter (transient \<circ> moved) (event_moves (Call (Ref (R_dput d)) r out)) = map Rel [Dentry_ref d]"
  "filter (transient \<circ> moved) (event_moves (Call (Ref (R_inode_unlock i)) r out)) = map Rel [Inode_lock i]"
  "filter (transient \<circ> moved) (event_moves (Call (Ref (R_fput f)) r out)) = map Rel [File_ref f]"
  "filter (transient \<circ> moved) (event_moves (Call (Ref (R_unlock_rename d e)) r out)) = map Rel [Rename_lock d e]"
  by simp_all

lemmas step_take [steps] = acq_moves(1-6) [THEN [3] step_acquire_void] acq_moves(7-8) [THEN [3] step_acquire]

lemmas step_give [steps] = rel_moves [THEN [3] step_release_void] rel_moves [THEN [3] step_release_void_last]

lemma step_swap:
  "since E s0 s (M + A + B) D T W \<Longrightarrow> since E s0 s (M + B + A) D T W"
  by (simp add: add.commute add.left_commute)

text \<open>The spin lock around the lower path is released before its references are.\<close>

lemma step_get_path [steps]:
  assumes "stable E" and "since E s0 s M D T W"
    and "\<And>lp s'. since E s0 s' (M + mset (path_refs lp)) D T W \<Longrightarrow> after (f lp s') Q"
  shows "after (Option.bind (trfs_get_lower_path E d s) (case_prod f)) Q"
  unfolding trfs_get_lower_path_def
  by (rule steps assms | assumption | rule step_swap)+

lemma step_put_path [steps]:
  assumes "stable E" and "since E s0 s (M + mset (path_refs lp)) D T W"
    and "\<And>s'. since E s0 s' M D T W \<Longrightarrow> after (f s') Q"
  shows "after (Option.bind (trfs_put_lower_path E d lp s) f) Q"
  unfolding trfs_put_lower_path_def by (rule steps assms | assumption)+

lemma since_know:
  assumes "since E s0 s M D T W" and "d_inode_of d s = Some i" and "valid i"
  shows "since E s0 s M ((d, i) # D) T W"
  using assms by (auto simp: since_def d_inode_of_def dentry_at_def split: if_splits)

lemma since_inode:
  assumes "since E s0 s M ((d, i) # D) T W" and "d_inode_of d s = Some j"
  shows "j = i"
  using assms by (auto simp: since_def d_inode_of_def dentry_at_def split: if_splits)

lemma step_valid:
  "(list_all valid ps \<Longrightarrow> after (Option.bind (invoke_void E ps c s) f) Q) \<Longrightarrow>
   after (Option.bind (invoke_void E ps c s) f) Q"
  by (cases "list_all valid ps") (simp_all add: invoke_void_def invoke_def)

lemma step_lock_parent [steps]:
  assumes "stable E" and "since E s0 s M D T W"
    and "\<And>dir i s'. since E s0 s' (M + mset [Dentry_ref dir] + mset [Inode_lock i]) ((dir, i) # D) T W \<Longrightarrow>
      after (f dir s') Q"
  shows "after (Option.bind (lock_parent E d s) (case_prod f)) Q"
  unfolding lock_parent_def
  apply (rule step_bind_bind, rule step_take [OF assms(1)], rule assms(2))
  apply (rule step_bind_bind1, rule steps, rule step_bind_bind1)
  apply (rule step_valid, rule step_take [OF assms(1)], rule since_know, assumption+, simp)
  apply (rule steps, rule assms(3), assumption)
  done

lemma step_unlock_dir [steps]:
  assumes "stable E"
    and "since E s0 s (M + mset [Dentry_ref dir] + mset [Inode_lock i]) ((dir, i) # D) T W"
    and "\<And>s'. since E s0 s' M D T W \<Longrightarrow> after (f s') Q"
  shows "after (Option.bind (unlock_dir E dir s) f) Q"
  unfolding unlock_dir_def
  apply (rule step_bind_bind1, rule steps, drule since_inode [OF assms(2)], simp only:)
  apply (rule step_bind_bind1, rule step_give [OF assms(1)], rule assms(2))
  apply (rule step_give [OF assms(1)], assumption, rule assms(3))
  apply (simp add: since_def)
  done

lemma since_length: "since E s0 s M D T W \<Longrightarrow> traced s = traced s0 @ T"
  by (simp add: since_def)


text \<open>The module's own memory, and stores to fields of kernel structures other than a dentry's inode.\<close>

lemma since_own:
  assumes "since E s0 s M D T W"
  shows "TRFS_D d s = TRFS_D d W" "TRFS_F f s = TRFS_F f W" "TRFS_SB b s = TRFS_SB b W"
    "trfs_lower_file f s = trfs_lower_file f W" "trfs_lower_super b s = trfs_lower_super b W"
    "d_fsdata s = d_fsdata W" "private_data s = private_data W" "s_fs_info s = s_fs_info W"
    "dinfos s = dinfos W" "finfos s = finfos W" "sinfos s = sinfos W"
  using assms
  by (simp_all add: since_def own_def TRFS_D_def TRFS_F_def TRFS_SB_def trfs_lower_file_def trfs_lower_super_def)

lemma since_ko:
  assumes "since E s0 s M D T W" and "\<And>d. d_inode (dentries k d) = d_inode (dentries (ko s) d)"
  shows "since E s0 (s\<lparr>ko := k\<rparr>) M D T W"
  using assms by (simp add: since_def pins_def traced_def own_def)

lemma step_store [steps]:
  assumes "since E s0 s M D T W"
  shows "(\<And>s'. since E s0 s' M D T W \<Longrightarrow> after (f s') Q) \<Longrightarrow> after (Option.bind (set_inode i g s) f) Q"
    and "(\<And>s'. since E s0 s' M D T W \<Longrightarrow> after (f s') Q) \<Longrightarrow> after (Option.bind (set_file i h s) f) Q"
    and "(\<And>s'. since E s0 s' M D T W \<Longrightarrow> after (f s') Q) \<Longrightarrow> after (Option.bind (set_super i w s) f) Q"
    and "(\<And>s'. since E s0 s' M D T W \<Longrightarrow> after (f s') Q) \<Longrightarrow>
      after (Option.bind (trfs_set_lower_inode i v s) f) Q"
    and "(\<And>s'. since E s0 s' M D T W \<Longrightarrow> after (f s') Q) \<Longrightarrow>
      after (Option.bind (set_dentry d (\<lambda>x. x\<lparr>d_op_set := b\<rparr>) s) f) Q"
  using since_ko [OF assms]
  by (auto simp: set_inode_def set_file_def set_super_def set_dentry_def trfs_set_lower_inode_def)

lemma since_set_own:
  assumes "since E s0 s M D T W"
  shows "since E s0 (s\<lparr>dinfos := x\<rparr>) M D T (W\<lparr>dinfos := x\<rparr>)"
    "since E s0 (s\<lparr>d_fsdata := y\<rparr>) M D T (W\<lparr>d_fsdata := y\<rparr>)"
    "since E s0 (s\<lparr>finfos := z\<rparr>) M D T (W\<lparr>finfos := z\<rparr>)"
    "since E s0 (s\<lparr>private_data := u\<rparr>) M D T (W\<lparr>private_data := u\<rparr>)"
  using assms by (simp_all add: since_def pins_def traced_def own_def)

subsection \<open>Which calls are made\<close>

text \<open>The calls made between two states, and the rules that show they all satisfy \<open>P\<close>.\<close>

fun event_call :: "(kcall \<Rightarrow> bool) \<Rightarrow> event \<Rightarrow> bool" where
  "event_call P (Call c r out) = P c"
| "event_call P (Traced c) = True"

definition only :: "(kcall \<Rightarrow> bool) \<Rightarrow> 'k vfs \<Rightarrow> 'k vfs \<Rightarrow> bool" where
  "only P s0 s \<longleftrightarrow> (\<exists>evs. events s = events s0 @ evs \<and> list_all (event_call P) evs)"

named_theorems onlys \<comment> \<open>rules for the first step of an operation, about the calls it makes\<close>

lemma only_refl: "only P s s"
  by (simp add: only_def)

lemma only_step: "only P s0 s \<Longrightarrow> events s' = events s @ [e] \<Longrightarrow> event_call P e \<Longrightarrow> only P s0 s'"
  by (auto simp: only_def)

lemma only_call [onlys]:
  assumes "only P s0 s" and "P c"
    and "\<And>r s'. r = fst (kern E c (ko s)) \<Longrightarrow> only P s0 s' \<Longrightarrow> after (f r s') Q"
  shows "after (Option.bind (invoke E ps c s) (case_prod f)) Q"
  by (rule after_bindI) (auto intro!: assms(3) only_step [OF assms(1)] simp: assms(2) dest: invoke_fields(11,12))

lemma only_void [onlys]:
  assumes "only P s0 s" and "P c" and "\<And>s'. only P s0 s' \<Longrightarrow> after (f s') Q"
  shows "after (Option.bind (invoke_void E ps c s) f) Q"
  unfolding invoke_void_bind by (rule only_call [OF assms(1,2)]) (rule assms(3))

lemma only_trace [onlys]:
  assumes "only P s0 s" and "\<And>s'. only P s0 s' \<Longrightarrow> after (f s') Q"
  shows "after (Option.bind (trace_op E c s) f) Q"
  by (rule after_bindI) (auto intro!: assms(2) only_step [OF assms(1), where e = "Traced c"]
      simp: trace_op_def split: option.splits)

lemma invoke_void_own:
  "invoke_void E ps c s = Some s' \<Longrightarrow> \<forall>d. TRFS_D d s' = TRFS_D d s"
  by (auto simp: invoke_void_def TRFS_D_def invoke_fields(1,2))

lemma only_get_path [onlys]:
  assumes "only P s0 s" and "\<And>c. P (Ref c)"
    and "\<And>lp s'. only P s0 s' \<Longrightarrow> TRFS_D d s = Some \<lparr>lower_path = lp\<rparr> \<Longrightarrow>
      \<forall>e. TRFS_D e s' = TRFS_D e s \<Longrightarrow> after (f lp s') Q"
  shows "after (Option.bind (trfs_get_lower_path E d s) (case_prod f)) Q"
proof (rule after_bindI, clarify)
  fix lp s' assume *: "trfs_get_lower_path E d s = Some (lp, s')"
  have "after (trfs_get_lower_path E d s) (\<lambda>(lp, s'). only P s0 s')"
    unfolding trfs_get_lower_path_def
    by (rule onlys step_read step_let step_done assms(1,2) case_prodI | assumption)+
  from afterD [OF this *] have "only P s0 s'" by simp
  moreover have "\<forall>e. TRFS_D e s' = TRFS_D e s"
    using * by (auto simp: trfs_get_lower_path_def bind_eq_Some_conv Let_def dest!: invoke_void_own)
  moreover have "TRFS_D d s = Some \<lparr>lower_path = lp\<rparr>"
    using * by (auto simp: trfs_get_lower_path_def bind_eq_Some_conv pathcpy_def Let_def dest!: invoke_void_own)
  ultimately show "after (f lp s') Q" by (blast intro: assms(3))
qed

lemma only_put_path [onlys]:
  assumes "only P s0 s" and "\<And>c. P (Ref c)" and "\<And>s'. only P s0 s' \<Longrightarrow> after (f s') Q"
  shows "after (Option.bind (trfs_put_lower_path E d lp s) f) Q"
  unfolding trfs_put_lower_path_def by (rule onlys assms | assumption)+

lemma only_lock_parent [onlys]:
  assumes "only P s0 s" and "\<And>c. P (Ref c)" and "\<And>dir s'. only P s0 s' \<Longrightarrow> after (f dir s') Q"
  shows "after (Option.bind (lock_parent E d s) (case_prod f)) Q"
  unfolding lock_parent_def
  by (rule onlys step_read step_bind_bind step_bind_bind1 step_pair assms | assumption)+

lemma only_unlock_dir [onlys]:
  assumes "only P s0 s" and "\<And>c. P (Ref c)" and "\<And>s'. only P s0 s' \<Longrightarrow> after (f s') Q"
  shows "after (Option.bind (unlock_dir E dir s) f) Q"
  unfolding unlock_dir_def
  by (rule onlys step_read step_bind_bind1 assms | assumption)+

section \<open>A concrete kernel\<close>

text \<open>
  A kernel whose calls succeed and change nothing: the dentry \<open>d\<close> has the inode \<open>d + 20\<close> and the
  parent \<open>d + 1\<close>; the upper objects are those below 40, the inode \<open>i\<close> there stands for \<open>i + 10\<close>
  below.
\<close>

definition sample_kern :: "kcall \<Rightarrow> unit kobjs \<Rightarrow> int \<times> unit kobjs" where
  "sample_kern c k =
     (case c of
        Ref (R_dget_parent d) \<Rightarrow> d + 1
      | Ref (R_alloc n) \<Rightarrow> 4096
      | Ref (R_iget5_locked sb n i) \<Rightarrow> i - 10
      | Ref (R_igrab i) \<Rightarrow> i
      | Ref (R_dentry_open p fl) \<Rightarrow> 80
      | Ref (R_d_make_root i) \<Rightarrow> 11
      | _ \<Rightarrow> 0, k)"

definition sample_inode :: "int \<Rightarrow> inode" where
  "sample_inode i = \<lparr>lower_inode = i + 10, i_ino = nat i, i_mode = 0x81A4, i_rdev = 0, i_nlink = 1,
     i_size = 0, i_atime = 0, i_mtime = 0, i_ctime = 0, i_version = 1, i_new = False,
     i_sb = (if i < 40 then 50 else 51), 
     i_op = Some [I_readlink, I_setxattr, I_getxattr, I_listxattr, I_removexattr], i_fop = [], i_aops = Trfs_aops\<rparr>"

definition sample_dentry :: "int \<Rightarrow> dentry" where
  "sample_dentry d = \<lparr>d_inode = d + 20, d_parent = d + 1, d_sb = 50, d_name = \<lparr>qname = [97], qlen = 1\<rparr>,
     d_flags = 0, d_unhashed = False, d_op_set = False\<rparr>"

definition sample_vfile :: "int \<Rightarrow> vfile" where
  "sample_vfile f = \<lparr>f_dentry = f - 60, f_inode = f - 40, f_flags = 0, f_mode = 0, f_pos = 0,
     f_op = Some [(FO_mmap, Lower), (FO_read_iter, Lower)], f_aops = Trfs_aops\<rparr>"

definition sample_super :: super_block where
  "sample_super = \<lparr>s_maxbytes = 0, s_time_gran = 0, s_ops_set = True, s_root = 0, s_umount_begin = False\<rparr>"

definition sample_env :: "unit env" where
  "sample_env = \<lparr>kern = sample_kern, kmal = sample_alloc, cur_pid = 7\<rparr>"

definition sample_vfs :: "unit vfs" where
  "sample_vfs = \<lparr>ko = \<lparr>inodes = sample_inode, dentries = sample_dentry, files = sample_vfile,
       supers = (\<lambda>_. sample_super), outp = \<lparr>pdentry = 20, pmnt = 60\<rparr>, outn = 8, world = ()\<rparr>,
     d_fsdata = (\<lambda>d. d + 90), dinfos = [100 \<mapsto> \<lparr>lower_path = \<lparr>pdentry = 20, pmnt = 60\<rparr>\<rparr>,
       101 \<mapsto> \<lparr>lower_path = \<lparr>pdentry = 21, pmnt = 60\<rparr>\<rparr>],
     private_data = (\<lambda>f. f + 90), finfos = [160 \<mapsto> \<lparr>lower_file = 80, lower_vm_ops = 0\<rparr>],
     s_fs_info = (\<lambda>b. b + 90), sinfos = [140 \<mapsto> \<lparr>lower_sb = 51\<rparr>],
     tld = Some \<lparr>drv_pid = 0, bitmap = 0\<rparr>, klg = sample_log, events = []\<rparr>"

lemma sample_stable: "stable sample_env"
  by (simp add: stable_def sample_env_def sample_kern_def)

lemma sample_pins: "pins sample_vfs = Some {#}"
  by (simp add: pins_def sample_vfs_def)

lemmas run_simps =
  invoke_def invoke_void_def trace_op_def inode_at_def dentry_at_def file_at_def d_inode_of_def
  set_inode_def set_dentry_def set_file_def trfs_lower_inode_def trfs_lower_super_def trfs_lower_file_def
  TRFS_D_def TRFS_SB_def TRFS_F_def valid_def IS_ERR_def trfs_get_lower_path_def trfs_put_lower_path_def
  trfs_set_lower_path_def trfs_put_reset_lower_path_def store_path_def null_path_def pathcpy_def
  lock_parent_def unlock_dir_def dname_def trfile_of_def int32_id test_bit_set_def Let_def

lemmas sample_simps =
  sample_env_def sample_kern_def sample_vfs_def sample_inode_def sample_dentry_def sample_vfile_def

end
