(* ===== verification/Lookup.thy ===== *)
theory Lookup
  imports Account
begin

section \<open>Lookup, interposition and dentries (trfs/lookup.c, trfs/dentry.c)\<close>

text \<open>
  How an object of the lower file system gets its counterpart above: the private data of
  dentries, the inode of the upper file system, the lookup of a name, the release of a dentry.
  The tables of operations of \<^verbatim>\<open>inode.c\<close> and \<^verbatim>\<open>file.c\<close> are here as well, because a new inode
  points to them.

  The lemmas show that a lookup keeps exactly the references that the dentry's lower path stands
  for, on every branch, so that releasing the dentry gives them back; which table of operations
  an inode gets; and what a lookup returns.
\<close>

subsection \<open>The tables of operations\<close>

definition trfs_symlink_iops :: "iop list" where
  "trfs_symlink_iops =
     [I_readlink, I_permission, I_setattr, I_getattr, I_get_link, I_setxattr, I_getxattr,
      I_listxattr, I_removexattr]"

definition trfs_dir_iops :: "iop list" where
  "trfs_dir_iops =
     [I_create, I_lookup, I_link, I_unlink, I_symlink, I_mkdir, I_rmdir, I_mknod, I_rename,
      I_permission, I_setattr, I_getattr, I_setxattr, I_getxattr, I_listxattr, I_removexattr]"

definition trfs_main_iops :: "iop list" where
  "trfs_main_iops =
     [I_permission, I_setattr, I_getattr, I_setxattr, I_getxattr, I_listxattr, I_removexattr]"

definition trfs_main_fops :: "(fop \<times> fimpl) list" where
  "trfs_main_fops =
     [(FO_llseek, Generic_file_llseek), (FO_read, Trfs), (FO_write, Trfs), (FO_unlocked_ioctl, Trfs),
      (FO_compat_ioctl, Trfs), (FO_mmap, Trfs), (FO_open, Trfs), (FO_flush, Trfs), (FO_release, Trfs),
      (FO_fsync, Trfs), (FO_fasync, Trfs), (FO_read_iter, Trfs), (FO_write_iter, Trfs)]"

definition trfs_dir_fops :: "(fop \<times> fimpl) list" where
  "trfs_dir_fops =
     [(FO_llseek, Trfs), (FO_read, Generic_read_dir), (FO_iterate, Trfs), (FO_unlocked_ioctl, Trfs),
      (FO_compat_ioctl, Trfs), (FO_open, Trfs), (FO_release, Trfs), (FO_flush, Trfs), (FO_fsync, Trfs),
      (FO_fasync, Trfs)]"

subsection \<open>File types\<close>

definition S_ISDIR :: "u32 \<Rightarrow> bool" where "S_ISDIR m \<longleftrightarrow> m AND 0xF000 = 0x4000"
definition S_ISLNK :: "u32 \<Rightarrow> bool" where "S_ISLNK m \<longleftrightarrow> m AND 0xF000 = 0xA000"
definition S_ISBLK :: "u32 \<Rightarrow> bool" where "S_ISBLK m \<longleftrightarrow> m AND 0xF000 = 0x6000"
definition S_ISCHR :: "u32 \<Rightarrow> bool" where "S_ISCHR m \<longleftrightarrow> m AND 0xF000 = 0x2000"
definition S_ISFIFO :: "u32 \<Rightarrow> bool" where "S_ISFIFO m \<longleftrightarrow> m AND 0xF000 = 0x1000"
definition S_ISSOCK :: "u32 \<Rightarrow> bool" where "S_ISSOCK m \<longleftrightarrow> m AND 0xF000 = 0xC000"

subsection \<open>Private data of dentries\<close>

text \<open>
  \<open>dentry\<close> is never null in a call. Allocating from the cache is a call of the kernel; the block
  is zeroed.
\<close>

abbreviation (input) SIZE_dentry_info :: nat where "SIZE_dentry_info \<equiv> 24"

definition free_dentry_private_data :: "'k env \<Rightarrow> kaddr \<Rightarrow> 'k vfs \<Rightarrow> 'k vfs option" where
  "free_dentry_private_data E dentry s =
     (if dentry = 0 \<or> d_fsdata s dentry = 0 then Some s
      else do {
        s \<leftarrow> invoke_void E [] (Ref (R_free (d_fsdata s dentry))) s;
        let s = s\<lparr>dinfos := (dinfos s)(d_fsdata s dentry := None)\<rparr>;
        Some (s\<lparr>d_fsdata := (d_fsdata s)(dentry := 0)\<rparr>)
      })"

definition new_dentry_private_data :: "'k env \<Rightarrow> kaddr \<Rightarrow> 'k op" where
  "new_dentry_private_data E dentry s = do {
     (info, s) \<leftarrow> invoke E [] (Ref (R_alloc SIZE_dentry_info)) s;
     if info = 0 then Some (- ENOMEM, s)
     else do {
       let s = s\<lparr>dinfos := (dinfos s)(info \<mapsto> \<lparr>lower_path = null_path\<rparr>)\<rparr>;
       Some (0, s\<lparr>d_fsdata := (d_fsdata s)(dentry := info)\<rparr>)
     }
   }"

subsection \<open>Upper inodes\<close>

definition trfs_inode_test :: "inode \<Rightarrow> kaddr \<Rightarrow> int" where
  "trfs_inode_test inode candidate = (if lower_inode inode = candidate then 1 else 0)"

definition trfs_inode_set :: "inode \<Rightarrow> kaddr \<Rightarrow> int" where
  "trfs_inode_set inode lower = 0"

text \<open>The fields a new inode gets from the type of the lower inode.\<close>

definition init_ops :: "inode \<Rightarrow> inode \<Rightarrow> inode" where
  "init_ops lower x = x\<lparr>
     i_op := Some (if S_ISDIR (i_mode lower) then trfs_dir_iops
                   else if S_ISLNK (i_mode lower) then trfs_symlink_iops else trfs_main_iops),
     i_fop := (if S_ISDIR (i_mode lower) then trfs_dir_fops else trfs_main_fops),
     i_aops := Trfs_aops, i_atime := 0, i_mtime := 0, i_ctime := 0\<rparr>"

text \<open>The part of \<open>trfs_iget\<close> that fills in a new inode.\<close>

definition init_inode :: "'k env \<Rightarrow> kaddr \<Rightarrow> kaddr \<Rightarrow> 'k vfs \<Rightarrow> 'k vfs option" where
  "init_inode E inode lower s = do {
     s \<leftarrow> trfs_set_lower_inode inode lower s;
     s \<leftarrow> set_inode inode (\<lambda>x. x\<lparr>i_version := Suc (i_version x)\<rparr>) s;
     li \<leftarrow> inode_at lower s;
     s \<leftarrow> set_inode inode (init_ops li) s;
     let m = i_mode li;
     s \<leftarrow> (if S_ISBLK m \<or> S_ISCHR m \<or> S_ISFIFO m \<or> S_ISSOCK m
           then invoke_void E [inode] (Node (C_init_special_inode inode m (i_rdev li))) s
           else Some s);
     s \<leftarrow> invoke_void E [inode, lower] (Node (C_copy_attr_all inode lower)) s;
     s \<leftarrow> invoke_void E [inode, lower] (Node (C_copy_inode_size inode lower)) s;
     invoke_void E [inode] (Node (C_unlock_new_inode inode)) s
   }"

definition trfs_iget :: "'k env \<Rightarrow> kaddr \<Rightarrow> kaddr \<Rightarrow> 'k op" where
  "trfs_iget E sb lower s = do {
     li \<leftarrow> inode_at lower s;
     (inode, s) \<leftarrow> invoke E [] (Ref (R_iget5_locked sb (i_ino li) lower)) s;
     if inode = 0 then do {
       s \<leftarrow> invoke_void E [lower] (Ref (R_iput lower)) s;
       Some (- EACCES, s)
     }
     else do {
       x \<leftarrow> inode_at inode s;
       if \<not> i_new x then Some (inode, s)
       else do {
         li \<leftarrow> inode_at lower s;
         s \<leftarrow> set_inode inode (\<lambda>x. x\<lparr>i_ino := i_ino li\<rparr>) s;
         (g, s) \<leftarrow> invoke E [lower] (Ref (R_igrab lower)) s;
         if g = 0 then Some (- ESTALE, s)
         else do {
           s \<leftarrow> init_inode E inode lower s;
           Some (inode, s)
         }
       }
     }
   }"

subsection \<open>Interposition\<close>

text \<open>\<open>__trfs_interpose\<close>: the result is a dentry, null, or an error pointer.\<close>

definition do_trfs_interpose :: "'k env \<Rightarrow> kaddr \<Rightarrow> kaddr \<Rightarrow> path \<Rightarrow> 'k op" where
  "do_trfs_interpose E dentry sb lp s = do {
     lower \<leftarrow> d_inode_of (pdentry lp) s;
     lsb \<leftarrow> trfs_lower_super sb s;
     li \<leftarrow> inode_at lower s;
     if i_sb li \<noteq> lsb then Some (- EXDEV, s)
     else do {
       (inode, s) \<leftarrow> trfs_iget E sb lower s;
       if IS_ERR inode then Some (inode, s)
       else invoke E [inode, dentry] (Ref (R_d_splice_alias inode dentry)) s
     }
   }"

text \<open>\<open>PTR_ERR\<close> of whatever pointer comes back, cut to an \<open>int\<close>.\<close>

definition trfs_interpose :: "'k env \<Rightarrow> kaddr \<Rightarrow> kaddr \<Rightarrow> path \<Rightarrow> 'k op" where
  "trfs_interpose E dentry sb lp s = do {
     (ret_dentry, s) \<leftarrow> do_trfs_interpose E dentry sb lp s;
     Some (int32 ret_dentry, s)
   }"

subsection \<open>Lookup\<close>

abbreviation (input) LOOKUP_RCU :: u32 where "LOOKUP_RCU \<equiv> 0x40"
abbreviation (input) LOOKUP_CREATE :: u32 where "LOOKUP_CREATE \<equiv> 0x200"
abbreviation (input) LOOKUP_RENAME_TARGET :: u32 where "LOOKUP_RENAME_TARGET \<equiv> 0x800"

text \<open>
  The end of \<open>__trfs_lookup\<close>, after the label \<open>setup_lower\<close>: a negative dentry is linked to the
  (negative) lower dentry.
\<close>

definition setup_lower :: "'k env \<Rightarrow> kaddr \<Rightarrow> u32 \<Rightarrow> path \<Rightarrow> int \<Rightarrow> kaddr \<Rightarrow> 'k op" where
  "setup_lower E dentry flags parent err lower_dentry s = do {
     s \<leftarrow> invoke_void E [] (Ref (R_mntget (pmnt parent))) s;
     s \<leftarrow> trfs_set_lower_path E dentry \<lparr>pdentry = lower_dentry, pmnt = pmnt parent\<rparr> s;
     Some (if err = - ENOENT \<or> flags AND (LOOKUP_CREATE OR LOOKUP_RENAME_TARGET) \<noteq> 0 then 0 else err, s)
   }"

definition do_trfs_lookup :: "'k env \<Rightarrow> kaddr \<Rightarrow> u32 \<Rightarrow> path \<Rightarrow> 'k op" where
  "do_trfs_lookup E dentry flags parent s = do {
     s \<leftarrow> set_dentry dentry (\<lambda>d. d\<lparr>d_op_set := True\<rparr>) s;
     d \<leftarrow> dentry_at dentry s;
     if d_parent d = dentry then Some (0, s)
     else do {
       let name = cstr (qname (d_name d));
       (err, s) \<leftarrow> invoke E [pdentry parent] (Ref (R_vfs_path_lookup (pdentry parent) (pmnt parent) name)) s;
       if err = 0 then do {
         let lp = outp (ko s);
         s \<leftarrow> trfs_set_lower_path E dentry lp s;
         d \<leftarrow> dentry_at dentry s;
         (ret_dentry, s) \<leftarrow> do_trfs_interpose E dentry (d_sb d) lp s;
         if IS_ERR ret_dentry then do {
           s \<leftarrow> trfs_put_reset_lower_path E dentry s;
           Some (ret_dentry, s)
         }
         else Some (ret_dentry, s)
       }
       else if err \<noteq> - ENOENT then Some (err, s)
       else do {
         (lower_dentry, s) \<leftarrow> invoke E [pdentry parent] (Ref (R_d_lookup (pdentry parent) name)) s;
         if lower_dentry \<noteq> 0 then setup_lower E dentry flags parent err lower_dentry s
         else do {
           (lower_dentry, s) \<leftarrow> invoke E [pdentry parent] (Ref (R_d_alloc (pdentry parent) name)) s;
           if lower_dentry = 0 then Some (- ENOMEM, s)
           else do {
             s \<leftarrow> invoke_void E [lower_dentry] (Node (C_d_add lower_dentry)) s;
             setup_lower E dentry flags parent err lower_dentry s
           }
         }
       }
     }
   }"

definition trfs_lookup :: "'k env \<Rightarrow> kaddr \<Rightarrow> kaddr \<Rightarrow> u32 \<Rightarrow> 'k op" where
  "trfs_lookup E dir dentry flags s = do {
     (parent, s) \<leftarrow> invoke E [dentry] (Ref (R_dget_parent dentry)) s;
     (lower_parent_path, s) \<leftarrow> trfs_get_lower_path E parent s;
     (err, s) \<leftarrow> new_dentry_private_data E dentry s;
     (ret, s) \<leftarrow> (if err \<noteq> 0 then Some (err, s)
       else do {
         (ret, s) \<leftarrow> do_trfs_lookup E dentry flags lower_parent_path s;
         if IS_ERR ret then Some (ret, s)
         else do {
           let dentry = (if ret \<noteq> 0 then ret else dentry);
           i \<leftarrow> d_inode_of dentry s;
           s \<leftarrow> (if i \<noteq> 0 then do {
                    li \<leftarrow> trfs_lower_inode i s;
                    invoke_void E [i, li] (Node (C_copy_attr_times i li)) s
                  } else Some s);
           pi \<leftarrow> d_inode_of parent s;
           pli \<leftarrow> trfs_lower_inode pi s;
           s \<leftarrow> invoke_void E [pi, pli] (Node (C_copy_attr_atime pi pli)) s;
           Some (ret, s)
         }
       });
     s \<leftarrow> trfs_put_lower_path E parent lower_parent_path s;
     s \<leftarrow> invoke_void E [parent] (Ref (R_dput parent)) s;
     Some (ret, s)
   }"

subsection \<open>The operations on dentries\<close>

abbreviation (input) DCACHE_OP_REVALIDATE :: u32 where "DCACHE_OP_REVALIDATE \<equiv> 4"

definition trfs_d_revalidate :: "'k env \<Rightarrow> kaddr \<Rightarrow> u32 \<Rightarrow> 'k op" where
  "trfs_d_revalidate E dentry flags s =
     (if flags AND LOOKUP_RCU \<noteq> 0 then Some (- ECHILD, s)
      else do {
        (lp, s) \<leftarrow> trfs_get_lower_path E dentry s;
        ld \<leftarrow> dentry_at (pdentry lp) s;
        (err, s) \<leftarrow> (if d_flags ld AND DCACHE_OP_REVALIDATE = 0 then Some (1, s)
          else invoke E [pdentry lp] (Node (C_d_revalidate (pdentry lp) flags)) s);
        s \<leftarrow> trfs_put_lower_path E dentry lp s;
        Some (err, s)
      })"

definition trfs_d_release :: "'k env \<Rightarrow> kaddr \<Rightarrow> 'k vfs \<Rightarrow> 'k vfs option" where
  "trfs_d_release E dentry s = do {
     s \<leftarrow> trfs_put_reset_lower_path E dentry s;
     free_dentry_private_data E dentry s
   }"


section \<open>Lemmas\<close>

lemmas interpose_simps = trfs_interpose_def do_trfs_interpose_def trfs_iget_def init_inode_def
  trfs_set_lower_inode_def new_dentry_private_data_def

subsection \<open>Interposition\<close>

lemma step_init_inode [steps]:
  assumes "stable E" and "since E s0 s M D T W"
    and "\<And>s'. since E s0 s' M D T W \<Longrightarrow> after (f s') Q"
  shows "after (Option.bind (init_inode E i l s) f) Q"
  unfolding init_inode_def by (rule steps assms | assumption)+

lemma step_iget [steps]:
  assumes "stable E" and "since E s0 s M D T W"
    and "\<And>r s'. since E s0 s' M D T W \<Longrightarrow> after (f r s') Q"
  shows "after (Option.bind (trfs_iget E sb lower s) (case_prod f)) Q"
  unfolding trfs_iget_def by (rule steps assms | assumption)+

lemma step_do_interpose [steps]:
  assumes "stable E" and "since E s0 s M D T W"
    and "\<And>r s'. since E s0 s' M D T W \<Longrightarrow> after (f r s') Q"
  shows "after (Option.bind (do_trfs_interpose E dentry sb lp s) (case_prod f)) Q"
  unfolding do_trfs_interpose_def by (rule steps assms | assumption)+

lemma step_interpose [steps]:
  assumes "stable E" and "since E s0 s M D T W"
    and "\<And>r s'. since E s0 s' M D T W \<Longrightarrow> after (f r s') Q"
  shows "after (Option.bind (trfs_interpose E dentry sb lp s) (case_prod f)) Q"
  unfolding trfs_interpose_def by (rule steps assms | assumption)+

subsection \<open>Private data of dentries\<close>

lemma step_new_private [steps]:
  assumes "stable E" and "since E s0 s M D T W"
    and "\<And>s'. since E s0 s' M D T W \<Longrightarrow> after (f (- ENOMEM) s') Q"
    and "\<And>info s'. info \<noteq> 0 \<Longrightarrow>
      since E s0 s' M D T (W\<lparr>dinfos := (dinfos W)(info \<mapsto> \<lparr>lower_path = null_path\<rparr>),
        d_fsdata := (d_fsdata W)(d := info)\<rparr>) \<Longrightarrow> after (f 0 s') Q"
  shows "after (Option.bind (new_dentry_private_data E d s) (case_prod f)) Q"
  unfolding new_dentry_private_data_def
  apply (rule step_bind_bind, rule steps, rule assms, rule assms, rule step_bind_if)
   apply (rule step_pair, rule assms(3), assumption)
  apply (rule step_bind_let, rule step_pair, rule assms(4), assumption)
  apply (simp add: since_own(6,9) since_set_own)
  done

lemma pathcpy_simp [simp]: "pathcpy p q = q"
  by (simp add: pathcpy_def)

lemma info_simp [simp]: "(info :: trfs_dentry_info)\<lparr>lower_path := p\<rparr> = \<lparr>lower_path = p\<rparr>"
  by simp

lemma step_store_path [steps]:
  assumes "since E s0 s M D T W"
    and "\<And>s'. TRFS_D d W \<noteq> None \<Longrightarrow>
      since E s0 s' M D T (W\<lparr>dinfos := (dinfos W)(d_fsdata W d \<mapsto> \<lparr>lower_path = lp\<rparr>)\<rparr>) \<Longrightarrow> after (f s') Q"
  shows "after (Option.bind (store_path d lp s) f) Q"
  using since_set_own(1) [OF assms(1)]
  by (intro after_bindI assms(2)) (auto simp: store_path_def since_own [OF assms(1)])

lemma step_set_path [steps]:
  assumes "stable E" and "since E s0 s M D T W"
    and "\<And>s'. TRFS_D d W \<noteq> None \<Longrightarrow>
      since E s0 s' M D T (W\<lparr>dinfos := (dinfos W)(d_fsdata W d \<mapsto> \<lparr>lower_path = lp\<rparr>)\<rparr>) \<Longrightarrow> after (f s') Q"
  shows "after (Option.bind (trfs_set_lower_path E d lp s) f) Q"
  unfolding trfs_set_lower_path_def by (rule steps assms | assumption)+

lemma step_read_path:
  "since E s0 s M D T W \<Longrightarrow> TRFS_D d W = Some v \<Longrightarrow> after (f v) Q \<Longrightarrow> after (Option.bind (TRFS_D d s) f) Q"
  by (simp add: since_own)

lemma step_put_reset_path:
  assumes "stable E" and "since E s0 s (M + mset (path_refs lp)) D T W"
    and "TRFS_D d W = Some \<lparr>lower_path = lp\<rparr>"
    and "\<And>s'. since E s0 s' M D T (W\<lparr>dinfos := (dinfos W)(d_fsdata W d \<mapsto> \<lparr>lower_path = null_path\<rparr>)\<rparr>) \<Longrightarrow>
      after (f s') Q"
  shows "after (Option.bind (trfs_put_reset_lower_path E d s) f) Q"
  unfolding trfs_put_reset_lower_path_def
  apply (rule step_bind_bind1, rule step_read, rule step_bind_bind1, rule steps, rule assms, rule assms)
  apply (rule step_bind_bind1, rule step_read_path, assumption, rule assms)
  apply (simp only: trfs_dentry_info.simps pathcpy_simp)
  apply (rule steps assms | assumption)+
  done

lemma step_path_lookup [steps]:
  assumes "stable E" and "since E s0 s M D T W"
    and "\<And>s'. since E s0 s' (M + mset (path_refs (outp (ko s')))) D T W \<Longrightarrow> after (f 0 s') Q"
    and "\<And>r s'. r \<noteq> 0 \<Longrightarrow> since E s0 s' M D T W \<Longrightarrow> after (f r s') Q"
  shows "after (Option.bind (invoke E ps (Ref (R_vfs_path_lookup d m n)) s) (case_prod f)) Q"
proof (rule after_bindI, clarify)
  fix r s' assume *: "invoke E ps (Ref (R_vfs_path_lookup d m n)) s = Some (r, s')"
  have "since E s0 s' (if r = 0 then M + mset (path_refs (outp (ko s'))) else M) D T W"
    by (rule since_invoke [OF assms(1,2) *]) (simp add: settle_acq)
  then show "after (f r s') Q" using assms(3,4) by (cases "r = 0") auto
qed

lemma step_maybe:
  assumes "stable E" and "since E s0 s M D T W"
    and "\<And>r out. filter (transient \<circ> moved) (event_moves (Call c r out)) = (if P r then [Acq (res r)] else [])"
    and "\<And>r s'. P r \<Longrightarrow> since E s0 s' (M + mset [res r]) D T W \<Longrightarrow> after (f r s') Q"
    and "\<And>r s'. \<not> P r \<Longrightarrow> since E s0 s' M D T W \<Longrightarrow> after (f r s') Q"
  shows "after (Option.bind (invoke E ps c s) (case_prod f)) Q"
proof (rule after_bindI, clarify)
  fix r s' assume *: "invoke E ps c s = Some (r, s')"
  have "since E s0 s' (if P r then M + mset [res r] else M) D T W"
    by (rule since_invoke [OF assms(1,2) *]) (simp only: assms(3), simp)
  then show "after (f r s') Q" using assms(4,5) by (cases "P r") auto
qed

lemma maybe_moves:
  "filter (transient \<circ> moved) (event_moves (Call (Ref (R_d_lookup d n)) r out)) =
     (if r \<noteq> 0 then [Acq (Dentry_ref r)] else [])"
  "filter (transient \<circ> moved) (event_moves (Call (Ref (R_d_alloc d n)) r out)) =
     (if r \<noteq> 0 then [Acq (Dentry_ref r)] else [])"
  "filter (transient \<circ> moved) (event_moves (Call (Ref (R_dentry_open p fl)) r out)) =
     (if valid r then [Acq (File_ref r)] else [])"
  by simp_all

lemmas step_maybes [steps] = maybe_moves [THEN [3] step_maybe]

subsection \<open>Lookup\<close>

text \<open>
  What a lookup leaves behind: nothing, or private data with a lower path and the references of
  that path.
\<close>

lemma path_refs_split:
  "d \<noteq> 0 \<Longrightarrow> M + mset (path_refs \<lparr>pdentry = d, pmnt = m\<rparr>) =
     M + mset [Dentry_ref d] + mset (path_refs \<lparr>pdentry = 0, pmnt = m\<rparr>)"
  by (simp add: path_refs_def)

lemma step_setup_lower:
  assumes "stable E" and "since E s0 s (M + mset [Dentry_ref ld]) D T W" and "ld \<noteq> 0"
    and "\<And>r s' lp. since E s0 s' (M + mset (path_refs lp)) D T
      (W\<lparr>dinfos := (dinfos W)(d_fsdata W d \<mapsto> \<lparr>lower_path = lp\<rparr>)\<rparr>) \<Longrightarrow> Q (r, s')"
  shows "after (setup_lower E d flags parent err ld s) Q"
  unfolding setup_lower_def
  apply (rule steps assms(1) | rule assms(2) | assumption)+
  apply (rule assms(4) [of _ "\<lparr>pdentry = ld, pmnt = pmnt parent\<rparr>"])
  apply (simp only: path_refs_split [OF assms(3)])
  done

lemma step_do_lookup:
  assumes "stable E" and "since E s0 s M D T W" and "TRFS_D d W = Some \<lparr>lower_path = null_path\<rparr>"
    and "\<And>r s' lp. since E s0 s' (M + mset (path_refs lp)) D T
      (W\<lparr>dinfos := (dinfos W)(d_fsdata W d \<mapsto> \<lparr>lower_path = lp\<rparr>)\<rparr>) \<Longrightarrow> Q (r, s')"
  shows "after (do_trfs_lookup E d flags parent s) Q"
proof -
  have W: "W\<lparr>dinfos := (dinfos W)(d_fsdata W d \<mapsto> \<lparr>lower_path = null_path\<rparr>)\<rparr> = W"
    using assms(3) by (simp add: TRFS_D_def fun_upd_idem split: if_splits)
  have none: "Q (r, s')" if "since E s0 s' M D T W" for r s'
    using assms(4) [of s' null_path] that unfolding W by (simp add: path_refs_def null_path_def)
  have own: "TRFS_D d (W\<lparr>dinfos := (dinfos W)(d_fsdata W d \<mapsto> v)\<rparr>) = Some v" for v
    using assms(3) by (simp add: TRFS_D_def split: if_splits)
  have undo: "Q (r, s')"
    if "since E s0 s' M D T (W\<lparr>dinfos := (dinfos W)(d_fsdata W d \<mapsto> v),
      dinfos := (dinfos (W\<lparr>dinfos := (dinfos W)(d_fsdata W d \<mapsto> v)\<rparr>))
        (d_fsdata (W\<lparr>dinfos := (dinfos W)(d_fsdata W d \<mapsto> v)\<rparr>) d \<mapsto> \<lparr>lower_path = null_path\<rparr>)\<rparr>)" for r s' v
    by (rule none) (use that W in simp)
  show ?thesis
    unfolding do_trfs_lookup_def
    by (rule own step_put_reset_path step_setup_lower steps assms(1) | assumption | rule assms(2) |
        (rule none, assumption) | (rule undo, assumption) | (rule assms(4), assumption) |
        (erule notE, assumption) | (erule notE, rule refl))+
qed


lemma step_bind_after: "after x (\<lambda>v. after (f v) Q) \<Longrightarrow> after (Option.bind x f) Q"
  by simp

lemma step_bound_lookup:
  assumes "stable E" and "since E s0 s M D T W" and "TRFS_D d W = Some \<lparr>lower_path = null_path\<rparr>"
    and "\<And>r s' lp. since E s0 s' (M + mset (path_refs lp)) D T
      (W\<lparr>dinfos := (dinfos W)(d_fsdata W d \<mapsto> \<lparr>lower_path = lp\<rparr>)\<rparr>) \<Longrightarrow> after (f r s') Q"
  shows "after (Option.bind (do_trfs_lookup E d flags parent s) (case_prod f)) Q"
  by (rule step_bind_after, rule step_do_lookup [OF assms(1-3)]) (simp add: assms(4))

text \<open>What a lookup does to the module's memory: nothing, or a block for the dentry with a lower path.\<close>

definition linked :: "kaddr \<Rightarrow> kaddr \<Rightarrow> path \<Rightarrow> 'k vfs \<Rightarrow> 'k vfs" where
  "linked d info lp s =
     s\<lparr>dinfos := (dinfos s)(info \<mapsto> \<lparr>lower_path = lp\<rparr>), d_fsdata := (d_fsdata s)(d := info)\<rparr>"

lemma lookup_since:
  assumes "stable E"
  shows "after (trfs_lookup E dir d flags s) (\<lambda>(r, s').
    valid d \<and> (r = - ENOMEM \<and> since E s s' {#} [] [] s \<or>
     (\<exists>info lp. info \<noteq> 0 \<and> since E s s' (mset (path_refs lp)) [] [] (linked d info lp s))))"
  (is "after _ ?Q")
proof -
  have fin: "?Q (r, s')" if "since E s s' ({#} + mset (path_refs lp)) [] [] (linked d info lp s)" "valid d" "info \<noteq> 0"
    for r s' info lp using that by auto
  have upd: "(s\<lparr>dinfos := (dinfos s)(info \<mapsto> \<lparr>lower_path = null_path\<rparr>), d_fsdata := (d_fsdata s)(d := info)\<rparr>)
      \<lparr>dinfos := (dinfos (s\<lparr>dinfos := (dinfos s)(info \<mapsto> \<lparr>lower_path = null_path\<rparr>), d_fsdata := (d_fsdata s)(d := info)\<rparr>))
        (d_fsdata (s\<lparr>dinfos := (dinfos s)(info \<mapsto> \<lparr>lower_path = null_path\<rparr>), d_fsdata := (d_fsdata s)(d := info)\<rparr>) d
          \<mapsto> \<lparr>lower_path = lp\<rparr>)\<rparr> = linked d info lp s" for info lp
    by (simp add: linked_def)
  have null: "TRFS_D d (s\<lparr>dinfos := (dinfos s)(info \<mapsto> \<lparr>lower_path = null_path\<rparr>), d_fsdata := (d_fsdata s)(d := info)\<rparr>) =
      Some \<lparr>lower_path = null_path\<rparr>" if "list_all valid [d]" for info
    using that by (simp add: TRFS_D_def)
  show ?thesis
    unfolding trfs_lookup_def
    apply (rule step_take [OF assms], rule since_refl)
    apply (rule step_get_path [OF assms], assumption)
    apply (rule step_new_private [OF assms], assumption)
     apply (subst if_P, simp)
     apply ((rule steps assms | assumption)+, simp)
    apply (subst if_not_P, simp)
    apply (rule step_bind_bind, rule step_bound_lookup [OF assms], assumption, rule null, assumption)
    apply (simp only: upd)
    apply (rule steps assms fin | assumption | (rule step_swap, assumption) | (simp only: list.pred_inject simp_thms))+
    done
qed


subsection \<open>Release of a dentry\<close>

lemma step_d_release:
  assumes "stable E" and "since E s0 s (M + mset (path_refs lp)) D T W"
    and "TRFS_D d W = Some \<lparr>lower_path = lp\<rparr>" and "dinfos W 0 = None"
  shows "after (trfs_d_release E d s) (\<lambda>s'. \<exists>W'. since E s0 s' M D T W' \<and> TRFS_D d W' = None \<and>
    dinfos W' = (dinfos W)(d_fsdata W d := None) \<and> finfos W' = finfos W)"
proof -
  have W: "valid d" "d_fsdata W d \<noteq> 0" "d \<noteq> 0"
    using assms(3,4) by (auto simp: TRFS_D_def valid_def split: if_splits)
  have free: "\<exists>W'. since E s0 (s'\<lparr>dinfos := (dinfos s')(d_fsdata s' d := None), d_fsdata := (d_fsdata s')(d := 0)\<rparr>) M D T W' \<and>
      TRFS_D d W' = None \<and> dinfos W' = (dinfos W)(d_fsdata W d := None) \<and> finfos W' = finfos W"
    if "since E s0 s' M D T (W\<lparr>dinfos := (dinfos W)(d_fsdata W d \<mapsto> v)\<rparr>)" for s' v
    by (rule exI, rule conjI, rule since_set_own(2) [OF since_set_own(1)], rule that)
      (use since_own(6,9) [OF that] assms(4) W in \<open>simp add: TRFS_D_def\<close>)
  show ?thesis
    unfolding trfs_d_release_def
    apply (rule step_put_reset_path [OF assms(1-3)])
    unfolding free_dentry_private_data_def
    apply (rule step_if)
    subgoal for s1 using W since_own(6) [of E s0 s1 M D T] by auto
    apply (rule steps assms(1) | assumption)+
    subgoal for s1 s2 using free [of s2 "\<lparr>lower_path = null_path\<rparr>"] by simp
    done
qed

subsection \<open>The operations of an inode\<close>

text \<open>
  What is relied on: the type of the lower inode does not change, and of the functions that
  maintain attributes only \<open>init_special_inode\<close> changes a table of operations, that for files.
\<close>

definition type_kept :: "'k env \<Rightarrow> kaddr \<Rightarrow> bool" where
  "type_kept E l \<longleftrightarrow> (\<forall>c k. i_mode (inodes (snd (kern E c k)) l) = i_mode (inodes k l))"

definition ops_kept :: "'k env \<Rightarrow> bool" where
  "ops_kept E \<longleftrightarrow> (\<forall>c k i.
     lower_inode (inodes (snd (kern E (Node c) k)) i) = lower_inode (inodes k i) \<and>
     i_op (inodes (snd (kern E (Node c) k)) i) = i_op (inodes k i) \<and>
     ((\<forall>m r. c \<noteq> C_init_special_inode i m r) \<longrightarrow>
        i_fop (inodes (snd (kern E (Node c) k)) i) = i_fop (inodes k i)))"

definition special :: "u32 \<Rightarrow> bool" where
  "special m \<longleftrightarrow> S_ISBLK m \<or> S_ISCHR m \<or> S_ISFIFO m \<or> S_ISSOCK m"

text \<open>The operations that fit a mode.\<close>

definition well_typed :: "u32 \<Rightarrow> inode \<Rightarrow> bool" where
  "well_typed m x \<longleftrightarrow>
     (S_ISDIR m \<longrightarrow> i_op x = Some trfs_dir_iops \<and> i_fop x = trfs_dir_fops) \<and>
     (S_ISLNK m \<longrightarrow> i_op x = Some trfs_symlink_iops) \<and>
     (\<not> S_ISDIR m \<and> \<not> S_ISLNK m \<longrightarrow> i_op x = Some trfs_main_iops) \<and>
     (\<not> S_ISDIR m \<and> \<not> special m \<longrightarrow> i_fop x = trfs_main_fops)"


lemma init_ops_typed: "well_typed (i_mode li) (init_ops li x)"
  by (auto simp: well_typed_def init_ops_def S_ISDIR_def S_ISLNK_def)

lemma typed_step:
  assumes "ops_kept E" and "lower_inode (inodes (ko s) i) = l \<and> well_typed m (inodes (ko s) i)"
    and "special m \<or> (\<forall>n r. c \<noteq> C_init_special_inode i n r)"
    and "\<And>s'. lower_inode (inodes (ko s') i) = l \<and> well_typed m (inodes (ko s') i) \<Longrightarrow> after (f s') Q"
  shows "after (Option.bind (invoke_void E ps (Node c) s) f) Q"
proof (rule after_bindI)
  fix s' assume "invoke_void E ps (Node c) s = Some s'"
  then have k: "ko s' = snd (kern E (Node c) (ko s))"
    by (auto simp: invoke_void_def dest: invoke_fields(10))
  have "\<not> S_ISDIR m" if "special m"
    using that by (auto simp: special_def S_ISDIR_def S_ISBLK_def S_ISCHR_def S_ISFIFO_def S_ISSOCK_def)
  with assms(1-3) show "after (f s') Q"
    by (intro assms(4)) (auto simp: k ops_kept_def well_typed_def)
qed

lemma step_set_inode:
  "(\<And>s'. inodes (ko s') = (inodes (ko s))(i := g (inodes (ko s) i)) \<Longrightarrow> after (f s') Q) \<Longrightarrow>
   after (Option.bind (set_inode i g s) f) Q"
  by (simp add: set_inode_def)

lemma init_inode_typed:
  assumes "ops_kept E" and "i_mode (inodes (ko s) l) = m"
    and "\<And>s'. lower_inode (inodes (ko s') i) = l \<and> well_typed m (inodes (ko s') i) \<Longrightarrow> after (f s') Q"
  shows "after (Option.bind (init_inode E i l s) f) Q"
  unfolding init_inode_def trfs_set_lower_inode_def
  apply (rule step_bind_bind1, rule step_set_inode, rule step_bind_bind1, rule step_set_inode)
  apply (rule step_bind_bind1, rule step_read, rule step_bind_bind1, rule step_set_inode, rule step_bind_let)
  subgoal premises p for s1 s2 li s3
  proof -
    have m: "i_mode li = m" using p assms(2) by (auto simp: inode_at_def split: if_splits)
    have "lower_inode (inodes (ko s3) i) = l \<and> well_typed m (inodes (ko s3) i)"
      using p init_ops_typed [of li] by (simp add: m) (simp add: init_ops_def)
    note start = typed_step [OF assms(1) this]
    show ?thesis
      unfolding m special_def [symmetric]
      apply (rule step_bind_bind1, rule step_bind_if)
       apply (rule start, simp)
       apply ((rule step_bind_bind1)?, rule typed_step [OF assms(1)], assumption, simp)+
       apply (rule assms(3), assumption)
      apply (rule step_value, rule step_bind_bind1, rule start, simp)
      apply ((rule step_bind_bind1)?, rule typed_step [OF assms(1)], assumption, simp)+
      apply (rule assms(3), assumption)
      done
  qed
  done

lemma step_invoke:
  assumes "\<And>s'. ko s' = snd (kern E c (ko s)) \<Longrightarrow> after (f (fst (kern E c (ko s))) s') Q"
  shows "after (Option.bind (invoke E ps c s) (case_prod f)) Q"
  by (rule after_bindI) (auto dest: invoke_fields(10,11) intro: assms)

lemma iget_typed:
  assumes "ops_kept E" and "type_kept E l"
    and new: "i_new (inodes (snd (kern E (Ref (R_iget5_locked sb (i_ino (inodes (ko s) l)) l)) (ko s)))
      (fst (kern E (Ref (R_iget5_locked sb (i_ino (inodes (ko s) l)) l)) (ko s))))"
  shows "after (trfs_iget E sb l s) (\<lambda>(i, s').
    i = - EACCES \<or> i = - ESTALE \<or>
    lower_inode (inodes (ko s') i) = l \<and> well_typed (i_mode (inodes (ko s) l)) (inodes (ko s') i))"
  unfolding trfs_iget_def
  apply (rule step_read, rule step_invoke, rule step_if)
   apply (rule after_bindI, simp)
  subgoal premises p for li s1
  proof -
    have li: "li = inodes (ko s) l" using p(1) by (simp add: inode_at_def split: if_splits)
    have mode: "i_mode (inodes (ko s1) l) = i_mode (inodes (ko s) l)"
      using assms(2) by (simp add: p(2) type_kept_def)
    show ?thesis
      apply (rule step_read, rule step_if)
      subgoal for x using new p(2) by (auto simp: li inode_at_def split: if_splits)
      apply (rule step_read, rule step_set_inode, rule step_invoke, rule step_if, simp)
      subgoal for x li' s2 s3
        apply (rule init_inode_typed [OF assms(1), where m = "i_mode (inodes (ko s) l)"])
        subgoal using assms(2) mode by (simp add: type_kept_def)
        by simp
      done
  qed
  done


section \<open>Properties\<close>


lemma sample_lookup:
  "\<exists>s1 s2. trfs_lookup sample_env 31 9 0 sample_vfs = Some (0, s1) \<and> trfs_d_release sample_env 9 s1 = Some s2"
  by (simp add: trfs_lookup_def do_trfs_lookup_def trfs_d_release_def free_dentry_private_data_def
      interpose_simps run_simps sample_simps)


text \<open>C38: A new upper inode stands for the lower inode it was made for and has the operations of its
  type: directories those of directories, symbolic links those of links, everything else the
  main ones; the file operations are those of directories or the main ones, unless the kernel
  has replaced them for a special file. The only other outcomes are the errors \<open>-EACCES\<close> and
  \<open>-ESTALE\<close>.\<close>

theorem new_inode_has_fitting_operations:
  assumes "ops_kept E" and "type_kept E l"
    and "i_new (inodes (snd (kern E (Ref (R_iget5_locked sb (i_ino (inodes (ko s) l)) l)) (ko s)))
      (fst (kern E (Ref (R_iget5_locked sb (i_ino (inodes (ko s) l)) l)) (ko s))))"
    and "trfs_iget E sb l s = Some (i, s')"
  shows "i = - EACCES \<or> i = - ESTALE \<or>
    lower_inode (inodes (ko s') i) = l \<and> well_typed (i_mode (inodes (ko s) l)) (inodes (ko s') i)"
  using afterD [OF iget_typed [OF assms(1-3)] assms(4)] by simp

definition fresh_vfs :: "unit vfs" where
  "fresh_vfs = sample_vfs\<lparr>ko := (ko sample_vfs)\<lparr>inodes := (\<lambda>i. (sample_inode i)\<lparr>i_new := True\<rparr>)\<rparr>\<rparr>"

theorem new_inode_has_fitting_operations_witness:
  "\<exists>s'. trfs_iget sample_env 50 40 fresh_vfs = Some (30, s') \<and> lower_inode (inodes (ko s') 30) = 40 \<and>
     well_typed 0x81A4 (inodes (ko s') 30)"
proof -
  obtain s' where s': "trfs_iget sample_env 50 40 fresh_vfs = Some (30, s')"
    by (simp add: fresh_vfs_def S_ISBLK_def S_ISCHR_def S_ISFIFO_def S_ISSOCK_def
        interpose_simps run_simps sample_simps)
  have "ops_kept sample_env" "type_kept sample_env 40"
    by (simp_all add: ops_kept_def type_kept_def sample_env_def sample_kern_def)
  from new_inode_has_fitting_operations [OF this _ s'] show ?thesis
    using s' by (simp add: fresh_vfs_def sample_simps)
qed

end
