(* ===== verification/Inode_Ops.thy ===== *)
theory Inode_Ops
  imports Lookup
begin

section \<open>Operations on inodes (trfs/inode.c)\<close>

text \<open>
  The operations of the tables \<open>trfs_dir_iops\<close>, \<open>trfs_main_iops\<close> and \<open>trfs_symlink_iops\<close>, each
  with all its calls in their order. Every operation takes the lower path of its dentry, calls
  the lower file system, brings the upper inode up to date when that succeeded, reports the
  outcome to the tracer, and gives back what it took. Where the source jumps to a label, the
  model binds the error and the state there.

  The lemmas show of every operation that it gives back what it took, on every path, and what it
  reports to the tracer; \<open>inode_call\<close> and \<open>inode_calls\<close> dispatch calls and sequences of calls.
\<close>

subsection \<open>Directories\<close>

text \<open>The end of \<open>create\<close>, \<open>symlink\<close>, \<open>mknod\<close> and \<open>mkdir\<close> on success: the directory's times and size.\<close>

definition copy_dir_attrs :: "'k env \<Rightarrow> kaddr \<Rightarrow> kaddr \<Rightarrow> 'k vfs \<Rightarrow> 'k vfs option" where
  "copy_dir_attrs E dir lower_parent_dentry s = do {
     li \<leftarrow> trfs_lower_inode dir s;
     s \<leftarrow> invoke_void E [dir, li] (Node (C_copy_attr_times dir li)) s;
     pi \<leftarrow> d_inode_of lower_parent_dentry s;
     invoke_void E [dir, pi] (Node (C_copy_inode_size dir pi)) s
   }"

definition trfs_create :: "'k env \<Rightarrow> kaddr \<Rightarrow> kaddr \<Rightarrow> u32 \<Rightarrow> bool \<Rightarrow> 'k op" where
  "trfs_create E dir dentry mode want_excl s = do {
     (lower_path, s) \<leftarrow> trfs_get_lower_path E dentry s;
     let lower_dentry = pdentry lower_path;
     (lower_parent_dentry, s) \<leftarrow> lock_parent E lower_dentry s;
     pi \<leftarrow> d_inode_of lower_parent_dentry s;
     (err, s) \<leftarrow> invoke E [pi, lower_dentry] (Dir (C_vfs_create pi lower_dentry mode want_excl)) s;
     (err, s) \<leftarrow> (if err \<noteq> 0 then Some (err, s)
       else do {
         d \<leftarrow> inode_at dir s;
         (err, s) \<leftarrow> trfs_interpose E dentry (i_sb d) lower_path s;
         if err \<noteq> 0 then Some (err, s)
         else do {
           s \<leftarrow> copy_dir_attrs E dir lower_parent_dentry s;
           Some (err, s)
         }
       });
     s \<leftarrow> unlock_dir E lower_parent_dentry s;
     s \<leftarrow> trfs_put_lower_path E dentry lower_path s;
     Some (err, s)
   }"

definition trfs_link :: "'k env \<Rightarrow> kaddr \<Rightarrow> kaddr \<Rightarrow> kaddr \<Rightarrow> 'k op" where
  "trfs_link E old_dentry dir new_dentry s = do {
     oi \<leftarrow> d_inode_of old_dentry s;
     x \<leftarrow> inode_at oi s;
     let file_size_save = i_size x;
     (lower_old_path, s) \<leftarrow> trfs_get_lower_path E old_dentry s;
     (lower_new_path, s) \<leftarrow> trfs_get_lower_path E new_dentry s;
     let lower_old_dentry = pdentry lower_old_path;
     let lower_new_dentry = pdentry lower_new_path;
     (lower_dir_dentry, s) \<leftarrow> lock_parent E lower_new_dentry s;
     di \<leftarrow> d_inode_of lower_dir_dentry s;
     (err, s) \<leftarrow> invoke E [lower_old_dentry, di, lower_new_dentry]
       (Dir (C_vfs_link lower_old_dentry di lower_new_dentry)) s;
     ni \<leftarrow> d_inode_of lower_new_dentry s;
     (err, s) \<leftarrow> (if err \<noteq> 0 \<or> ni = 0 then Some (err, s)
       else do {
         d \<leftarrow> inode_at dir s;
         (err, s) \<leftarrow> trfs_interpose E new_dentry (i_sb d) lower_new_path s;
         if err \<noteq> 0 then Some (err, s)
         else do {
           ni \<leftarrow> d_inode_of lower_new_dentry s;
           s \<leftarrow> invoke_void E [dir, ni] (Node (C_copy_attr_times dir ni)) s;
           ni \<leftarrow> d_inode_of lower_new_dentry s;
           s \<leftarrow> invoke_void E [dir, ni] (Node (C_copy_inode_size dir ni)) s;
           oi \<leftarrow> d_inode_of old_dentry s;
           li \<leftarrow> trfs_lower_inode oi s;
           x \<leftarrow> inode_at li s;
           s \<leftarrow> invoke_void E [oi] (Node (C_set_nlink oi (i_nlink x))) s;
           ui \<leftarrow> d_inode_of new_dentry s;
           s \<leftarrow> invoke_void E [ui] (Node (C_i_size_write ui file_size_save)) s;
           Some (err, s)
         }
       });
     s \<leftarrow> trace_op E (T_link (dname old_dentry s) (dname new_dentry s) err) s;
     s \<leftarrow> unlock_dir E lower_dir_dentry s;
     s \<leftarrow> trfs_put_lower_path E old_dentry lower_old_path s;
     s \<leftarrow> trfs_put_lower_path E new_dentry lower_new_path s;
     Some (err, s)
   }"

abbreviation (input) DCACHE_NFSFS_RENAMED :: u32 where "DCACHE_NFSFS_RENAMED \<equiv> 0x1000"

definition trfs_unlink :: "'k env \<Rightarrow> kaddr \<Rightarrow> kaddr \<Rightarrow> 'k op" where
  "trfs_unlink E dir dentry s = do {
     lower_dir_inode \<leftarrow> trfs_lower_inode dir s;
     (lower_path, s) \<leftarrow> trfs_get_lower_path E dentry s;
     let lower_dentry = pdentry lower_path;
     s \<leftarrow> invoke_void E [] (Ref (R_dget lower_dentry)) s;
     (lower_dir_dentry, s) \<leftarrow> lock_parent E lower_dentry s;
     (err, s) \<leftarrow> invoke E [lower_dir_inode, lower_dentry]
       (Dir (C_vfs_unlink lower_dir_inode lower_dentry)) s;
     ld \<leftarrow> dentry_at lower_dentry s;
     let err = (if err = - EBUSY \<and> d_flags ld AND DCACHE_NFSFS_RENAMED \<noteq> 0 then 0 else err);
     (err, s) \<leftarrow> (if err \<noteq> 0 then Some (err, s)
       else do {
         s \<leftarrow> invoke_void E [dir, lower_dir_inode] (Node (C_copy_attr_times dir lower_dir_inode)) s;
         s \<leftarrow> invoke_void E [dir, lower_dir_inode] (Node (C_copy_inode_size dir lower_dir_inode)) s;
         i \<leftarrow> d_inode_of dentry s;
         li \<leftarrow> trfs_lower_inode i s;
         x \<leftarrow> inode_at li s;
         s \<leftarrow> invoke_void E [i] (Node (C_set_nlink i (i_nlink x))) s;
         i \<leftarrow> d_inode_of dentry s;
         d \<leftarrow> inode_at dir s;
         s \<leftarrow> set_inode i (\<lambda>x. x\<lparr>i_ctime := i_ctime d\<rparr>) s;
         s \<leftarrow> invoke_void E [dentry] (Node (C_d_drop dentry)) s;
         Some (err, s)
       });
     s \<leftarrow> trace_op E (T_unlink (dname dentry s) err) s;
     s \<leftarrow> unlock_dir E lower_dir_dentry s;
     s \<leftarrow> invoke_void E [] (Ref (R_dput lower_dentry)) s;
     s \<leftarrow> trfs_put_lower_path E dentry lower_path s;
     Some (err, s)
   }"

definition trfs_symlink :: "'k env \<Rightarrow> kaddr \<Rightarrow> kaddr \<Rightarrow> bytes \<Rightarrow> 'k op" where
  "trfs_symlink E dir dentry symname s = do {
     (lower_path, s) \<leftarrow> trfs_get_lower_path E dentry s;
     let lower_dentry = pdentry lower_path;
     (lower_parent_dentry, s) \<leftarrow> lock_parent E lower_dentry s;
     pi \<leftarrow> d_inode_of lower_parent_dentry s;
     (err, s) \<leftarrow> invoke E [pi, lower_dentry] (Dir (C_vfs_symlink pi lower_dentry symname)) s;
     (err, s) \<leftarrow> (if err \<noteq> 0 then Some (err, s)
       else do {
         d \<leftarrow> inode_at dir s;
         (err, s) \<leftarrow> trfs_interpose E dentry (i_sb d) lower_path s;
         if err \<noteq> 0 then Some (err, s)
         else do {
           s \<leftarrow> copy_dir_attrs E dir lower_parent_dentry s;
           Some (err, s)
         }
       });
     s \<leftarrow> trace_op E (T_symlink (dname dentry s) symname err) s;
     s \<leftarrow> unlock_dir E lower_parent_dentry s;
     s \<leftarrow> trfs_put_lower_path E dentry lower_path s;
     Some (err, s)
   }"

definition trfs_mkdir :: "'k env \<Rightarrow> kaddr \<Rightarrow> kaddr \<Rightarrow> u32 \<Rightarrow> 'k op" where
  "trfs_mkdir E dir dentry mode s = do {
     (lower_path, s) \<leftarrow> trfs_get_lower_path E dentry s;
     let lower_dentry = pdentry lower_path;
     (lower_parent_dentry, s) \<leftarrow> lock_parent E lower_dentry s;
     pi \<leftarrow> d_inode_of lower_parent_dentry s;
     (err, s) \<leftarrow> invoke E [pi, lower_dentry] (Dir (C_vfs_mkdir pi lower_dentry mode)) s;
     (err, s) \<leftarrow> (if err \<noteq> 0 then Some (err, s)
       else do {
         d \<leftarrow> inode_at dir s;
         (err, s) \<leftarrow> trfs_interpose E dentry (i_sb d) lower_path s;
         if err \<noteq> 0 then Some (err, s)
         else do {
           s \<leftarrow> copy_dir_attrs E dir lower_parent_dentry s;
           li \<leftarrow> trfs_lower_inode dir s;
           x \<leftarrow> inode_at li s;
           s \<leftarrow> invoke_void E [dir] (Node (C_set_nlink dir (i_nlink x))) s;
           Some (err, s)
         }
       });
     s \<leftarrow> trace_op E (T_mkdir (dname dentry s) (uint mode) err) s;
     s \<leftarrow> unlock_dir E lower_parent_dentry s;
     s \<leftarrow> trfs_put_lower_path E dentry lower_path s;
     Some (err, s)
   }"

definition trfs_rmdir :: "'k env \<Rightarrow> kaddr \<Rightarrow> kaddr \<Rightarrow> 'k op" where
  "trfs_rmdir E dir dentry s = do {
     (lower_path, s) \<leftarrow> trfs_get_lower_path E dentry s;
     let lower_dentry = pdentry lower_path;
     (lower_dir_dentry, s) \<leftarrow> lock_parent E lower_dentry s;
     di \<leftarrow> d_inode_of lower_dir_dentry s;
     (err, s) \<leftarrow> invoke E [di, lower_dentry] (Dir (C_vfs_rmdir di lower_dentry)) s;
     (err, s) \<leftarrow> (if err \<noteq> 0 then Some (err, s)
       else do {
         s \<leftarrow> invoke_void E [dentry] (Node (C_d_drop dentry)) s;
         i \<leftarrow> d_inode_of dentry s;
         s \<leftarrow> (if i \<noteq> 0 then invoke_void E [i] (Node (C_clear_nlink i)) s else Some s);
         di \<leftarrow> d_inode_of lower_dir_dentry s;
         s \<leftarrow> invoke_void E [dir, di] (Node (C_copy_attr_times dir di)) s;
         di \<leftarrow> d_inode_of lower_dir_dentry s;
         s \<leftarrow> invoke_void E [dir, di] (Node (C_copy_inode_size dir di)) s;
         di \<leftarrow> d_inode_of lower_dir_dentry s;
         x \<leftarrow> inode_at di s;
         s \<leftarrow> invoke_void E [dir] (Node (C_set_nlink dir (i_nlink x))) s;
         Some (err, s)
       });
     s \<leftarrow> trace_op E (T_rmdir (dname dentry s) err) s;
     s \<leftarrow> unlock_dir E lower_dir_dentry s;
     s \<leftarrow> trfs_put_lower_path E dentry lower_path s;
     Some (err, s)
   }"

definition trfs_mknod :: "'k env \<Rightarrow> kaddr \<Rightarrow> kaddr \<Rightarrow> u32 \<Rightarrow> u32 \<Rightarrow> 'k op" where
  "trfs_mknod E dir dentry mode dev s = do {
     (lower_path, s) \<leftarrow> trfs_get_lower_path E dentry s;
     let lower_dentry = pdentry lower_path;
     (lower_parent_dentry, s) \<leftarrow> lock_parent E lower_dentry s;
     pi \<leftarrow> d_inode_of lower_parent_dentry s;
     (err, s) \<leftarrow> invoke E [pi, lower_dentry] (Dir (C_vfs_mknod pi lower_dentry mode dev)) s;
     (err, s) \<leftarrow> (if err \<noteq> 0 then Some (err, s)
       else do {
         d \<leftarrow> inode_at dir s;
         (err, s) \<leftarrow> trfs_interpose E dentry (i_sb d) lower_path s;
         if err \<noteq> 0 then Some (err, s)
         else do {
           s \<leftarrow> copy_dir_attrs E dir lower_parent_dentry s;
           Some (err, s)
         }
       });
     s \<leftarrow> trace_op E (T_mknod (dname dentry s) mode dev err) s;
     s \<leftarrow> unlock_dir E lower_parent_dentry s;
     s \<leftarrow> trfs_put_lower_path E dentry lower_path s;
     Some (err, s)
   }"

definition trfs_rename :: "'k env \<Rightarrow> kaddr \<Rightarrow> kaddr \<Rightarrow> kaddr \<Rightarrow> kaddr \<Rightarrow> 'k op" where
  "trfs_rename E old_dir old_dentry new_dir new_dentry s = do {
     (lower_old_path, s) \<leftarrow> trfs_get_lower_path E old_dentry s;
     (lower_new_path, s) \<leftarrow> trfs_get_lower_path E new_dentry s;
     let lower_old_dentry = pdentry lower_old_path;
     let lower_new_dentry = pdentry lower_new_path;
     (lower_old_dir_dentry, s) \<leftarrow> invoke E [lower_old_dentry] (Ref (R_dget_parent lower_old_dentry)) s;
     (lower_new_dir_dentry, s) \<leftarrow> invoke E [lower_new_dentry] (Ref (R_dget_parent lower_new_dentry)) s;
     (trap, s) \<leftarrow> invoke E [lower_old_dir_dentry, lower_new_dir_dentry]
       (Ref (R_lock_rename lower_old_dir_dentry lower_new_dir_dentry)) s;
     (err, s) \<leftarrow> (if trap = lower_old_dentry then Some (- EINVAL, s)
       else if trap = lower_new_dentry then Some (- ENOTEMPTY, s)
       else do {
         oi \<leftarrow> d_inode_of lower_old_dir_dentry s;
         ni \<leftarrow> d_inode_of lower_new_dir_dentry s;
         (err, s) \<leftarrow> invoke E [oi, lower_old_dentry, ni, lower_new_dentry]
           (Dir (C_vfs_rename oi lower_old_dentry ni lower_new_dentry)) s;
         if err \<noteq> 0 then Some (err, s)
         else do {
           ni \<leftarrow> d_inode_of lower_new_dir_dentry s;
           s \<leftarrow> invoke_void E [new_dir, ni] (Node (C_copy_attr_all new_dir ni)) s;
           ni \<leftarrow> d_inode_of lower_new_dir_dentry s;
           s \<leftarrow> invoke_void E [new_dir, ni] (Node (C_copy_inode_size new_dir ni)) s;
           if new_dir \<noteq> old_dir then do {
             oi \<leftarrow> d_inode_of lower_old_dir_dentry s;
             s \<leftarrow> invoke_void E [old_dir, oi] (Node (C_copy_attr_all old_dir oi)) s;
             oi \<leftarrow> d_inode_of lower_old_dir_dentry s;
             s \<leftarrow> invoke_void E [old_dir, oi] (Node (C_copy_inode_size old_dir oi)) s;
             Some (err, s)
           }
           else Some (err, s)
         }
       });
     s \<leftarrow> trace_op E (T_rename (dname old_dentry s) (dname new_dentry s) err) s;
     s \<leftarrow> invoke_void E [lower_old_dir_dentry, lower_new_dir_dentry]
       (Ref (R_unlock_rename lower_old_dir_dentry lower_new_dir_dentry)) s;
     s \<leftarrow> invoke_void E [] (Ref (R_dput lower_old_dir_dentry)) s;
     s \<leftarrow> invoke_void E [] (Ref (R_dput lower_new_dir_dentry)) s;
     s \<leftarrow> trfs_put_lower_path E old_dentry lower_old_path s;
     s \<leftarrow> trfs_put_lower_path E new_dentry lower_new_path s;
     Some (err, s)
   }"

subsection \<open>Symbolic links\<close>

abbreviation (input) PAGE_SIZE :: int where "PAGE_SIZE \<equiv> 4096"

definition trfs_readlink :: "'k env \<Rightarrow> kaddr \<Rightarrow> int \<Rightarrow> 'k op" where
  "trfs_readlink E dentry bufsiz s = do {
     (lower_path, s) \<leftarrow> trfs_get_lower_path E dentry s;
     let lower_dentry = pdentry lower_path;
     li \<leftarrow> d_inode_of lower_dentry s;
     x \<leftarrow> inode_at li s;
     (err, s) \<leftarrow> (case i_op x of
         None \<Rightarrow> Some (- EINVAL, s)
       | Some ops \<Rightarrow>
           if I_readlink \<notin> set ops then Some (- EINVAL, s)
           else do {
             (err, s) \<leftarrow> invoke E [lower_dentry] (Attr (C_readlink lower_dentry bufsiz)) s;
             if err < 0 then Some (err, s)
             else do {
               i \<leftarrow> d_inode_of dentry s;
               li \<leftarrow> d_inode_of lower_dentry s;
               s \<leftarrow> invoke_void E [i, li] (Node (C_copy_attr_atime i li)) s;
               Some (err, s)
             }
           });
     s \<leftarrow> trfs_put_lower_path E dentry lower_path s;
     Some (err, s)
   }"

text \<open>
  The result: the pointer returned, and the pointer handed to \<open>set_delayed_call\<close>, if any. The
  zero behind the target is a write outside the page when the target fills it.
\<close>

definition trfs_get_link :: "'k env \<Rightarrow> kaddr \<Rightarrow> 'k vfs \<Rightarrow> ((kaddr \<times> kaddr option) \<times> 'k vfs) option" where
  "trfs_get_link E dentry s =
     (if dentry = 0 then Some ((- ECHILD, None), s)
      else do {
        (buf, s) \<leftarrow> invoke E [] (Ref (R_alloc (nat PAGE_SIZE))) s;
        if buf = 0 then Some ((- ENOMEM, None), s)
        else do {
          (err, s) \<leftarrow> trfs_readlink E dentry PAGE_SIZE s;
          if err < 0 then do {
            s \<leftarrow> invoke_void E [] (Ref (R_free buf)) s;
            Some ((err, Some err), s)
          }
          else if err < PAGE_SIZE then Some ((buf, Some buf), s)
          else None
        }
      })"

subsection \<open>Attributes\<close>

definition trfs_permission :: "'k env \<Rightarrow> kaddr \<Rightarrow> int \<Rightarrow> 'k op" where
  "trfs_permission E inode msk s = do {
     li \<leftarrow> trfs_lower_inode inode s;
     invoke E [li] (Attr (C_inode_permission li msk)) s
   }"

abbreviation (input) ATTR_MODE :: u32 where "ATTR_MODE \<equiv> 1"
abbreviation (input) ATTR_SIZE :: u32 where "ATTR_SIZE \<equiv> 8"
abbreviation (input) ATTR_KILL_SUID :: u32 where "ATTR_KILL_SUID \<equiv> 0x800"
abbreviation (input) ATTR_KILL_SGID :: u32 where "ATTR_KILL_SGID \<equiv> 0x1000"
abbreviation (input) ATTR_FILE :: u32 where "ATTR_FILE \<equiv> 0x2000"

text \<open>The attributes for the lower file system: its own file, and no mode when set-id bits are to be cleared.\<close>

definition lower_iattr :: "kaddr \<Rightarrow> iattr \<Rightarrow> iattr" where
  "lower_iattr lf ia =
     (let lower_ia = (if ia_valid ia AND ATTR_FILE \<noteq> 0 then ia\<lparr>ia_file := lf\<rparr> else ia) in
      if ia_valid lower_ia AND (ATTR_KILL_SUID OR ATTR_KILL_SGID) \<noteq> 0
      then lower_ia\<lparr>ia_valid := ia_valid lower_ia AND NOT ATTR_MODE\<rparr> else lower_ia)"

text \<open>The lower inode is locked around \<open>notify_change\<close>.\<close>

definition notify_lower :: "'k env \<Rightarrow> kaddr \<Rightarrow> iattr \<Rightarrow> 'k op" where
  "notify_lower E lower_dentry lower_ia s = do {
     ldi \<leftarrow> d_inode_of lower_dentry s;
     s \<leftarrow> invoke_void E [ldi] (Ref (R_inode_lock ldi)) s;
     (err, s) \<leftarrow> invoke E [lower_dentry] (Attr (C_notify_change lower_dentry lower_ia)) s;
     ldi \<leftarrow> d_inode_of lower_dentry s;
     s \<leftarrow> invoke_void E [ldi] (Ref (R_inode_unlock ldi)) s;
     Some (err, s)
   }"

definition trfs_setattr :: "'k env \<Rightarrow> kaddr \<Rightarrow> iattr \<Rightarrow> 'k op" where
  "trfs_setattr E dentry ia s = do {
     inode \<leftarrow> d_inode_of dentry s;
     (err, s) \<leftarrow> invoke E [inode] (Attr (C_inode_change_ok inode ia)) s;
     if err \<noteq> 0 then Some (err, s)
     else do {
       (lower_path, s) \<leftarrow> trfs_get_lower_path E dentry s;
       let lower_dentry = pdentry lower_path;
       lower_inode \<leftarrow> trfs_lower_inode inode s;
       lf \<leftarrow> (if ia_valid ia AND ATTR_FILE \<noteq> 0 then trfs_lower_file (ia_file ia) s else Some 0);
       let lower_ia = lower_iattr lf ia;
       (err, s) \<leftarrow> (if ia_valid ia AND ATTR_SIZE \<noteq> 0 then do {
           (err, s) \<leftarrow> invoke E [inode] (Attr (C_inode_newsize_ok inode (ia_size ia))) s;
           if err \<noteq> 0 then Some (err, s)
           else do {
             s \<leftarrow> invoke_void E [inode] (Attr (C_truncate_setsize inode (ia_size ia))) s;
             Some (0, s)
           }
         } else Some (0, s));
       (err, s) \<leftarrow> (if err \<noteq> 0 then Some (err, s)
         else do {
           (err, s) \<leftarrow> notify_lower E lower_dentry lower_ia s;
           if err \<noteq> 0 then Some (err, s)
           else do {
             s \<leftarrow> invoke_void E [inode, lower_inode] (Node (C_copy_attr_all inode lower_inode)) s;
             Some (err, s)
           }
         });
       s \<leftarrow> trfs_put_lower_path E dentry lower_path s;
       Some (err, s)
     }
   }"

text \<open>The number of blocks in the answer is that of the lower object; \<open>None\<close> when no answer is filled in.\<close>

definition trfs_getattr :: "'k env \<Rightarrow> kaddr \<Rightarrow> 'k vfs \<Rightarrow> ((int \<times> int option) \<times> 'k vfs) option" where
  "trfs_getattr E dentry s = do {
     (lower_path, s) \<leftarrow> trfs_get_lower_path E dentry s;
     (err, s) \<leftarrow> invoke E [pdentry lower_path] (Attr (C_vfs_getattr lower_path)) s;
     (r, s) \<leftarrow> (if err \<noteq> 0 then Some ((err, None), s)
       else do {
         let lower_blocks = outn (ko s);
         i \<leftarrow> d_inode_of dentry s;
         li \<leftarrow> d_inode_of (pdentry lower_path) s;
         s \<leftarrow> invoke_void E [i, li] (Node (C_copy_attr_all i li)) s;
         i \<leftarrow> d_inode_of dentry s;
         s \<leftarrow> invoke_void E [i] (Attr (C_generic_fillattr i)) s;
         Some ((err, Some lower_blocks), s)
       });
     s \<leftarrow> trfs_put_lower_path E dentry lower_path s;
     Some (r, s)
   }"

subsection \<open>Extended attributes\<close>

text \<open>\<open>i_op\<close> of the lower inode is followed without a test, except in \<open>removexattr\<close>.\<close>

definition trfs_setxattr :: "'k env \<Rightarrow> kaddr \<Rightarrow> bytes \<Rightarrow> bytes \<Rightarrow> nat \<Rightarrow> int \<Rightarrow> 'k op" where
  "trfs_setxattr E dentry name value n flags s = do {
     (lower_path, s) \<leftarrow> trfs_get_lower_path E dentry s;
     let lower_dentry = pdentry lower_path;
     li \<leftarrow> d_inode_of lower_dentry s;
     x \<leftarrow> inode_at li s;
     ops \<leftarrow> i_op x;
     (err, s) \<leftarrow> (if I_setxattr \<notin> set ops then Some (- EOPNOTSUPP, s)
       else do {
         (err, s) \<leftarrow> invoke E [lower_dentry] (Attr (C_vfs_setxattr lower_dentry name value n flags)) s;
         if err \<noteq> 0 then Some (err, s)
         else do {
           i \<leftarrow> d_inode_of dentry s;
           li \<leftarrow> d_inode_of lower_dentry s;
           s \<leftarrow> invoke_void E [i, li] (Node (C_copy_attr_all i li)) s;
           Some (err, s)
         }
       });
     s \<leftarrow> trace_op E (T_setxattr (dname dentry s) name value n flags err) s;
     s \<leftarrow> trfs_put_lower_path E dentry lower_path s;
     Some (err, s)
   }"

definition trfs_getxattr :: "'k env \<Rightarrow> kaddr \<Rightarrow> bytes \<Rightarrow> nat \<Rightarrow> 'k op" where
  "trfs_getxattr E dentry name n s = do {
     (lower_path, s) \<leftarrow> trfs_get_lower_path E dentry s;
     let lower_dentry = pdentry lower_path;
     li \<leftarrow> d_inode_of lower_dentry s;
     x \<leftarrow> inode_at li s;
     ops \<leftarrow> i_op x;
     (err, s) \<leftarrow> (if I_getxattr \<notin> set ops then Some (- EOPNOTSUPP, s)
       else do {
         (r, s) \<leftarrow> invoke E [lower_dentry] (Attr (C_vfs_getxattr lower_dentry name n)) s;
         let err = int32 r;
         if err \<noteq> 0 then Some (err, s)
         else do {
           i \<leftarrow> d_inode_of dentry s;
           li \<leftarrow> d_inode_of lower_dentry s;
           s \<leftarrow> invoke_void E [i, li] (Node (C_copy_attr_atime i li)) s;
           Some (err, s)
         }
       });
     s \<leftarrow> trace_op E (T_getxattr (dname dentry s) name n err) s;
     s \<leftarrow> trfs_put_lower_path E dentry lower_path s;
     Some (err, s)
   }"

definition trfs_listxattr :: "'k env \<Rightarrow> kaddr \<Rightarrow> nat \<Rightarrow> 'k op" where
  "trfs_listxattr E dentry buffer_size s = do {
     (lower_path, s) \<leftarrow> trfs_get_lower_path E dentry s;
     let lower_dentry = pdentry lower_path;
     li \<leftarrow> d_inode_of lower_dentry s;
     x \<leftarrow> inode_at li s;
     ops \<leftarrow> i_op x;
     (err, s) \<leftarrow> (if I_listxattr \<notin> set ops then Some (- EOPNOTSUPP, s)
       else do {
         (r, s) \<leftarrow> invoke E [lower_dentry] (Attr (C_vfs_listxattr lower_dentry buffer_size)) s;
         let err = int32 r;
         if err \<noteq> 0 then Some (err, s)
         else do {
           i \<leftarrow> d_inode_of dentry s;
           li \<leftarrow> d_inode_of lower_dentry s;
           s \<leftarrow> invoke_void E [i, li] (Node (C_copy_attr_atime i li)) s;
           Some (err, s)
         }
       });
     s \<leftarrow> trace_op E (T_listxattr (dname dentry s) buffer_size err) s;
     s \<leftarrow> trfs_put_lower_path E dentry lower_path s;
     Some (err, s)
   }"

definition trfs_removexattr :: "'k env \<Rightarrow> kaddr \<Rightarrow> bytes \<Rightarrow> 'k op" where
  "trfs_removexattr E dentry name s = do {
     (lower_path, s) \<leftarrow> trfs_get_lower_path E dentry s;
     let lower_dentry = pdentry lower_path;
     li \<leftarrow> d_inode_of lower_dentry s;
     x \<leftarrow> inode_at li s;
     (err, s) \<leftarrow> (case i_op x of
         None \<Rightarrow> Some (- EINVAL, s)
       | Some ops \<Rightarrow>
           if I_removexattr \<notin> set ops then Some (- EINVAL, s)
           else do {
             (err, s) \<leftarrow> invoke E [lower_dentry] (Attr (C_vfs_removexattr lower_dentry name)) s;
             if err \<noteq> 0 then Some (err, s)
             else do {
               i \<leftarrow> d_inode_of dentry s;
               li \<leftarrow> d_inode_of lower_dentry s;
               s \<leftarrow> invoke_void E [i, li] (Node (C_copy_attr_all i li)) s;
               Some (err, s)
             }
           });
     s \<leftarrow> trace_op E (T_removexattr (dname dentry s) name err) s;
     s \<leftarrow> trfs_put_lower_path E dentry lower_path s;
     Some (err, s)
   }"

subsection \<open>Calls of the kernel\<close>

text \<open>
  A call through one of the tables, and a sequence of calls with their results. The remaining
  entry, \<open>lookup\<close>, leaves references behind on purpose and is treated in \<^verbatim>\<open>Lookup.thy\<close>.
\<close>

datatype inode_request =
    Q_create kaddr kaddr u32 bool
  | Q_link kaddr kaddr kaddr
  | Q_unlink kaddr kaddr
  | Q_symlink kaddr kaddr bytes
  | Q_mkdir kaddr kaddr u32
  | Q_rmdir kaddr kaddr
  | Q_mknod kaddr kaddr u32 u32
  | Q_rename kaddr kaddr kaddr kaddr
  | Q_readlink kaddr int
  | Q_get_link kaddr
  | Q_permission kaddr int
  | Q_setattr kaddr iattr
  | Q_getattr kaddr
  | Q_setxattr kaddr bytes bytes nat int
  | Q_getxattr kaddr bytes nat
  | Q_listxattr kaddr nat
  | Q_removexattr kaddr bytes

fun inode_call :: "'k env \<Rightarrow> inode_request \<Rightarrow> 'k op" where
  "inode_call E (Q_create dir d m x) = trfs_create E dir d m x"
| "inode_call E (Q_link od dir nd) = trfs_link E od dir nd"
| "inode_call E (Q_unlink dir d) = trfs_unlink E dir d"
| "inode_call E (Q_symlink dir d n) = trfs_symlink E dir d n"
| "inode_call E (Q_mkdir dir d m) = trfs_mkdir E dir d m"
| "inode_call E (Q_rmdir dir d) = trfs_rmdir E dir d"
| "inode_call E (Q_mknod dir d m dev) = trfs_mknod E dir d m dev"
| "inode_call E (Q_rename odir od ndir nd) = trfs_rename E odir od ndir nd"
| "inode_call E (Q_readlink d n) = trfs_readlink E d n"
| "inode_call E (Q_get_link d) = map_option (\<lambda>((p, _), s). (p, s)) \<circ> trfs_get_link E d"
| "inode_call E (Q_permission i m) = trfs_permission E i m"
| "inode_call E (Q_setattr d ia) = trfs_setattr E d ia"
| "inode_call E (Q_getattr d) = map_option (\<lambda>((r, _), s). (r, s)) \<circ> trfs_getattr E d"
| "inode_call E (Q_setxattr d n v k fl) = trfs_setxattr E d n v k fl"
| "inode_call E (Q_getxattr d n k) = trfs_getxattr E d n k"
| "inode_call E (Q_listxattr d k) = trfs_listxattr E d k"
| "inode_call E (Q_removexattr d n) = trfs_removexattr E d n"

fun inode_calls :: "'k env \<Rightarrow> inode_request list \<Rightarrow> 'k vfs \<Rightarrow> (int list \<times> 'k vfs) option" where
  "inode_calls E [] s = Some ([], s)"
| "inode_calls E (q # qs) s = do {
     (r, s) \<leftarrow> inode_call E q s;
     (rs, s) \<leftarrow> inode_calls E qs s;
     Some (r # rs, s)
   }"

section \<open>Lemmas\<close>

subsection \<open>Rules for the operations\<close>

lemma step_copy_dir_attrs [steps]:
  assumes "stable E" and "since E s0 s M D T W" and "\<And>s'. since E s0 s' M D T W \<Longrightarrow> after (f s') Q"
  shows "after (Option.bind (copy_dir_attrs E dir lp s) f) Q"
  unfolding copy_dir_attrs_def by (rule steps assms | assumption)+

text \<open>
  The contract of an operation: what it takes it gives back, the positive dentries and the
  module's memory stay, and the tracer is called as \<open>tr\<close> says of the result.
\<close>

definition performs :: "'k env \<Rightarrow> (int \<Rightarrow> trace_call list \<Rightarrow> bool) \<Rightarrow> 'k op \<Rightarrow> bool" where
  "performs E tr f \<longleftrightarrow>
     (\<forall>s0 s M D T W. since E s0 s M D T W \<longrightarrow>
        after (f s) (\<lambda>(r, s'). \<exists>cs. tr r cs \<and> since E s0 s' M D (T @ cs) W))"

lemma performsI:
  "(\<And>s0 s M D T W. since E s0 s M D T W \<Longrightarrow>
     after (f s) (\<lambda>(r, s'). \<exists>cs. tr r cs \<and> since E s0 s' M D (T @ cs) W)) \<Longrightarrow> performs E tr f"
  by (simp add: performs_def)

lemma performed:
  "since E s0 s' M D (T @ cs) W \<Longrightarrow> tr r cs \<Longrightarrow>
   (case (r, s') of (r, s') \<Rightarrow> \<exists>cs. tr r cs \<and> since E s0 s' M D (T @ cs) W)"
  by auto

lemma performed0:
  "since E s0 s' M D T W \<Longrightarrow> tr r [] \<Longrightarrow>
   (case (r, s') of (r, s') \<Rightarrow> \<exists>cs. tr r cs \<and> since E s0 s' M D (T @ cs) W)"
  by force

lemma traced_perform:
  assumes "stable E"
  shows mkdir_performs: "performs E (\<lambda>r cs. \<exists>q. cs = [T_mkdir q (uint m) r]) (trfs_mkdir E dir d m)"
    and link_performs: "performs E (\<lambda>r cs. \<exists>p q. cs = [T_link p q r]) (trfs_link E od dir nd)"
    and unlink_performs: "performs E (\<lambda>r cs. \<exists>q. cs = [T_unlink q r]) (trfs_unlink E dir d)"
    and symlink_performs: "performs E (\<lambda>r cs. \<exists>q. cs = [T_symlink q n r]) (trfs_symlink E dir d n)"
    and rmdir_performs: "performs E (\<lambda>r cs. \<exists>q. cs = [T_rmdir q r]) (trfs_rmdir E dir d)"
    and mknod_performs: "performs E (\<lambda>r cs. \<exists>q. cs = [T_mknod q m dev r]) (trfs_mknod E dir d m dev)"
    and rename_performs: "performs E (\<lambda>r cs. \<exists>p q. cs = [T_rename p q r]) (trfs_rename E odir od ndir nd)"
    and setxattr_performs: "performs E (\<lambda>r cs. \<exists>q. cs = [T_setxattr q n v k fl r]) (trfs_setxattr E d n v k fl)"
    and getxattr_performs: "performs E (\<lambda>r cs. \<exists>q. cs = [T_getxattr q n k r]) (trfs_getxattr E d n k)"
    and listxattr_performs: "performs E (\<lambda>r cs. \<exists>q. cs = [T_listxattr q k r]) (trfs_listxattr E d k)"
    and removexattr_performs: "performs E (\<lambda>r cs. \<exists>q. cs = [T_removexattr q n r]) (trfs_removexattr E d n)"
  unfolding trfs_mkdir_def trfs_link_def trfs_unlink_def trfs_symlink_def trfs_rmdir_def trfs_mknod_def trfs_rename_def trfs_setxattr_def trfs_getxattr_def trfs_listxattr_def trfs_removexattr_def
  by (rule performsI steps assms performed exI refl | assumption | (rule step_swap, assumption))+

lemma untraced_perform:
  assumes "stable E"
  shows create_performs: "performs E (\<lambda>r cs. cs = []) (trfs_create E dir d m x)"
    and readlink_performs: "performs E (\<lambda>r cs. cs = []) (trfs_readlink E d n)"
  unfolding trfs_create_def trfs_readlink_def
  by (rule performsI steps assms performed0 refl | assumption)+

lemma permission_performs:
  assumes "stable E"
  shows "performs E (\<lambda>r cs. cs = []) (trfs_permission E i m)"
proof (rule performsI)
  fix s0 s :: "'a vfs" and M D T W assume s: "since E s0 s M D T W"
  have "after (Option.bind (trfs_permission E i m s) (case_prod (\<lambda>r s. Some (r, s))))
      (\<lambda>(r, s'). \<exists>cs. cs = [] \<and> since E s0 s' M D (T @ cs) W)"
    unfolding trfs_permission_def
    by (rule steps assms s performed0 refl | assumption)+
  then show "after (trfs_permission E i m s) (\<lambda>(r, s'). \<exists>cs. cs = [] \<and> since E s0 s' M D (T @ cs) W)"
    by simp
qed

text \<open>The lock around \<open>notify_change\<close>: the lower dentry still has the inode that was locked.\<close>

lemma step_notify_lower [steps]:
  assumes "stable E" and "since E s0 s M D T W"
    and "\<And>r s'. since E s0 s' M D T W \<Longrightarrow> after (f r s') Q"
  shows "after (Option.bind (notify_lower E ld ia s) (case_prod f)) Q"
  unfolding notify_lower_def
  apply (rule step_bind_bind1, rule step_read, rule step_bind_bind1, rule step_valid)
  apply (rule step_take [OF assms(1)], rule since_know, rule assms(2), assumption, simp)
  apply (rule step_bind_bind, rule step_calls [OF assms(1)], assumption)
  apply (rule step_bind_bind1, rule step_read)
  apply (frule (1) since_inode, simp only:)
  apply (rule step_bind_bind1, rule step_give [OF assms(1)], assumption)
  apply (rule step_pair, rule assms(3))
  apply (simp add: since_def)
  done

lemma setattr_performs:
  assumes "stable E"
  shows "performs E (\<lambda>r cs. cs = []) (trfs_setattr E d ia)"
  unfolding trfs_setattr_def
  by (rule performsI) (rule steps assms performed0 refl | assumption)+

lemma performed_fst:
  "since E s0 s' M D T W \<Longrightarrow>
   ((\<lambda>(r, s'). \<exists>cs. cs = [] \<and> since E s0 s' M D (T @ cs) W) \<circ> (\<lambda>((r, _), s). (r, s))) ((r, x), s')"
  by simp

lemma getattr_performs:
  assumes "stable E"
  shows "performs E (\<lambda>r cs. cs = []) (inode_call E (Q_getattr d))"
  unfolding trfs_getattr_def inode_call.simps comp_def [of "map_option _"]
  by (rule performsI, unfold after_map) (rule steps assms performed_fst refl | assumption)+

lemma get_link_performs:
  assumes "stable E"
  shows "performs E (\<lambda>r cs. cs = []) (inode_call E (Q_get_link d))"
  unfolding trfs_get_link_def trfs_readlink_def inode_call.simps comp_def [of "map_option _"]
  by (rule performsI, unfold after_map) (rule steps assms performed_fst refl after_None | assumption)+


subsection \<open>The contract of the operations\<close>

locale vfs_operation =
  fixes f :: "'k env \<Rightarrow> 'k op" and tr :: "int \<Rightarrow> trace_call list \<Rightarrow> bool"
  assumes performs: "stable E \<Longrightarrow> performs E tr (f E)"
begin

lemma since_start:
  assumes "stable E" and "f E s = Some (r, s')"
  shows "\<exists>cs. tr r cs \<and> since E s s' {#} [] cs s"
proof -
  have "after (f E s) (\<lambda>(r, s'). \<exists>cs. tr r cs \<and> since E s s' {#} [] ([] @ cs) s)"
    using performs [OF assms(1)] since_refl [of E s] unfolding performs_def by blast
  from afterD [OF this assms(2)] show ?thesis by simp
qed

lemma gives_back:
  assumes "stable E" and "f E s = Some (r, s')" and "pins s = Some R"
  shows "pins s' = Some R"
  using since_start [OF assms(1,2)] assms(3) by (auto simp: since_def)

lemma leaves_memory: "stable E \<Longrightarrow> f E s = Some (r, s') \<Longrightarrow> own s' = own s"
  by (drule (1) since_start) (auto simp: since_def)

lemma logs:
  assumes "stable E" and "f E s = Some (r, s')"
  shows "\<exists>cs. tr r cs \<and> traced s' = traced s @ cs \<and> log_all E (tld s) cs (klg s) = Some (klg s')"
  using since_start [OF assms] by (auto simp: since_def)

end

text \<open>An operation that reports each call once, with the value it returns.\<close>

locale traced_operation = vfs_operation +
  assumes once: "tr r cs \<Longrightarrow> \<exists>c. cs = [c] \<and> call_ret c = r"
begin

lemma reports_result:
  assumes "stable E" and "f E s = Some (r, s')"
  shows "\<exists>c. traced s' = traced s @ [c] \<and> call_ret c = r"
  using logs [OF assms] once by blast

end

interpretation create: vfs_operation "\<lambda>E. trfs_create E dir d m x" "\<lambda>r cs. cs = []" for dir d m x
  by unfold_locales (rule create_performs)

interpretation link: traced_operation "\<lambda>E. trfs_link E od dir nd" "\<lambda>r cs. \<exists>p q. cs = [T_link p q r]" for od dir nd
  by unfold_locales (rule link_performs, assumption, auto)

interpretation unlink: traced_operation "\<lambda>E. trfs_unlink E dir d" "\<lambda>r cs. \<exists>q. cs = [T_unlink q r]" for dir d
  by unfold_locales (rule unlink_performs, assumption, auto)

interpretation symlink: traced_operation "\<lambda>E. trfs_symlink E dir d n" "\<lambda>r cs. \<exists>q. cs = [T_symlink q n r]" for dir d n
  by unfold_locales (rule symlink_performs, assumption, auto)

interpretation mkdir: traced_operation "\<lambda>E. trfs_mkdir E dir d m" "\<lambda>r cs. \<exists>q. cs = [T_mkdir q (uint m) r]" for dir d m
  by unfold_locales (rule mkdir_performs, assumption, auto)

interpretation rmdir: traced_operation "\<lambda>E. trfs_rmdir E dir d" "\<lambda>r cs. \<exists>q. cs = [T_rmdir q r]" for dir d
  by unfold_locales (rule rmdir_performs, assumption, auto)

interpretation mknod: traced_operation "\<lambda>E. trfs_mknod E dir d m dev" "\<lambda>r cs. \<exists>q. cs = [T_mknod q m dev r]" for dir d m dev
  by unfold_locales (rule mknod_performs, assumption, auto)

interpretation rename: traced_operation "\<lambda>E. trfs_rename E odir od ndir nd" "\<lambda>r cs. \<exists>p q. cs = [T_rename p q r]"
  for odir od ndir nd
  by unfold_locales (rule rename_performs, assumption, auto)

interpretation readlink: vfs_operation "\<lambda>E. trfs_readlink E d n" "\<lambda>r cs. cs = []" for d n
  by unfold_locales (rule readlink_performs)

interpretation get_link: vfs_operation "\<lambda>E. inode_call E (Q_get_link d)" "\<lambda>r cs. cs = []" for d
  by unfold_locales (rule get_link_performs)

interpretation permission: vfs_operation "\<lambda>E. trfs_permission E i m" "\<lambda>r cs. cs = []" for i m
  by unfold_locales (rule permission_performs)

interpretation setattr: vfs_operation "\<lambda>E. trfs_setattr E d ia" "\<lambda>r cs. cs = []" for d ia
  by unfold_locales (rule setattr_performs)

interpretation getattr: vfs_operation "\<lambda>E. inode_call E (Q_getattr d)" "\<lambda>r cs. cs = []" for d
  by unfold_locales (rule getattr_performs)

interpretation setxattr: traced_operation "\<lambda>E. trfs_setxattr E d n v k fl" "\<lambda>r cs. \<exists>q. cs = [T_setxattr q n v k fl r]"
  for d n v k fl
  by unfold_locales (rule setxattr_performs, assumption, auto)

interpretation getxattr: traced_operation "\<lambda>E. trfs_getxattr E d n k" "\<lambda>r cs. \<exists>q. cs = [T_getxattr q n k r]" for d n k
  by unfold_locales (rule getxattr_performs, assumption, auto)

interpretation listxattr: traced_operation "\<lambda>E. trfs_listxattr E d k" "\<lambda>r cs. \<exists>q. cs = [T_listxattr q k r]" for d k
  by unfold_locales (rule listxattr_performs, assumption, auto)

interpretation removexattr: traced_operation "\<lambda>E. trfs_removexattr E d n" "\<lambda>r cs. \<exists>q. cs = [T_removexattr q n r]" for d n
  by unfold_locales (rule removexattr_performs, assumption, auto)

subsection \<open>Sequences of operations\<close>

text \<open>Which calls of the tracer a request makes when it returns \<open>r\<close>; \<open>p\<close> and \<open>q\<close> are the names of dentries.\<close>

fun reports :: "inode_request \<Rightarrow> int \<Rightarrow> trace_call list \<Rightarrow> bool" where
  "reports (Q_link od dir nd) r cs \<longleftrightarrow> (\<exists>p q. cs = [T_link p q r])"
| "reports (Q_unlink dir d) r cs \<longleftrightarrow> (\<exists>q. cs = [T_unlink q r])"
| "reports (Q_symlink dir d n) r cs \<longleftrightarrow> (\<exists>q. cs = [T_symlink q n r])"
| "reports (Q_mkdir dir d m) r cs \<longleftrightarrow> (\<exists>q. cs = [T_mkdir q (uint m) r])"
| "reports (Q_rmdir dir d) r cs \<longleftrightarrow> (\<exists>q. cs = [T_rmdir q r])"
| "reports (Q_mknod dir d m dev) r cs \<longleftrightarrow> (\<exists>q. cs = [T_mknod q m dev r])"
| "reports (Q_rename odir od ndir nd) r cs \<longleftrightarrow> (\<exists>p q. cs = [T_rename p q r])"
| "reports (Q_setxattr d n v k fl) r cs \<longleftrightarrow> (\<exists>q. cs = [T_setxattr q n v k fl r])"
| "reports (Q_getxattr d n k) r cs \<longleftrightarrow> (\<exists>q. cs = [T_getxattr q n k r])"
| "reports (Q_listxattr d k) r cs \<longleftrightarrow> (\<exists>q. cs = [T_listxattr q k r])"
| "reports (Q_removexattr d n) r cs \<longleftrightarrow> (\<exists>q. cs = [T_removexattr q n r])"
| "reports _ r cs \<longleftrightarrow> cs = []"

lemmas untraced_since =
  create.since_start [simplified] readlink.since_start [simplified] get_link.since_start [simplified]
  permission.since_start [simplified] setattr.since_start [simplified] getattr.since_start [simplified]

lemmas traced_since =
  link.since_start unlink.since_start symlink.since_start mkdir.since_start rmdir.since_start
  mknod.since_start rename.since_start setxattr.since_start getxattr.since_start
  listxattr.since_start removexattr.since_start

lemma inode_call_since:
  assumes "stable E" and "inode_call E q s = Some (r, s')"
  shows "\<exists>cs. reports q r cs \<and> since E s s' {#} [] cs s"
  using assms by (cases q) (simp_all add: untraced_since traced_since)

text \<open>The same for a sequence of requests.\<close>

fun reported :: "inode_request list \<Rightarrow> int list \<Rightarrow> trace_call list \<Rightarrow> bool" where
  "reported [] [] cs \<longleftrightarrow> cs = []"
| "reported (q # qs) (r # rs) cs \<longleftrightarrow> (\<exists>c1 c2. cs = c1 @ c2 \<and> reports q r c1 \<and> reported qs rs c2)"
| "reported _ _ cs \<longleftrightarrow> False"

lemma since_memory: "since E s0 s M D T W \<Longrightarrow> own s = own W"
  by (simp add: since_def)

lemma inode_calls_since:
  assumes "stable E" and "inode_calls E qs s = Some (rs, s')"
  shows "\<exists>cs. reported qs rs cs \<and> since E s s' {#} [] cs s"
  using assms(2)
proof (induction qs arbitrary: s rs)
  case Nil
  then show ?case by (simp add: since_refl)
next
  case (Cons q qs)
  then obtain r s1 rs1 where q: "inode_call E q s = Some (r, s1)" "inode_calls E qs s1 = Some (rs1, s')" "rs = r # rs1"
    by (auto simp: bind_eq_Some_conv)
  obtain c1 where c1: "reports q r c1" "since E s s1 {#} [] c1 s"
    using inode_call_since [OF assms(1) q(1)] by blast
  obtain c2 where c2: "reported qs rs1 c2" "since E s1 s' {#} [] c2 s1" using Cons.IH [OF q(2)] by blast
  have "since E s s' {#} [] (c1 @ c2) s"
    using since_trans [OF c1(2) c2(2)] since_memory [OF c1(2)] by (simp add: since_def)
  with c1(1) c2(1) show ?case unfolding q(3) by auto
qed

subsection \<open>Failures of the lower file system\<close>

text \<open>Calls that do not touch the upper inodes and dentries.\<close>

fun below :: "kcall \<Rightarrow> bool" where
  "below (Node c) = False"
| "below _ = True"

text \<open>The operations that change a directory.\<close>

fun dir_request :: "inode_request \<Rightarrow> bool" where
  "dir_request (Q_create _ _ _ _) = True"
| "dir_request (Q_link _ _ _) = True"
| "dir_request (Q_unlink _ _) = True"
| "dir_request (Q_symlink _ _ _) = True"
| "dir_request (Q_mkdir _ _ _) = True"
| "dir_request (Q_rmdir _ _) = True"
| "dir_request (Q_mknod _ _ _ _) = True"
| "dir_request (Q_rename _ _ _ _) = True"
| "dir_request _ = False"

text \<open>The errors an operation can return when the lower file system fails with \<open>e\<close>.\<close>

fun failure :: "inode_request \<Rightarrow> int \<Rightarrow> int \<Rightarrow> bool" where
  "failure (Q_rename _ _ _ _) e r \<longleftrightarrow> r \<in> {e, - EINVAL, - ENOTEMPTY}"
| "failure _ e r \<longleftrightarrow> r = e"

lemma below_intros: "below (Ref rc)" "below (Dir dc)" "below (Attr ac)" "below (File fc)"
  by simp_all

lemma only_dir:
  assumes "\<And>c k. fst (kern E (Dir c) k) = e" and "only P s0 s" and "P (Dir c)"
    and "\<And>s'. only P s0 s' \<Longrightarrow> after (f e s') Q"
  shows "after (Option.bind (invoke E ps (Dir c) s) (case_prod f)) Q"
  by (rule only_call [OF assms(2,3)]) (simp add: assms(1,4))

lemmas below_rules = onlys [where P = below] flow below_intros case_prodI conjI refl

lemma ops_fail:
  assumes "\<And>c k. fst (kern E (Dir c) k) = e" and "e \<noteq> 0"
  shows mkdir_fails: "after (trfs_mkdir E dir d m s) (\<lambda>(r, s'). r = e \<and> only below s s')"
    and create_fails: "after (trfs_create E dir d m x s) (\<lambda>(r, s'). r = e \<and> only below s s')"
    and symlink_fails: "after (trfs_symlink E dir d n s) (\<lambda>(r, s'). r = e \<and> only below s s')"
    and mknod_fails: "after (trfs_mknod E dir d m dev s) (\<lambda>(r, s'). r = e \<and> only below s s')"
    and rmdir_fails: "after (trfs_rmdir E dir d s) (\<lambda>(r, s'). r = e \<and> only below s s')"
    and link_fails: "after (trfs_link E od dir nd s) (\<lambda>(r, s'). r = e \<and> only below s s')"
  unfolding trfs_mkdir_def trfs_create_def trfs_symlink_def trfs_mknod_def trfs_rmdir_def trfs_link_def
  by (assumption | (erule notE, rule assms(2)) | (erule notE, rule disjI1, rule assms(2)) |
      rule only_dir [OF assms(1), where P = below] below_rules only_refl [of below s])+

lemma unlink_fails:
  assumes "\<And>c k. fst (kern E (Dir c) k) = e" and "e \<noteq> 0" and "e \<noteq> - EBUSY"
  shows "after (trfs_unlink E dir d s) (\<lambda>(r, s'). r = e \<and> only below s s')"
proof -
  have busy: "(if e = - EBUSY \<and> b then 0 else e) = e" for b using assms(3) by simp
  show ?thesis
    unfolding trfs_unlink_def
    by (assumption | (erule notE, rule assms(2)) | (rule step_let, simp only: busy) |
        rule only_dir [OF assms(1), where P = below] below_rules only_refl [of below s])+
qed

lemma rename_fails:
  assumes "\<And>c k. fst (kern E (Dir c) k) = e" and "e \<noteq> 0"
  shows "after (trfs_rename E odir od ndir nd s) (\<lambda>(r, s'). r \<in> {e, - EINVAL, - ENOTEMPTY} \<and> only below s s')"
  unfolding trfs_rename_def
  by (assumption | (erule notE, rule assms(2)) |
      rule only_dir [OF assms(1), where P = below] below_rules insertI1 insertI2 only_refl [of below s])+

lemma dir_request_fails:
  assumes "\<And>c k. fst (kern E (Dir c) k) = e" and "e \<noteq> 0" and "e \<noteq> - EBUSY" and "dir_request q"
  shows "after (inode_call E q s) (\<lambda>(r, s'). failure q e r \<and> only below s s')"
  using assms(4) create_fails [OF assms(1,2)] link_fails [OF assms(1,2)] unlink_fails [OF assms(1-3)]
    symlink_fails [OF assms(1,2)] mkdir_fails [OF assms(1,2)] rmdir_fails [OF assms(1,2)]
    mknod_fails [OF assms(1,2)] rename_fails [OF assms(1,2)]
  by (cases q) simp_all

text \<open>The rename lock tells that one of the two objects is an ancestor of the other.\<close>

fun pinning :: "kcall \<Rightarrow> bool" where
  "pinning (Ref c) = True"
| "pinning _ = False"

lemma pinning_intro: "pinning (Ref c)"
  by simp

lemma only_trap:
  assumes "\<And>a b k. fst (kern E (Ref (R_lock_rename a b)) k) = t" and "only pinning s0 s"
    and "\<And>s'. only pinning s0 s' \<Longrightarrow> after (f t s') Q"
  shows "after (Option.bind (invoke E ps (Ref (R_lock_rename a b)) s) (case_prod f)) Q"
  by (rule only_call [OF assms(2)]) (simp_all add: assms(1,3))

lemma rename_trapped:
  assumes "\<And>a b k. fst (kern E (Ref (R_lock_rename a b)) k) = t"
    and "TRFS_D od s = Some \<lparr>lower_path = lo\<rparr>" and "TRFS_D nd s = Some \<lparr>lower_path = ln\<rparr>"
    and "t = pdentry lo \<or> t = pdentry ln"
  shows "after (trfs_rename E odir od ndir nd s) (\<lambda>(r, s').
    r = (if t = pdentry lo then - EINVAL else - ENOTEMPTY) \<and> only pinning s s')"
proof -
  have absurd: "t \<noteq> pdentry lo \<Longrightarrow> t \<noteq> pdentry ln \<Longrightarrow> R" for R using assms(4) by blast
  have res: "t = pdentry lo \<Longrightarrow> - EINVAL = (if t = pdentry lo then - EINVAL else - ENOTEMPTY)"
    "t \<noteq> pdentry lo \<Longrightarrow> - ENOTEMPTY = (if t = pdentry lo then - EINVAL else - ENOTEMPTY)" by simp_all
  show ?thesis
    unfolding trfs_rename_def
    apply (rule only_get_path [where P = pinning], rule only_refl, rule pinning_intro)
    apply (rule only_get_path [where P = pinning], assumption, rule pinning_intro)
    apply (simp only: assms(2,3) option.inject trfs_dentry_info.ext_inject simp_thms)
    apply hypsubst
    apply (assumption | erule (1) absurd | erule res |
      rule only_trap [OF assms(1)] onlys [where P = pinning] flow pinning_intro case_prodI conjI)+
    done
qed

section \<open>Properties\<close>

lemma sample_mkdir: "\<exists>s'. inode_calls sample_env [Q_mkdir 31 10 0x1ED] sample_vfs = Some ([0], s')"
  by (simp add: trfs_mkdir_def trfs_log_mkdir_op_def interpose_simps run_simps sample_simps copy_dir_attrs_def)





definition refusing_env :: "unit env" where
  "refusing_env = sample_env\<lparr>kern := (\<lambda>c k. case c of Dir d \<Rightarrow> (- ENOENT, k) | _ \<Rightarrow> sample_kern c k)\<rparr>"


text \<open>C37: A rename of an object into its own subtree, or onto one of its ancestors, never reaches the
  lower file system: when the rename lock reports the source or the target as the ancestor, the
  operation returns \<open>-EINVAL\<close> or \<open>-ENOTEMPTY\<close>, and all calls it made are those that take and give
  back references and locks.\<close>

theorem rename_stops_at_ancestors:
  assumes "\<And>a b k. fst (kern E (Ref (R_lock_rename a b)) k) = t"
    and "TRFS_D od s = Some \<lparr>lower_path = lo\<rparr>" and "TRFS_D nd s = Some \<lparr>lower_path = ln\<rparr>"
    and "t = pdentry lo \<or> t = pdentry ln" and "trfs_rename E odir od ndir nd s = Some (r, s')"
  shows "r = (if t = pdentry lo then - EINVAL else - ENOTEMPTY) \<and> only pinning s s'"
  using afterD [OF rename_trapped [OF assms(1-4)] assms(5)] by simp

definition trapping_env :: "unit env" where
  "trapping_env = sample_env\<lparr>kern := (\<lambda>c k. case c of
     Ref (R_lock_rename a b) \<Rightarrow> (21, k) | _ \<Rightarrow> sample_kern c k)\<rparr>"

theorem rename_stops_at_ancestors_witness:
  "\<exists>s'. trfs_rename trapping_env 31 10 31 11 sample_vfs = Some (- ENOTEMPTY, s') \<and> only pinning sample_vfs s'"
proof -
  obtain s' where "trfs_rename trapping_env 31 10 31 11 sample_vfs = Some (- ENOTEMPTY, s')"
    by (simp add: trfs_rename_def trfs_log_rename_op_def run_simps sample_simps trapping_env_def)
  then show ?thesis
    using rename_stops_at_ancestors [of trapping_env 21 10 sample_vfs "\<lparr>pdentry = 20, pmnt = 60\<rparr>" 11
        "\<lparr>pdentry = 21, pmnt = 60\<rparr>" 31 31 "- ENOTEMPTY" s']
    by (simp add: trapping_env_def TRFS_D_def valid_def IS_ERR_def sample_vfs_def)
qed

end
