(* ===== verification/File_Ops.thy ===== *)
theory File_Ops
  imports Inode_Ops
begin

section \<open>Operations on open files (trfs/file.c, trfs/mmap.c)\<close>

text \<open>
  The operations of \<open>trfs_main_fops\<close> and \<open>trfs_dir_fops\<close> and those on mapped memory. A file of the
  upper file system has private data with the lower file and, once it is mapped, the lower
  operations on memory areas; \<open>open\<close> allocates it, \<open>release\<close> frees it.

  The lemmas show the contract of \<^verbatim>\<open>Inode_Ops.thy\<close> for the operations in between, and for a whole
  session, from the opening of a file to its release, that references and private data are given
  back and the session is traced.
\<close>

subsection \<open>Reading and writing\<close>

definition copy_atime :: "'k env \<Rightarrow> kaddr \<Rightarrow> kaddr \<Rightarrow> 'k vfs \<Rightarrow> 'k vfs option" where
  "copy_atime E dentry lower s = do {
     i \<leftarrow> d_inode_of dentry s;
     lf \<leftarrow> file_at lower s;
     invoke_void E [i, f_inode lf] (Node (C_copy_attr_atime i (f_inode lf))) s
   }"

definition copy_size_times :: "'k env \<Rightarrow> kaddr \<Rightarrow> kaddr \<Rightarrow> 'k vfs \<Rightarrow> 'k vfs option" where
  "copy_size_times E dentry lower s = do {
     i \<leftarrow> d_inode_of dentry s;
     lf \<leftarrow> file_at lower s;
     s \<leftarrow> invoke_void E [i, f_inode lf] (Node (C_copy_inode_size i (f_inode lf))) s;
     i \<leftarrow> d_inode_of dentry s;
     lf \<leftarrow> file_at lower s;
     invoke_void E [i, f_inode lf] (Node (C_copy_attr_times i (f_inode lf))) s
   }"

text \<open>\<open>pos\<close> is the position the caller's pointer points to; the lower file system leaves the new one in \<open>outn\<close>.\<close>

definition trfs_read :: "'k env \<Rightarrow> kaddr \<Rightarrow> nat \<Rightarrow> int \<Rightarrow> 'k op" where
  "trfs_read E file cnt pos s = do {
     fl \<leftarrow> file_at file s;
     let dentry = f_dentry fl;
     lower \<leftarrow> trfs_lower_file file s;
     (r, s) \<leftarrow> invoke E [lower] (File (C_vfs_read lower cnt pos)) s;
     let err = int32 r;
     let ppos = outn (ko s);
     s \<leftarrow> (if 0 \<le> err then copy_atime E dentry lower s else Some s);
     s \<leftarrow> trace_op E (T_read (trfile_of file s) cnt ppos err) s;
     Some (err, s)
   }"

definition trfs_write :: "'k env \<Rightarrow> kaddr \<Rightarrow> bytes \<Rightarrow> nat \<Rightarrow> int \<Rightarrow> 'k op" where
  "trfs_write E file ubuf cnt pos s = do {
     fl \<leftarrow> file_at file s;
     let dentry = f_dentry fl;
     lower \<leftarrow> trfs_lower_file file s;
     (r, s) \<leftarrow> invoke E [lower] (File (C_vfs_write lower ubuf cnt pos)) s;
     let err = int32 r;
     let ppos = outn (ko s);
     s \<leftarrow> (if 0 \<le> err then copy_size_times E dentry lower s else Some s);
     s \<leftarrow> trace_op E (T_write (trfile_of file s) ubuf cnt ppos err) s;
     Some (err, s)
   }"

definition trfs_readdir :: "'k env \<Rightarrow> kaddr \<Rightarrow> 'k op" where
  "trfs_readdir E file s = do {
     fl \<leftarrow> file_at file s;
     let dentry = f_dentry fl;
     lower \<leftarrow> trfs_lower_file file s;
     (err, s) \<leftarrow> invoke E [lower] (File (C_iterate_dir lower)) s;
     lf \<leftarrow> file_at lower s;
     s \<leftarrow> set_file file (\<lambda>x. x\<lparr>f_pos := f_pos lf\<rparr>) s;
     s \<leftarrow> (if 0 \<le> err then copy_atime E dentry lower s else Some s);
     Some (err, s)
   }"

subsection \<open>Control operations\<close>

definition has_fop :: "fop \<Rightarrow> vfile \<Rightarrow> bool" where
  "has_fop op fl \<longleftrightarrow> (case f_op fl of None \<Rightarrow> False | Some ops \<Rightarrow> map_of ops op \<noteq> None)"

definition trfs_unlocked_ioctl :: "'k env \<Rightarrow> kaddr \<Rightarrow> nat \<Rightarrow> nat \<Rightarrow> 'k op" where
  "trfs_unlocked_ioctl E file cmd arg s = do {
     lower \<leftarrow> trfs_lower_file file s;
     if lower = 0 then Some (- ENOTTY, s)
     else do {
       lf \<leftarrow> file_at lower s;
       if f_op lf = None then Some (- ENOTTY, s)
       else do {
         (err, s) \<leftarrow> (if has_fop FO_unlocked_ioctl lf
           then invoke E [lower] (File (C_lower_ioctl lower FO_unlocked_ioctl cmd arg)) s
           else Some (- ENOTTY, s));
         s \<leftarrow> (if err = 0 then do {
             fl \<leftarrow> file_at file s;
             lf \<leftarrow> file_at lower s;
             invoke_void E [f_inode fl, f_inode lf] (Node (C_copy_attr_all (f_inode fl) (f_inode lf))) s
           } else Some s);
         Some (err, s)
       }
     }
   }"

definition trfs_compat_ioctl :: "'k env \<Rightarrow> kaddr \<Rightarrow> nat \<Rightarrow> nat \<Rightarrow> 'k op" where
  "trfs_compat_ioctl E file cmd arg s = do {
     lower \<leftarrow> trfs_lower_file file s;
     if lower = 0 then Some (- ENOTTY, s)
     else do {
       lf \<leftarrow> file_at lower s;
       if f_op lf = None \<or> \<not> has_fop FO_compat_ioctl lf then Some (- ENOTTY, s)
       else do {
         (err, s) \<leftarrow> invoke E [lower] (File (C_lower_ioctl lower FO_compat_ioctl cmd arg)) s;
         Some (err, s)
       }
     }
   }"

definition trfs_flush :: "'k env \<Rightarrow> kaddr \<Rightarrow> kaddr \<Rightarrow> 'k op" where
  "trfs_flush E file owner s = do {
     lower \<leftarrow> trfs_lower_file file s;
     if lower = 0 then Some (0, s)
     else do {
       lf \<leftarrow> file_at lower s;
       if has_fop FO_flush lf then do {
         s \<leftarrow> invoke_void E [file] (File (C_filemap_write_and_wait file)) s;
         (err, s) \<leftarrow> invoke E [lower] (File (C_lower_flush lower owner)) s;
         Some (err, s)
       } else Some (0, s)
     }
   }"

definition trfs_fsync :: "'k env \<Rightarrow> kaddr \<Rightarrow> int \<Rightarrow> int \<Rightarrow> int \<Rightarrow> 'k op" where
  "trfs_fsync E file start end datasync s = do {
     fl \<leftarrow> file_at file s;
     let dentry = f_dentry fl;
     (err, s) \<leftarrow> invoke E [file] (File (C_generic_file_fsync file start end datasync)) s;
     if err \<noteq> 0 then Some (err, s)
     else do {
       lower \<leftarrow> trfs_lower_file file s;
       (lp, s) \<leftarrow> trfs_get_lower_path E dentry s;
       (err, s) \<leftarrow> invoke E [lower] (File (C_vfs_fsync_range lower start end datasync)) s;
       s \<leftarrow> trfs_put_lower_path E dentry lp s;
       Some (err, s)
     }
   }"

definition trfs_fasync :: "'k env \<Rightarrow> int \<Rightarrow> kaddr \<Rightarrow> int \<Rightarrow> 'k op" where
  "trfs_fasync E fd file flag s = do {
     lower \<leftarrow> trfs_lower_file file s;
     lf \<leftarrow> file_at lower s;
     if has_fop FO_fasync lf then do {
       (err, s) \<leftarrow> invoke E [lower] (File (C_lower_fasync fd lower flag)) s;
       Some (err, s)
     } else Some (0, s)
   }"

text \<open>The positions are cut to an \<open>int\<close>.\<close>

definition trfs_file_llseek :: "'k env \<Rightarrow> kaddr \<Rightarrow> int \<Rightarrow> int \<Rightarrow> 'k op" where
  "trfs_file_llseek E file offset whence s = do {
     (r, s) \<leftarrow> invoke E [file] (File (C_generic_file_llseek file offset whence)) s;
     let err = int32 r;
     if err < 0 then Some (err, s)
     else do {
       lower \<leftarrow> trfs_lower_file file s;
       (r, s) \<leftarrow> invoke E [lower] (File (C_generic_file_llseek lower offset whence)) s;
       Some (int32 r, s)
     }
   }"

subsection \<open>Asynchronous reading and writing\<close>

text \<open>
  The control block \<open>iocb\<close> names the lower file while the lower operation runs. A reference to
  the lower file is held meanwhile.
\<close>

definition trfs_read_iter :: "'k env \<Rightarrow> kaddr \<Rightarrow> kaddr \<Rightarrow> 'k op" where
  "trfs_read_iter E file iter s = do {
     lower \<leftarrow> trfs_lower_file file s;
     lf \<leftarrow> file_at lower s;
     ops \<leftarrow> f_op lf;
     if map_of ops FO_read_iter = None then Some (- EINVAL, s)
     else do {
       s \<leftarrow> invoke_void E [lower] (Ref (R_get_file lower)) s;
       (r, s) \<leftarrow> invoke E [lower] (File (C_read_iter lower iter)) s;
       let err = int32 r;
       s \<leftarrow> invoke_void E [lower] (Ref (R_fput lower)) s;
       s \<leftarrow> (if 0 \<le> err \<or> err = - EIOCBQUEUED then do {
           fl \<leftarrow> file_at file s;
           copy_atime E (f_dentry fl) lower s
         } else Some s);
       Some (err, s)
     }
   }"

definition trfs_write_iter :: "'k env \<Rightarrow> kaddr \<Rightarrow> kaddr \<Rightarrow> 'k op" where
  "trfs_write_iter E file iter s = do {
     lower \<leftarrow> trfs_lower_file file s;
     lf \<leftarrow> file_at lower s;
     ops \<leftarrow> f_op lf;
     if map_of ops FO_write_iter = None then Some (- EINVAL, s)
     else do {
       s \<leftarrow> invoke_void E [lower] (Ref (R_get_file lower)) s;
       (r, s) \<leftarrow> invoke E [lower] (File (C_write_iter lower iter)) s;
       let err = int32 r;
       s \<leftarrow> invoke_void E [lower] (Ref (R_fput lower)) s;
       s \<leftarrow> (if 0 \<le> err \<or> err = - EIOCBQUEUED then do {
           fl \<leftarrow> file_at file s;
           copy_size_times E (f_dentry fl) lower s
         } else Some s);
       Some (err, s)
     }
   }"

subsection \<open>Opening and releasing\<close>

abbreviation (input) SIZE_file_info :: nat where "SIZE_file_info \<equiv> 16"

definition free_file_info :: "'k env \<Rightarrow> kaddr \<Rightarrow> 'k vfs \<Rightarrow> 'k vfs option" where
  "free_file_info E file s = do {
     s \<leftarrow> invoke_void E [] (Ref (R_free (private_data s file))) s;
     Some (s\<lparr>finfos := (finfos s)(private_data s file := None)\<rparr>)
   }"

text \<open>The part of \<open>trfs_open\<close> after the private data has been allocated.\<close>

definition open_lower :: "'k env \<Rightarrow> kaddr \<Rightarrow> kaddr \<Rightarrow> 'k op" where
  "open_lower E inode file s = do {
     fl \<leftarrow> file_at file s;
     (lp, s) \<leftarrow> trfs_get_lower_path E (f_dentry fl) s;
     fl \<leftarrow> file_at file s;
     (lower, s) \<leftarrow> invoke E [pdentry lp] (Ref (R_dentry_open lp (f_flags fl))) s;
     s \<leftarrow> invoke_void E [] (Ref (R_path_put lp)) s;
     if IS_ERR lower then do {
       old \<leftarrow> trfs_lower_file file s;
       s \<leftarrow> (if old \<noteq> 0 then do {
           s \<leftarrow> trfs_set_lower_file file 0 s;
           invoke_void E [old] (Ref (R_fput old)) s
         } else Some s);
       s \<leftarrow> free_file_info E file s;
       Some (lower, s)
     }
     else do {
       s \<leftarrow> trfs_set_lower_file file lower s;
       li \<leftarrow> trfs_lower_inode inode s;
       s \<leftarrow> invoke_void E [inode, li] (Node (C_copy_attr_all inode li)) s;
       Some (0, s)
     }
   }"

definition trfs_open :: "'k env \<Rightarrow> kaddr \<Rightarrow> kaddr \<Rightarrow> 'k op" where
  "trfs_open E inode file s = do {
     fl \<leftarrow> file_at file s;
     d \<leftarrow> dentry_at (f_dentry fl) s;
     (err, s) \<leftarrow> (if d_unhashed d then Some (- ENOENT, s)
       else do {
         (info, s) \<leftarrow> invoke E [] (Ref (R_alloc SIZE_file_info)) s;
         let s = s\<lparr>private_data := (private_data s)(file := info)\<rparr>;
         if info = 0 then Some (- ENOMEM, s)
         else do {
           let s = s\<lparr>finfos := (finfos s)(info \<mapsto> \<lparr>lower_file = 0, lower_vm_ops = 0\<rparr>)\<rparr>;
           open_lower E inode file s
         }
       });
     s \<leftarrow> trace_op E (T_open (trfile_of file s) err) s;
     Some (err, s)
   }"

definition trfs_file_release :: "'k env \<Rightarrow> kaddr \<Rightarrow> kaddr \<Rightarrow> 'k op" where
  "trfs_file_release E inode file s = do {
     lower \<leftarrow> trfs_lower_file file s;
     s \<leftarrow> (if lower \<noteq> 0 then do {
         s \<leftarrow> trfs_set_lower_file file 0 s;
         invoke_void E [lower] (Ref (R_fput lower)) s
       } else Some s);
     s \<leftarrow> trace_op E (T_close (trfile_of file s) 0) s;
     s \<leftarrow> free_file_info E file s;
     Some (0, s)
   }"

subsection \<open>Mapped memory\<close>

record vm_area =
  vm_flags :: u32
  vm_ops :: kaddr
  vm_file :: kaddr

abbreviation (input) VM_WRITE :: u32 where "VM_WRITE \<equiv> 2"
abbreviation (input) VM_SHARED :: u32 where "VM_SHARED \<equiv> 8"

text \<open>The address of \<open>trfs_vm_ops\<close>.\<close>

abbreviation (input) TRFS_VM_OPS :: kaddr where "TRFS_VM_OPS \<equiv> 1"

definition has_writepage :: "aops \<Rightarrow> bool" where
  "has_writepage a = (case a of Trfs_aops \<Rightarrow> False | Other_aops b \<Rightarrow> b)"

text \<open>The lower \<open>mmap\<close> leaves the operations it chose in \<open>outn\<close>.\<close>

definition trfs_mmap :: "'k env \<Rightarrow> kaddr \<Rightarrow> vm_area \<Rightarrow> 'k vfs \<Rightarrow> ((int \<times> vm_area) \<times> 'k vfs) option" where
  "trfs_mmap E file vma s = do {
     let willwrite = (vm_flags vma OR VM_SHARED OR VM_WRITE = vm_flags vma);
     lower \<leftarrow> trfs_lower_file file s;
     lf \<leftarrow> (if willwrite then file_at lower s else Some (files (ko s) lower));
     if willwrite \<and> \<not> has_writepage (f_aops lf) then Some ((- EINVAL, vma), s)
     else do {
       info \<leftarrow> TRFS_F file s;
       ((err, vma), s) \<leftarrow> (if lower_vm_ops info = 0 then do {
           lf \<leftarrow> file_at lower s;
           ops \<leftarrow> f_op lf;
           _ \<leftarrow> map_of ops FO_mmap;
           (err, s) \<leftarrow> invoke E [lower] (File (C_lower_mmap lower (vm_file vma))) s;
           Some ((err, if err = 0 then vma\<lparr>vm_ops := outn (ko s)\<rparr> else vma), s)
         } else Some ((0, vma), s));
       if err \<noteq> 0 then Some ((err, vma), s)
       else do {
         let saved_vm_ops = (if lower_vm_ops info = 0 then vm_ops vma else 0);
         s \<leftarrow> invoke_void E [file] (File (C_file_accessed file)) s;
         s \<leftarrow> set_file file (\<lambda>x. x\<lparr>f_aops := Trfs_aops\<rparr>) s;
         info \<leftarrow> TRFS_F file s;
         let s = (if lower_vm_ops info = 0
           then s\<lparr>finfos := (finfos s)(private_data s file \<mapsto> info\<lparr>lower_vm_ops := saved_vm_ops\<rparr>)\<rparr> else s);
         Some ((0, vma\<lparr>vm_ops := TRFS_VM_OPS\<rparr>), s)
       }
     }
   }"

text \<open>
  A page fault: the lower operation gets a copy of the area with the lower file. A missing
  \<open>lower_vm_ops\<close> stops the kernel (\<open>BUG_ON\<close>). \<open>mkw\<close> tells which tables of operations have a
  \<open>page_mkwrite\<close>.
\<close>

definition trfs_fault :: "'k env \<Rightarrow> vm_area \<Rightarrow> 'k op" where
  "trfs_fault E vma s = do {
     info \<leftarrow> TRFS_F (vm_file vma) s;
     if lower_vm_ops info = 0 then None
     else invoke E [lower_vm_ops info] (File (C_lower_fault (lower_vm_ops info) (lower_file info))) s
   }"

definition trfs_page_mkwrite :: "'k env \<Rightarrow> (kaddr \<Rightarrow> bool) \<Rightarrow> vm_area \<Rightarrow> 'k op" where
  "trfs_page_mkwrite E mkw vma s = do {
     info \<leftarrow> TRFS_F (vm_file vma) s;
     if lower_vm_ops info = 0 then None
     else if \<not> mkw (lower_vm_ops info) then Some (0, s)
     else invoke E [lower_vm_ops info] (File (C_lower_page_mkwrite (lower_vm_ops info) (lower_file info))) s
   }"

definition trfs_direct_IO :: int where
  "trfs_direct_IO = - EINVAL"


subsection \<open>Calls of the kernel\<close>

datatype file_request =
    P_read nat int
  | P_write bytes nat int
  | P_readdir
  | P_ioctl nat nat
  | P_compat_ioctl nat nat
  | P_flush kaddr
  | P_fsync int int int
  | P_fasync int int
  | P_llseek int int
  | P_read_iter kaddr
  | P_write_iter kaddr

fun file_call :: "'k env \<Rightarrow> kaddr \<Rightarrow> file_request \<Rightarrow> 'k op" where
  "file_call E f (P_read n pos) = trfs_read E f n pos"
| "file_call E f (P_write b n pos) = trfs_write E f b n pos"
| "file_call E f P_readdir = trfs_readdir E f"
| "file_call E f (P_ioctl cmd arg) = trfs_unlocked_ioctl E f cmd arg"
| "file_call E f (P_compat_ioctl cmd arg) = trfs_compat_ioctl E f cmd arg"
| "file_call E f (P_flush x) = trfs_flush E f x"
| "file_call E f (P_fsync a b ds) = trfs_fsync E f a b ds"
| "file_call E f (P_fasync fd flag) = trfs_fasync E fd f flag"
| "file_call E f (P_llseek off whence) = trfs_file_llseek E f off whence"
| "file_call E f (P_read_iter iter) = trfs_read_iter E f iter"
| "file_call E f (P_write_iter iter) = trfs_write_iter E f iter"

fun file_calls :: "'k env \<Rightarrow> kaddr \<Rightarrow> file_request list \<Rightarrow> 'k vfs \<Rightarrow> (int list \<times> 'k vfs) option" where
  "file_calls E f [] s = Some ([], s)"
| "file_calls E f (q # qs) s = do {
     (r, s) \<leftarrow> file_call E f q s;
     (rs, s) \<leftarrow> file_calls E f qs s;
     Some (r # rs, s)
   }"

text \<open>A session: the file is opened; when that succeeds it is used, and at the end released.\<close>

definition file_session :: "'k env \<Rightarrow> kaddr \<Rightarrow> kaddr \<Rightarrow> file_request list \<Rightarrow> 'k vfs \<Rightarrow> (int \<times> int list \<times> 'k vfs) option" where
  "file_session E inode file qs s = do {
     (err, s) \<leftarrow> trfs_open E inode file s;
     if err \<noteq> 0 then Some (err, [], s)
     else do {
       (rs, s) \<leftarrow> file_calls E file qs s;
       (_, s) \<leftarrow> trfs_file_release E inode file s;
       Some (0, rs, s)
     }
   }"

section \<open>Lemmas\<close>

subsection \<open>The contract of the operations\<close>

lemma step_copies [steps]:
  assumes "stable E" and "since E s0 s M D T W" and "\<And>s'. since E s0 s' M D T W \<Longrightarrow> after (f s') Q"
  shows "after (Option.bind (copy_atime E d l s) f) Q" "after (Option.bind (copy_size_times E d l s) f) Q"
  unfolding copy_atime_def copy_size_times_def by (rule steps assms | assumption)+

lemma file_traced_perform:
  assumes "stable E"
  shows read_performs: "performs E (\<lambda>r cs. \<exists>fl pos. cs = [T_read fl n pos r]) (trfs_read E f n p)"
    and write_performs: "performs E (\<lambda>r cs. \<exists>fl pos. cs = [T_write fl b n pos r]) (trfs_write E f b n p)"
  unfolding trfs_read_def trfs_write_def
  by (rule performsI steps assms performed exI refl | assumption)+

lemma file_untraced_perform:
  assumes "stable E"
  shows readdir_performs: "performs E (\<lambda>r cs. cs = []) (trfs_readdir E f)"
    and ioctl_performs: "performs E (\<lambda>r cs. cs = []) (trfs_unlocked_ioctl E f cmd arg)"
    and compat_ioctl_performs: "performs E (\<lambda>r cs. cs = []) (trfs_compat_ioctl E f cmd arg)"
    and flush_performs: "performs E (\<lambda>r cs. cs = []) (trfs_flush E f x)"
    and fsync_performs: "performs E (\<lambda>r cs. cs = []) (trfs_fsync E f a b' ds)"
    and fasync_performs: "performs E (\<lambda>r cs. cs = []) (trfs_fasync E fd f flag)"
    and llseek_performs: "performs E (\<lambda>r cs. cs = []) (trfs_file_llseek E f off whence)"
    and read_iter_performs: "performs E (\<lambda>r cs. cs = []) (trfs_read_iter E f iter)"
    and write_iter_performs: "performs E (\<lambda>r cs. cs = []) (trfs_write_iter E f iter)"
  unfolding trfs_readdir_def trfs_unlocked_ioctl_def trfs_compat_ioctl_def trfs_flush_def trfs_fsync_def
    trfs_fasync_def trfs_file_llseek_def trfs_read_iter_def trfs_write_iter_def
  by (rule performsI steps assms performed0 refl | assumption)+

interpretation file_read: traced_operation "\<lambda>E. trfs_read E f n p" "\<lambda>r cs. \<exists>fl pos. cs = [T_read fl n pos r]" for f n p
  by unfold_locales (rule read_performs, assumption, auto)

interpretation file_write: traced_operation "\<lambda>E. trfs_write E f b n p" "\<lambda>r cs. \<exists>fl pos. cs = [T_write fl b n pos r]" for f b n p
  by unfold_locales (rule write_performs, assumption, auto)

interpretation file_use: vfs_operation "\<lambda>E. file_call E f q"
  "\<lambda>r cs. case q of
     P_read n p \<Rightarrow> \<exists>fl pos. cs = [T_read fl n pos r]
   | P_write b n p \<Rightarrow> \<exists>fl pos. cs = [T_write fl b n pos r]
   | _ \<Rightarrow> cs = []" for f q
  by unfold_locales (cases q; simp add: file_traced_perform file_untraced_perform)


subsection \<open>Private data of files\<close>

definition file_refs :: "kaddr \<Rightarrow> resource list" where
  "file_refs lf = (if lf = 0 then [] else [File_ref lf])"

lemma step_set_lower_file:
  assumes "since E s0 s M D T W" and "TRFS_F f W = Some info"
    and "\<And>s'. since E s0 s' M D T (W\<lparr>finfos := (finfos W)(private_data W f \<mapsto> info\<lparr>lower_file := v\<rparr>)\<rparr>) \<Longrightarrow>
      after (g s') Q"
  shows "after (Option.bind (trfs_set_lower_file f v s) g) Q"
proof (rule after_bindI, rule assms(3))
  fix s' assume "trfs_set_lower_file f v s = Some s'"
  then have "s' = s\<lparr>finfos := (finfos W)(private_data W f \<mapsto> info\<lparr>lower_file := v\<rparr>)\<rparr>"
    using assms(2) by (simp add: trfs_set_lower_file_def since_own [OF assms(1)])
  then show "since E s0 s' M D T (W\<lparr>finfos := (finfos W)(private_data W f \<mapsto> info\<lparr>lower_file := v\<rparr>)\<rparr>)"
    using since_set_own(3) [OF assms(1)] by simp
qed

lemma step_free_info:
  assumes "stable E" and "since E s0 s M D T W"
    and "\<And>s'. since E s0 s' M D T (W\<lparr>finfos := (finfos W)(private_data W f := None)\<rparr>) \<Longrightarrow> after (g s') Q"
  shows "after (Option.bind (free_file_info E f s) g) Q"
  unfolding free_file_info_def
  apply (rule step_bind_bind1, rule step_calls [OF assms(1)], rule assms(2), rule step_value)
  subgoal for s' using since_set_own(3) [of E s0 s' M D T W] by (intro assms(3)) (simp add: since_own(7,10))
  done

lemma step_read_file:
  "since E s0 s M D T W \<Longrightarrow> TRFS_F f W = Some info \<Longrightarrow> after (g (lower_file info)) Q \<Longrightarrow>
   after (Option.bind (trfs_lower_file f s) g) Q"
  by (simp add: since_own trfs_lower_file_def)

lemma TRFS_F_upd:
  "TRFS_F f W = Some info \<Longrightarrow> TRFS_F f (W\<lparr>finfos := (finfos W)(private_data W f := x)\<rparr>) = x"
  by (simp add: TRFS_F_def split: if_splits)

text \<open>The lower file is released with the private data.\<close>

lemma release_since:
  assumes "stable E" and "since E s0 s (M + mset (file_refs (lower_file info))) D T W"
    and "TRFS_F f W = Some info"
  shows "after (trfs_file_release E i f s) (\<lambda>(r, s').
    r = 0 \<and> (\<exists>fl W'. since E s0 s' M D (T @ [T_close fl 0]) W' \<and> TRFS_F f W' = None \<and>
      finfos W' = (finfos W)(private_data W f := None) \<and> dinfos W' = dinfos W))"
  (is "after _ ?Q")
proof -
  have fin: "?Q (0, s')" if "since E s0 s' M D (T @ [T_close fl 0]) W'" "TRFS_F f W' = None"
    "finfos W' = (finfos W)(private_data W f := None)" "dinfos W' = dinfos W" for s' fl W'
    using that by auto
  note upd = TRFS_F_upd [OF assms(3)]
  have none: "TRFS_F f (W\<lparr>finfos := (finfos W)(private_data W f := None)\<rparr>) = None"
    "TRFS_F f (W\<lparr>finfos := (finfos W)(private_data W f \<mapsto> v),
       finfos := (finfos (W\<lparr>finfos := (finfos W)(private_data W f \<mapsto> v)\<rparr>))
         (private_data (W\<lparr>finfos := (finfos W)(private_data W f \<mapsto> v)\<rparr>) f := None)\<rparr>) = None" for v
    using upd [of None] by simp_all
  show ?thesis
  proof (cases "lower_file info = 0")
    case True
    then have "since E s0 s M D T W" using assms(2) by (simp add: file_refs_def)
    then show ?thesis
      unfolding trfs_file_release_def using True
      by - (rule step_read_file [OF _ assms(3)], assumption, rule step_bind_if, simp,
        (rule steps step_free_info [OF assms(1)] fin none | assumption | simp; fail)+)
  next
    case False
    then have "since E s0 s (M + mset [File_ref (lower_file info)]) D T W" using assms(2) by (simp add: file_refs_def)
    then show ?thesis
      unfolding trfs_file_release_def using False
      by - (rule step_read_file [OF _ assms(3)], assumption, rule step_bind_if,
        (rule steps step_set_lower_file [OF _ assms(3)] step_free_info [OF assms(1)] fin none assms(1) | assumption | simp; fail)+)
  qed
qed


text \<open>Opening: on success the file holds the lower file, after a failure nothing is held.\<close>

definition opened :: "'k env \<Rightarrow> 'k vfs \<Rightarrow> kaddr \<Rightarrow> resource multiset \<Rightarrow> trace_call list \<Rightarrow> int \<Rightarrow> 'k vfs \<Rightarrow> bool" where
  "opened E s0 f M T err s' \<longleftrightarrow>
     (\<exists>W lf. since E s0 s' (M + mset (if err = 0 then file_refs lf else [])) [] T W \<and>
        (err = 0 \<longrightarrow> TRFS_F f W = Some \<lparr>lower_file = lf, lower_vm_ops = 0\<rparr>) \<and>
        dinfos W = dinfos s0 \<and>
        (finfos W = (finfos s0)(private_data W f := (if err = 0 then TRFS_F f W else None)) \<or>
         err \<noteq> 0 \<and> finfos W = finfos s0))"

lemma step_open_lower:
  assumes "stable E" and "since E s0 s M [] T W" and "TRFS_F f W = Some \<lparr>lower_file = 0, lower_vm_ops = 0\<rparr>"
    and "dinfos W = dinfos s0" and "finfos W = (finfos s0)(private_data W f \<mapsto> \<lparr>lower_file = 0, lower_vm_ops = 0\<rparr>)"
    and "\<And>err s'. opened E s0 f M T err s' \<Longrightarrow> after (g err s') Q"
  shows "after (Option.bind (open_lower E i f s) (case_prod g)) Q"
proof -
  have bad: "after (g r s') Q"
    if "since E s0 s' M [] T (W\<lparr>finfos := (finfos W)(private_data W f := None)\<rparr>)" "IS_ERR r" for r s'
  proof (rule assms(6))
    have "r \<noteq> 0" using that(2) by (simp add: IS_ERR_def)
    then show "opened E s0 f M T r s'"
      using that(1) assms(4,5)
      by (auto simp: opened_def intro!: exI [of _ "W\<lparr>finfos := (finfos W)(private_data W f := None)\<rparr>"])
  qed
  have good: "after (g 0 s') Q"
    if "since E s0 s' (M + mset (file_refs lf)) [] T (W\<lparr>finfos := (finfos W)(private_data W f \<mapsto>
      (\<lparr>lower_file = 0, lower_vm_ops = 0\<rparr>)\<lparr>lower_file := lf\<rparr>)\<rparr>)" for lf s'
    using that TRFS_F_upd [OF assms(3)] assms(4,5)
    by (intro assms(6)) (auto simp: opened_def intro!: exI [of _ lf] exI [of _ "W\<lparr>finfos := (finfos W)(private_data W f \<mapsto>
      (\<lparr>lower_file = 0, lower_vm_ops = 0\<rparr>)\<lparr>lower_file := lf\<rparr>)\<rparr>"])
  have held: "M + mset (file_refs r) = M + mset [File_ref r]" if "valid r" for r
    using that by (simp add: file_refs_def valid_def)
  have null: "M + mset (file_refs r) = M" if "\<not> valid r" "\<not> IS_ERR r" for r
    using that by (simp add: file_refs_def valid_def)
  show ?thesis
    unfolding open_lower_def
    apply (rule step_bind_bind1, rule steps, rule step_bind_bind, rule step_get_path [OF assms(1,2)])
    apply (rule step_bind_bind1, rule steps, rule step_bind_bind, rule step_maybes(3) [OF assms(1)], assumption)
    subgoal for fl lp s1 fl' r s2
      apply (rule step_bind_bind1, rule step_give [OF assms(1)], rule step_swap, assumption)
      apply (rule step_bind_if, simp add: valid_def)
      apply (rule step_bind_bind1, rule step_set_lower_file, assumption, rule assms(3))
      apply (simp only: held [symmetric])
      apply (rule steps assms(1) good | assumption)+
      done
    subgoal for fl lp s1 fl' r s2
      apply (rule step_bind_bind1, rule step_give [OF assms(1)], assumption)
      apply (rule step_bind_if)
       apply (rule step_bind_bind1, rule step_read_file, assumption, rule assms(3))
       apply (rule step_bind_bind1, rule step_bind_if, simp, rule step_value)
       apply (rule step_bind_bind1, rule step_free_info [OF assms(1)], assumption)
       apply (rule step_pair, rule bad, assumption+)
      apply (rule step_bind_bind1, rule step_set_lower_file, assumption, rule assms(3))
      apply (rule step_bind_bind1, rule steps, rule step_bind_bind1, rule steps, rule assms(1), assumption)
      apply (rule step_pair, rule good [of _ r])
      apply (simp only: null not_False_eq_True)
      done
    done
qed

lemma opened_traced:
  assumes "opened E s0 f M T err s" and "\<And>s'. opened E s0 f M (T @ [c]) err s' \<Longrightarrow> after (g s') Q"
  shows "after (Option.bind (trace_op E c s) g) Q"
proof -
  obtain W lf where W: "since E s0 s (M + mset (if err = 0 then file_refs lf else [])) [] T W"
    "(err = 0 \<longrightarrow> TRFS_F f W = Some \<lparr>lower_file = lf, lower_vm_ops = 0\<rparr>) \<and> dinfos W = dinfos s0 \<and>
      (finfos W = (finfos s0)(private_data W f := (if err = 0 then TRFS_F f W else None)) \<or>
       err \<noteq> 0 \<and> finfos W = finfos s0)"
    using assms(1) by (auto simp: opened_def)
  show ?thesis
    by (rule step_trace [OF W(1)], rule assms(2)) (unfold opened_def, use W(2) in blast)
qed

lemma open_since:
  assumes "stable E"
  shows "after (trfs_open E i f s) (\<lambda>(err, s'). \<exists>fl. opened E s f {#} [T_open fl err] err s')"
proof -
  have err: "opened E s f {#} [] r s'" if "since E s s' {#} [] [] W" "r \<noteq> 0" "dinfos W = dinfos s \<and> finfos W = finfos s" for r s' W
    using that by (auto simp: opened_def)
  have rest: "after (Option.bind (trace_op E (T_open (trfile_of f s') r) s') (\<lambda>s. Some (r, s)))
      (\<lambda>(err, s'). \<exists>fl. opened E s f {#} [T_open fl err] err s')" if "opened E s f {#} [] r s'" for r s'
    by (rule opened_traced [OF that]) auto
  show ?thesis
    unfolding trfs_open_def
    apply (rule step_read, rule step_read, rule step_bind_if)
     apply (rule step_pair, rule rest, rule err, rule since_refl, simp, simp)
    apply (rule step_bind_bind, rule steps, rule assms, rule since_refl)
    subgoal for fl d info s1
      apply (rule step_bind_let, rule step_bind_if)
       apply (rule step_pair, rule rest, rule err)
         apply (erule since_set_own(4), simp, simp)
      apply (rule step_bind_let, rule step_open_lower [OF assms])
        apply (erule since_set_own(3) [OF since_set_own(4)])
         apply (simp add: TRFS_F_def file_at_def since_own split: if_splits)
        apply simp
       apply (simp add: since_own)
      apply (erule rest)
      done
    done
qed

subsection \<open>Sessions\<close>

fun file_reported :: "file_request list \<Rightarrow> int list \<Rightarrow> trace_call list \<Rightarrow> bool" where
  "file_reported [] [] cs \<longleftrightarrow> cs = []"
| "file_reported (P_read n p # qs) (r # rs) (c # cs) \<longleftrightarrow> (\<exists>fl pos. c = T_read fl n pos r) \<and> file_reported qs rs cs"
| "file_reported (P_write b n p # qs) (r # rs) (c # cs) \<longleftrightarrow> (\<exists>fl pos. c = T_write fl b n pos r) \<and> file_reported qs rs cs"
| "file_reported (P_read n p # qs) (r # rs) [] \<longleftrightarrow> False"
| "file_reported (P_write b n p # qs) (r # rs) [] \<longleftrightarrow> False"
| "file_reported (q # qs) (r # rs) cs \<longleftrightarrow> file_reported qs rs cs"
| "file_reported _ _ cs \<longleftrightarrow> False"

lemma file_calls_since:
  assumes "stable E" and "file_calls E f qs s = Some (rs, s')" and "since E s0 s M [] T W"
  shows "\<exists>cs. file_reported qs rs cs \<and> since E s0 s' M [] (T @ cs) W"
  using assms(2,3)
proof (induction qs arbitrary: s rs T)
  case Nil
  then show ?case by auto
next
  case (Cons q qs)
  then obtain r s1 rs1 where q: "file_call E f q s = Some (r, s1)" "file_calls E f qs s1 = Some (rs1, s')" "rs = r # rs1"
    by (auto simp: bind_eq_Some_conv)
  obtain c1 where c1: "case q of P_read n p \<Rightarrow> \<exists>fl pos. c1 = [T_read fl n pos r]
      | P_write b n p \<Rightarrow> \<exists>fl pos. c1 = [T_write fl b n pos r] | _ \<Rightarrow> c1 = []"
    "since E s0 s1 M [] (T @ c1) W"
    using file_use.performs [OF assms(1)] Cons.prems(2) q(1) unfolding performs_def after_def by blast
  obtain c2 where "file_reported qs rs1 c2" "since E s0 s' M [] ((T @ c1) @ c2) W"
    using Cons.IH [OF q(2) c1(2)] by blast
  then show ?case unfolding q(3) using c1(1) by (intro exI [of _ "c1 @ c2"]) (auto split: file_request.splits)
qed


lemma session_since:
  assumes "stable E" and "file_session E i f qs s = Some (err, rs, s')"
  shows "\<exists>fo W. (if err = 0 then \<exists>cs fc. file_reported qs rs cs \<and> TRFS_F f W = None \<and>
      since E s s' {#} [] (T_open fo 0 # cs @ [T_close fc 0]) W
    else rs = [] \<and> since E s s' {#} [] [T_open fo err] W)"
proof -
  obtain err' s1 where o: "trfs_open E i f s = Some (err', s1)"
    using assms(2) by (auto simp: file_session_def bind_eq_Some_conv)
  then obtain fo where fo: "opened E s f {#} [T_open fo err'] err' s1"
    using afterD [OF open_since [OF assms(1)] o] by auto
  show ?thesis
  proof (cases "err' = 0")
    case False
    then show ?thesis using assms(2) fo by (auto simp: file_session_def o opened_def)
  next
    case True
    then obtain s2 r where s2: "file_calls E f qs s1 = Some (rs, s2)" "trfs_file_release E i f s2 = Some (r, s')" "err = 0"
      using assms(2) by (auto simp: file_session_def o bind_eq_Some_conv)
    obtain W lf where W: "since E s s1 ({#} + mset (file_refs lf)) [] [T_open fo 0] W"
      "TRFS_F f W = Some \<lparr>lower_file = lf, lower_vm_ops = 0\<rparr>"
      using fo True by (auto simp: opened_def)
    obtain cs where cs: "file_reported qs rs cs" "since E s s2 ({#} + mset (file_refs lf)) [] ([T_open fo 0] @ cs) W"
      using file_calls_since [OF assms(1) s2(1) W(1)] by blast
    have "since E s s2 ({#} + mset (file_refs (lower_file \<lparr>lower_file = lf, lower_vm_ops = 0\<rparr>))) [] ([T_open fo 0] @ cs) W"
      using cs(2) by simp
    from afterD [OF release_since [OF assms(1) this W(2)] s2(2)] cs(1) s2(3)
    show ?thesis by auto
  qed
qed

section \<open>Properties\<close>

text \<open>C8: A session on a file, from \<open>open\<close> through any sequence of reads, writes, seeks, flushes and the
  like to \<open>release\<close>, gives back the reference to the lower file and every other reference and
  lock, whatever the lower file system answers; the private data is gone. It is traced as an
  \<open>open\<close>, the reads and writes with their results, and a \<open>close\<close>. When the open fails nothing is
  held, and the failed open is traced.\<close>

theorem session_gives_back:
  assumes "stable E" and "file_session E i f qs s = Some (err, rs, s')" and "pins s = Some R"
  shows "pins s' = Some R \<and>
    (\<exists>fo. if err = 0
      then TRFS_F f s' = None \<and>
        (\<exists>cs fc. file_reported qs rs cs \<and> traced s' = traced s @ [T_open fo 0] @ cs @ [T_close fc 0])
      else rs = [] \<and> traced s' = traced s @ [T_open fo err])"
proof -
  obtain fo W where "if err = 0 then \<exists>cs fc. file_reported qs rs cs \<and> TRFS_F f W = None \<and>
      since E s s' {#} [] (T_open fo 0 # cs @ [T_close fc 0]) W
    else rs = [] \<and> since E s s' {#} [] [T_open fo err] W"
    using session_since [OF assms(1,2)] by blast
  moreover have "TRFS_F f s' = TRFS_F f W" if "since E s s' {#} [] T W" for T by (rule since_own(2) [OF that])
  ultimately show ?thesis using assms(3) by (intro conjI exI [of _ fo]) (auto simp: since_def split: if_splits)
qed

lemma sample_session:
  "\<exists>s'. file_session sample_env 30 70 [P_read 4 0] sample_vfs = Some (0, [0], s')"
  by (simp add: file_session_def trfs_open_def open_lower_def trfs_read_def trfs_file_release_def free_file_info_def
      copy_atime_def trfs_set_lower_file_def trfs_log_open_op_def trfs_log_read_op_def trfs_log_close_op_def
      run_simps sample_simps)

theorem session_gives_back_witness:
  "\<exists>s'. file_session sample_env 30 70 [P_read 4 0] sample_vfs = Some (0, [0], s') \<and> pins s' = Some {#}"
  using sample_session session_gives_back [OF sample_stable _ sample_pins, of 30 70 "[P_read 4 0]" 0 "[0]"] by blast

text \<open>C40: Seeking in a directory cuts the new position to 32 bits: a position between 2 and 4 gigabytes
  comes back as a negative number, that is as an error, and the lower file is not moved although
  the upper one was.\<close>

theorem llseek_wraps:
  assumes "fst (kern E (File (C_generic_file_llseek f off whence)) (ko s)) = p"
    and "2 ^ 31 \<le> p" and "p < 2 ^ 32" and "trfs_file_llseek E f off whence s = Some (r, s')"
  shows "r = p - 2 ^ 32 \<and> r < 0 \<and>
    (\<exists>out. events s' = events s @ [Call (File (C_generic_file_llseek f off whence)) p out])"
proof -
  have "int32 p = p - 2 ^ 32"
  proof -
    have "(p + 2 ^ 31) mod 2 ^ 32 = p + 2 ^ 31 - 2 ^ 32"
      using assms(2,3) by (subst mod_pos_geq) (auto simp: mod_pos_pos_trivial)
    then show ?thesis by (simp add: int32_alt)
  qed
  then show ?thesis
    using assms by (auto simp: trfs_file_llseek_def invoke_def Let_def split: if_splits)
qed

theorem llseek_wraps_witness:
  "\<exists>s'. trfs_file_llseek (sample_env\<lparr>kern := (\<lambda>c k. (2 ^ 31, k))\<rparr>) 70 0 2 sample_vfs = Some (- (2 ^ 31), s')"
proof -
  let ?E = "sample_env\<lparr>kern := (\<lambda>c k. (2 ^ 31, k))\<rparr>"
  obtain r s' where *: "trfs_file_llseek ?E 70 0 2 sample_vfs = Some (r, s')"
    by (simp add: trfs_file_llseek_def run_simps int32_alt)
  from llseek_wraps [OF _ _ _ *, of "2 ^ 31"] * show ?thesis by simp
qed

text \<open>What is relied on when nothing else happens in the kernel: its dentries and files stay as they are.\<close>

definition frozen :: "'k env \<Rightarrow> bool" where
  "frozen E \<longleftrightarrow> (\<forall>c k. dentries (snd (kern E c k)) = dentries k \<and> files (snd (kern E c k)) = files k)"



end
