(* ===== verification/Control.thy ===== *)
theory Control
  imports Log_Ops
begin

section \<open>Choosing what is traced (trfs/trfs_ioct.c, Userland/trctl.c)\<close>

text \<open>
  The character device through which the bitmap of traced operations is set and read, and the
  command that uses it. The kernel functions that register the device, the copy from user memory
  and the allocator are parameters. The driver \<open>tld\<close> is \<open>None\<close> when its allocation failed;
  using it then is a memory fault.

  The lemmas show that setting a bitmap and reading it back gives the same number except where
  the C library mistakes the number for an error, and what the words \<open>all\<close>, \<open>none\<close> and a
  number on the command line do to the fifteen trace operations.
\<close>

unbundle bit_operations_syntax

subsection \<open>The device\<close>

abbreviation (input) IOCTL_TRFS_SET_BITMAP :: nat where "IOCTL_TRFS_SET_BITMAP \<equiv> 0x6B00"
abbreviation (input) IOCTL_TRFS_GET_BITMAP :: nat where "IOCTL_TRFS_GET_BITMAP \<equiv> 0x6B01"

record trctl_args =
  args_bitmap :: u32

definition trfs_ioctl_open :: int where
  "trfs_ioctl_open = 0"

definition trfs_ioctl_release :: int where
  "trfs_ioctl_release = 0"

text \<open>
  \<open>alloc\<close> is the outcome of the allocation, with what the fresh block holds; \<open>cfu\<close> is
  \<open>copy_from_user\<close>: the block afterwards and the number of bytes that could not be copied, which
  is never negative. So the test for an error never succeeds, and the block is used in any case.
\<close>

definition trfs_ioctl_bitmap_op ::
  "trctl_args option \<Rightarrow> (trctl_args \<Rightarrow> trctl_args \<times> nat) \<Rightarrow> nat \<Rightarrow> trfs_log_driver option \<Rightarrow>
   (int \<times> trfs_log_driver option) option" where
  "trfs_ioctl_bitmap_op alloc cfu cmd tld =
     (if cmd = IOCTL_TRFS_SET_BITMAP then
        (case alloc of
           None \<Rightarrow> None
         | Some fresh \<Rightarrow>
             let (args, left) = cfu fresh in
             (case tld of
                None \<Rightarrow> None
              | Some d \<Rightarrow> Some (0, Some (d\<lparr>bitmap := args_bitmap args\<rparr>))))
      else if cmd = IOCTL_TRFS_GET_BITMAP then
        Some (case tld of None \<Rightarrow> 0 | Some d \<Rightarrow> sint (bitmap d), tld)
      else Some (0, tld))"

text \<open>
  Registering the device: \<open>cdev\<close> tells whether \<open>cdev_alloc\<close> succeeded, \<open>region\<close> is the
  outcome of \<open>alloc_chrdev_region\<close> (an error, or the major number), \<open>add\<close> that of
  \<open>cdev_add\<close>. The state is the major number, whether the region is reserved, and
  whether the device is live.
\<close>

record chardev =
  Major :: nat
  region_held :: bool
  cdev_live :: bool

definition trfs_ioctl_init ::
  "bool \<Rightarrow> int + nat \<Rightarrow> int \<Rightarrow> chardev \<Rightarrow> (int \<times> chardev) option" where
  "trfs_ioctl_init cdev region add s =
     (if \<not> cdev then None
      else case region of
             Inl err \<Rightarrow> Some (err, s)
           | Inr major \<Rightarrow>
               let s = s\<lparr>Major := major, region_held := True\<rparr> in
               if add < 0 then Some (add, s) else Some (add, s\<lparr>cdev_live := True\<rparr>))"

definition trfs_ioctl_exit :: "chardev \<Rightarrow> chardev" where
  "trfs_ioctl_exit s = s\<lparr>cdev_live := False, region_held := False\<rparr>"

subsection \<open>The command\<close>

text \<open>\<open>getopt\<close> with the option \<open>c\<close> and its argument: the command, the other arguments.\<close>

fun scan_ctl :: "string list \<Rightarrow> string option \<Rightarrow> (string option \<times> string list) option" where
  "scan_ctl [] cmd = Some (cmd, [])"
| "scan_ctl (a # as) cmd =
     (if a = ''--'' then Some (cmd, as)
      else if length a > 1 \<and> hd a = CHR ''-'' then
        (if a ! 1 \<noteq> CHR ''c'' then None
         else if length a > 2 then scan_ctl as (Some (drop 2 a))
         else case as of [] \<Rightarrow> None | b # bs \<Rightarrow> scan_ctl bs (Some b))
      else
        (case scan_ctl as cmd of None \<Rightarrow> None | Some (cmd', rest) \<Rightarrow> Some (cmd', a # rest)))"

text \<open>\<open>atoi\<close>: white space, a sign, digits; the value saturates as a \<open>long\<close> and is then cut to an \<open>int\<close>.\<close>

definition digit :: "char \<Rightarrow> int" where
  "digit ch = of_char ch - 48"

fun digits :: "string \<Rightarrow> int \<Rightarrow> int" where
  "digits [] acc = acc"
| "digits (ch # cs) acc =
     (if 0 \<le> digit ch \<and> digit ch \<le> 9 then digits cs (10 * acc + digit ch) else acc)"

definition is_space :: "char \<Rightarrow> bool" where
  "is_space ch \<longleftrightarrow> ch = CHR '' '' \<or> (9 \<le> (of_char ch :: nat) \<and> (of_char ch :: nat) \<le> 13)"

definition atoi :: "string \<Rightarrow> int" where
  "atoi s =
     (let s = dropWhile is_space s;
          v = (case s of
                 [] \<Rightarrow> 0
               | ch # cs \<Rightarrow>
                   if ch = CHR ''-'' then - digits cs 0
                   else if ch = CHR ''+'' then digits cs 0 else digits s 0)
      in int32 (min (2 ^ 63 - 1) (max (- (2 ^ 63)) v)))"

text \<open>The bitmap a command stands for.\<close>

definition ctl_bitmap :: "string \<Rightarrow> u32 \<Rightarrow> u32" where
  "ctl_bitmap cmd fresh =
     (if cmd = ''all'' then NOT (fresh AND 0)
      else if cmd = ''none'' then 0
      else word_of_int (atoi cmd))"

text \<open>The C library turns a return value between -4095 and -1 of the kernel into -1.\<close>

definition libc_ret :: "int \<Rightarrow> int" where
  "libc_ret r = (if - 4095 \<le> r \<and> r < 0 then - 1 else r)"

text \<open>
  \<open>main\<close> of \<^verbatim>\<open>trctl.c\<close>: \<open>args\<close> are the arguments without the program's name, \<open>opens\<close>
  tells which files can be opened, \<open>alloc\<close> is the kernel's allocation, \<open>fresh\<close> what the
  program's own block holds. The outcome is the exit status, the number printed, if any, and the
  driver; \<open>None\<close> is a memory fault of the program or the kernel.
\<close>

definition trctl_main ::
  "(string \<Rightarrow> bool) \<Rightarrow> trctl_args option \<Rightarrow> u32 \<Rightarrow> string list \<Rightarrow> trfs_log_driver option \<Rightarrow>
   (int \<times> int option \<times> trfs_log_driver option) option" where
  "trctl_main opens alloc fresh args tld =
     (if length args < 1 then Some (0, None, tld)
      else case scan_ctl args None of
             None \<Rightarrow> Some (0, None, tld)
           | Some (cmd, rest) \<Rightarrow>
               (case rest of
                  [] \<Rightarrow> None
                | mpoint # _ \<Rightarrow>
                    if length mpoint \<ge> 256 then None
                    else if \<not> opens mpoint then Some (- 1, None, tld)
                    else
                      (case cmd of
                         Some c \<Rightarrow>
                           (case trfs_ioctl_bitmap_op alloc
                                   (\<lambda>_. (\<lparr>args_bitmap = ctl_bitmap c fresh\<rparr>, 0))
                                   IOCTL_TRFS_SET_BITMAP tld of
                              None \<Rightarrow> None
                            | Some (r, tld') \<Rightarrow> Some (0, None, tld'))
                       | None \<Rightarrow>
                           (case trfs_ioctl_bitmap_op alloc (\<lambda>a. (a, 0)) IOCTL_TRFS_GET_BITMAP tld of
                              None \<Rightarrow> None
                            | Some (r, tld') \<Rightarrow> Some (0, Some (libc_ret r), tld')))))"

section \<open>Lemmas\<close>

lemma int32_atoi: "int32 (atoi s) = atoi s"
  using int32_range unfolding atoi_def Let_def by (intro int32_id) blast+

lemma sint_word_of_int32: "int32 x = x \<Longrightarrow> sint (word_of_int x :: u32) = x"
  by (simp add: int32_def)

section \<open>Properties\<close>

text \<open>C34: Setting the bitmap by number and reading it back prints the number that was set, except for
  the numbers from -4095 to -2, which the C library reports as -1.\<close>

theorem set_bitmap_then_get:
  assumes "opens mp" and "length mp < 256" and "cmd \<noteq> ''all''" and "cmd \<noteq> ''none''" and "hd mp \<noteq> CHR ''-''"
  shows "\<exists>tld. trctl_main opens (Some a) fresh [''-c'', cmd, mp] (Some d) = Some (0, None, tld) \<and>
    trctl_main opens (Some a) fresh [mp] tld =
      Some (0, Some (if - 4095 \<le> atoi cmd \<and> atoi cmd \<le> - 2 then - 1 else atoi cmd), tld)"
proof -
  have mp: "mp \<noteq> ''--''" using assms(5) by auto
  have "sint (word_of_int (atoi cmd) :: u32) = atoi cmd" by (rule sint_word_of_int32 [OF int32_atoi])
  with assms mp show ?thesis
    by (auto simp: trctl_main_def trfs_ioctl_bitmap_op_def ctl_bitmap_def libc_ret_def)
qed

theorem set_bitmap_then_get_witness:
  "\<exists>tld. trctl_main (\<lambda>_. True) (Some \<lparr>args_bitmap = 0\<rparr>) 0 [''-c'', ''32'', ''/mnt''] (Some sample_driver) =
      Some (0, None, tld) \<and>
    trctl_main (\<lambda>_. True) (Some \<lparr>args_bitmap = 0\<rparr>) 0 [''/mnt''] tld = Some (0, Some 32, tld)"
proof -
  have "atoi ''32'' = 32" by (simp add: atoi_def is_space_def digit_def int32_id)
  with set_bitmap_then_get [of "\<lambda>_. True" "''/mnt''" "''32''" "\<lparr>args_bitmap = 0\<rparr>" 0 sample_driver]
  show ?thesis by simp
qed

text \<open>The command \<open>none\<close> makes every trace operation invisible, and \<open>all\<close> sets the bit of
  every one of them.\<close>

lemma none_and_all:
  assumes "opens mp" and "length mp < 256" and "hd mp \<noteq> CHR ''-''"
  shows "(\<exists>d'. trctl_main opens (Some a) fresh [''-c'', ''none'', mp] (Some d) = Some (0, None, Some d') \<and>
      (\<forall>km pid c st. log_ops km pid d' c st = Some st)) \<and>
    (\<exists>d'. trctl_main opens (Some a) fresh [''-c'', ''all'', mp] (Some d) = Some (0, None, Some d') \<and>
      (\<forall>c. bit (bitmap d') (call_bit c)))"
proof -
  have mp: "mp \<noteq> ''--''" using assms(3) by auto
  have bits: "bit (NOT 0 :: u32) (call_bit c)" for c using call_bit_lt [of c] by (simp add: bit_simps)
  have "log_ops km pid (d\<lparr>bitmap := 0\<rparr>) c st = Some st" for km pid c st
    by (rule log_ops_disabled) simp
  with assms mp bits show ?thesis
    by (auto simp: trctl_main_def trfs_ioctl_bitmap_op_def ctl_bitmap_def)
qed

end
