(* ===== verification/Mount.thy ===== *)
theory Mount
  imports File_Ops Control
begin

section \<open>Mounting, unmounting and the module (trfs/main.c, trfs/super.c)\<close>

text \<open>
  The options of a mount, the function that sets up a superblock together with the log, the
  operations of a superblock, and the caches of the module.

  The lemmas show that the parser's loop over the options gives what a reference over the list of
  options gives, that a mount that fails gives back its references to the lower file system and
  its superblock, what a mount and an unmount do to the account, in
  which state a mount leaves the log, which flags a remount accepts, what
  loading and unloading the module leave behind, and that unmounting leaves the queue as it is.
\<close>

subsection \<open>Options\<close>

text \<open>
  \<open>strsep(&options, ",")\<close>: the piece before the next comma, and the rest if there was one. The
  function \<open>match_token\<close> of the kernel is a parameter \<open>mt\<close>: the argument of the option when the
  piece matches \<open>tfile=%s\<close>, nothing otherwise.
\<close>

definition strsep :: "bytes \<Rightarrow> bytes \<times> bytes option" where
  "strsep s =
     (takeWhile (\<lambda>b. b \<noteq> 44) s,
      case dropWhile (\<lambda>b. b \<noteq> 44) s of [] \<Rightarrow> None | _ # rest \<Rightarrow> Some rest)"

record trfs_options =
  filename :: "bytes option"
  opt_err :: int

function (sequential) parse_loop ::
  "'k env \<Rightarrow> (bytes \<Rightarrow> bytes option) \<Rightarrow> bytes option \<Rightarrow> trfs_options \<Rightarrow> 'k vfs \<Rightarrow> (trfs_options \<times> 'k vfs) option" where
  "parse_loop E mt None t_op s = Some (t_op, s)"
| "parse_loop E mt (Some options) t_op s =
     (let (p, rest) = strsep options in
      if p = [] then parse_loop E mt rest t_op s
      else case mt p of
             None \<Rightarrow> parse_loop E mt rest (t_op\<lparr>opt_err := - EINVAL\<rparr>) s
           | Some arg \<Rightarrow>
               (case invoke E [] (Ref (R_alloc (length arg + 1))) s of
                  None \<Rightarrow> None
                | Some (a, s') \<Rightarrow>
                    if a = 0 then None
                    else parse_loop E mt rest (t_op\<lparr>filename := Some arg, opt_err := 0\<rparr>) s'))"
  by pat_completeness auto

lemma strsep_shorter: "(p, Some rest) = strsep s \<Longrightarrow> length rest < length s"
proof -
  assume "(p, Some rest) = strsep s"
  then obtain b where "dropWhile (\<lambda>b. b \<noteq> 44) s = b # rest"
    by (auto simp: strsep_def split: list.splits)
  then have "Suc (length rest) \<le> length s" using length_dropWhile_le [of "\<lambda>b. b \<noteq> 44" s] by simp
  then show ?thesis by simp
qed

termination parse_loop
  by (relation "measure (\<lambda>(E, mt, opts, t_op, s). case opts of None \<Rightarrow> 0 | Some x \<Rightarrow> Suc (length x))")
    (auto split: option.splits dest!: strsep_shorter)

abbreviation (input) SIZE_options :: nat where "SIZE_options \<equiv> 16"

text \<open>The result: the address of the options (0 when there is no memory), and their contents.\<close>

definition trfs_parse_options ::
  "'k env \<Rightarrow> (bytes \<Rightarrow> bytes option) \<Rightarrow> bytes option \<Rightarrow> 'k vfs \<Rightarrow> ((kaddr \<times> trfs_options) \<times> 'k vfs) option" where
  "trfs_parse_options E mt options s = do {
     (a, s) \<leftarrow> invoke E [] (Ref (R_alloc SIZE_options)) s;
     let t_op = \<lparr>filename = None, opt_err = 0\<rparr>;
     if a = 0 then Some ((0, t_op), s)
     else if options = None then Some ((a, t_op\<lparr>opt_err := - EINVAL\<rparr>), s)
     else do {
       (t_op, s) \<leftarrow> parse_loop E mt options t_op s;
       Some ((a, t_op), s)
     }
   }"

subsection \<open>The state of the module\<close>

text \<open>
  Beside the state of the file system: the character device, the variable \<open>trfs_kthread\<close>, the
  threads that were started, the trace files that were closed. The environment holds the kernel
  functions of the components that are started, as in their theories.
\<close>

record 'k msys =
  vs :: "'k vfs"
  cdev :: chardev
  trfs_kthread :: ptr
  woken :: "ptr list"
  closed :: "kfile list"

record 'k menv =
  env0 :: "'k env"
  mtoken :: "bytes \<Rightarrow> bytes option"
  fopen :: "bytes \<Rightarrow> filp"
  kcreate :: "unit \<Rightarrow> ptr"
  kstop :: "ptr \<Rightarrow> int"
  drv_alloc :: "trfs_log_driver option"
  cdev_ok :: bool
  cdev_region :: "int + nat"
  cdev_added :: int
  vwrite :: vfs_write

subsection \<open>Mounting\<close>

abbreviation (input) SIZE_sb_info :: nat where "SIZE_sb_info \<equiv> 8"

text \<open>The labels at the end of \<open>trfs_read_super\<close>, from the last to the first.\<close>

definition out_free :: "'k env \<Rightarrow> kaddr \<Rightarrow> path \<Rightarrow> 'k vfs \<Rightarrow> 'k vfs option" where
  "out_free E t_op lp s = do {
     s \<leftarrow> (if t_op \<noteq> 0 then invoke_void E [] (Ref (R_free t_op)) s else Some s);
     invoke_void E [] (Ref (R_path_put lp)) s
   }"

definition out_sput :: "'k env \<Rightarrow> kaddr \<Rightarrow> kaddr \<Rightarrow> kaddr \<Rightarrow> path \<Rightarrow> 'k vfs \<Rightarrow> 'k vfs option" where
  "out_sput E sb lsb t_op lp s = do {
     s \<leftarrow> invoke_void E [lsb] (Ref (R_s_active_dec lsb)) s;
     s \<leftarrow> invoke_void E [] (Ref (R_free (s_fs_info s sb))) s;
     let s = s\<lparr>sinfos := (sinfos s)(s_fs_info s sb := None)\<rparr>;
     let s = s\<lparr>s_fs_info := (s_fs_info s)(sb := 0)\<rparr>;
     out_free E t_op lp s
   }"

definition out_iput :: "'k env \<Rightarrow> kaddr \<Rightarrow> kaddr \<Rightarrow> kaddr \<Rightarrow> kaddr \<Rightarrow> path \<Rightarrow> 'k vfs \<Rightarrow> 'k vfs option" where
  "out_iput E inode sb lsb t_op lp s = do {
     s \<leftarrow> invoke_void E [inode] (Ref (R_iput inode)) s;
     out_sput E sb lsb t_op lp s
   }"

definition out_freeroot :: "'k env \<Rightarrow> kaddr \<Rightarrow> kaddr \<Rightarrow> kaddr \<Rightarrow> kaddr \<Rightarrow> kaddr \<Rightarrow> path \<Rightarrow> 'k vfs \<Rightarrow> 'k vfs option" where
  "out_freeroot E root inode sb lsb t_op lp s = do {
     s \<leftarrow> invoke_void E [root] (Ref (R_dput root)) s;
     out_iput E inode sb lsb t_op lp s
   }"

text \<open>The part of \<open>trfs_read_super\<close> after there is a root dentry.\<close>

definition link_root :: "'k env \<Rightarrow> kaddr \<Rightarrow> kaddr \<Rightarrow> kaddr \<Rightarrow> kaddr \<Rightarrow> kaddr \<Rightarrow> path \<Rightarrow> 'k op" where
  "link_root E root inode sb lsb t_op lp s = do {
     s \<leftarrow> set_dentry root (\<lambda>d. d\<lparr>d_op_set := True\<rparr>) s;
     let s = s\<lparr>d_fsdata := (d_fsdata s)(root := 0)\<rparr>;
     (err, s) \<leftarrow> new_dentry_private_data E root s;
     if err \<noteq> 0 then do {
       s \<leftarrow> out_freeroot E root inode sb lsb t_op lp s;
       Some (err, s)
     }
     else do {
       s \<leftarrow> trfs_set_lower_path E root lp s;
       s \<leftarrow> invoke_void E [root] (Node (C_d_rehash root)) s;
       Some (0, s)
     }
   }"

text \<open>The part after the lower superblock is known.\<close>

definition make_root :: "'k env \<Rightarrow> kaddr \<Rightarrow> kaddr \<Rightarrow> kaddr \<Rightarrow> path \<Rightarrow> 'k op" where
  "make_root E sb lsb t_op lp s = do {
     li \<leftarrow> d_inode_of (pdentry lp) s;
     (inode, s) \<leftarrow> trfs_iget E sb li s;
     if IS_ERR inode then do {
       s \<leftarrow> out_sput E sb lsb t_op lp s;
       Some (inode, s)
     }
     else do {
       (root, s) \<leftarrow> invoke E [] (Ref (R_d_make_root inode)) s;
       s \<leftarrow> set_super sb (\<lambda>b. b\<lparr>s_root := root\<rparr>) s;
       if root = 0 then do {
         s \<leftarrow> out_iput E inode sb lsb t_op lp s;
         Some (- ENOMEM, s)
       }
       else link_root E root inode sb lsb t_op lp s
     }
   }"

text \<open>From the lookup of the lower directory on.\<close>

definition mount_lower :: "'k env \<Rightarrow> kaddr \<Rightarrow> bytes \<Rightarrow> kaddr \<Rightarrow> 'k op" where
  "mount_lower E sb dev_name t_op s = do {
     (err, s) \<leftarrow> invoke E [] (Ref (R_kern_path dev_name)) s;
     if err \<noteq> 0 then Some (err, s)
     else do {
       let lp = outp (ko s);
       (info, s) \<leftarrow> invoke E [] (Ref (R_alloc SIZE_sb_info)) s;
       let s = s\<lparr>s_fs_info := (s_fs_info s)(sb := info)\<rparr>;
       if info = 0 then do {
         s \<leftarrow> out_free E t_op lp s;
         Some (- ENOMEM, s)
       }
       else do {
         let s = s\<lparr>sinfos := (sinfos s)(info \<mapsto> \<lparr>lower_sb = 0\<rparr>)\<rparr>;
         ld \<leftarrow> dentry_at (pdentry lp) s;
         let lsb = d_sb ld;
         s \<leftarrow> invoke_void E [lsb] (Ref (R_s_active_inc lsb)) s;
         s \<leftarrow> trfs_set_lower_super sb lsb s;
         s \<leftarrow> set_super sb (\<lambda>b. b\<lparr>s_maxbytes := s_maxbytes (supers (ko s) lsb), s_time_gran := 1, s_ops_set := True\<rparr>) s;
         make_root E sb lsb t_op lp s
       }
     }
   }"

text \<open>Starting the log: queue, trace file, driver, thread, device. \<open>None\<close> in the result: go on.\<close>

definition start_log :: "'k menv \<Rightarrow> bytes option \<Rightarrow> 'k msys \<Rightarrow> (int option \<times> 'k msys) option" where
  "start_log C name m = do {
     let l = klg (vs m);
     (r, q) \<leftarrow> trfs_create_log_q (mq l);
     let l = l\<lparr>mq := q\<rparr>;
     if r < 0 then Some (Some (- EINVAL), m\<lparr>vs := (vs m)\<lparr>klg := l\<rparr>\<rparr>)
     else do {
       (r, l) \<leftarrow> trfs_log_write_init (fopen C) name l;
       let m = m\<lparr>vs := (vs m)\<lparr>klg := l\<rparr>\<rparr>;
       if r < 0 then Some (Some (- EINVAL), m)
       else do {
         let m = m\<lparr>vs := (vs m)\<lparr>tld := trfs_log_driver_init (drv_alloc C)\<rparr>\<rparr>;
         let (_, task, var) = trfs_kthread_create (kcreate C) (trfs_kthread m);
         let m = m\<lparr>trfs_kthread := var, woken := woken m @ (case task of None \<Rightarrow> [] | Some t \<Rightarrow> [t])\<rparr>;
         if tld (vs m) = None then Some (Some (- ENOMEM), m)
         else do {
           (_, dev) \<leftarrow> trfs_ioctl_init (cdev_ok C) (cdev_region C) (cdev_added C) (cdev m);
           Some (None, m\<lparr>cdev := dev\<rparr>)
         }
       }
     }
   }"

record trfs_raw_data =
  dev_name :: "bytes option"
  raw_tfile :: "bytes option"

definition trfs_read_super :: "'k menv \<Rightarrow> kaddr \<Rightarrow> trfs_raw_data \<Rightarrow> 'k msys \<Rightarrow> (int \<times> 'k msys) option" where
  "trfs_read_super C sb rdata m =
     (case dev_name rdata of
        None \<Rightarrow> Some (- EINVAL, m)
      | Some dev \<Rightarrow> do {
          ((t_op, opts), s) \<leftarrow> trfs_parse_options (env0 C) (mtoken C) (raw_tfile rdata) (vs m);
          let m = m\<lparr>vs := s\<rparr>;
          if t_op = 0 then Some (- ENOMEM, m)
          else if opt_err opts \<noteq> 0 \<and> raw_tfile rdata \<noteq> None then Some (opt_err opts, m)
          else do {
            (stop, m) \<leftarrow> start_log C (filename opts) m;
            (case stop of
               Some err \<Rightarrow> Some (err, m)
             | None \<Rightarrow> do {
                 (err, s) \<leftarrow> mount_lower (env0 C) sb dev t_op (vs m);
                 Some (err, m\<lparr>vs := s\<rparr>)
               })
          }
        })"

text \<open>\<open>mount_nodev\<close> is the kernel's: it makes a superblock \<open>sb\<close> and fills it.\<close>

definition trfs_mount :: "'k menv \<Rightarrow> kaddr \<Rightarrow> bytes option \<Rightarrow> bytes option \<Rightarrow> 'k msys \<Rightarrow> (int \<times> 'k msys) option" where
  "trfs_mount C sb dev raw m = trfs_read_super C sb \<lparr>dev_name = dev, raw_tfile = raw\<rparr> m"

subsection \<open>Unmounting\<close>

text \<open>
  The memory of the log driver is freed and its pointer is left as it was: the driver is gone, and
  following the pointer is a memory fault, as it is when there never was a driver.
\<close>

definition trfs_exit :: "'k menv \<Rightarrow> ptr \<Rightarrow> 'k msys \<Rightarrow> 'k msys option" where
  "trfs_exit C frame m = do {
     l \<leftarrow> trfs_log_write_flush (vwrite C) (klg (vs m));
     let (file, l) = trfs_log_write_close l;
     let m = m\<lparr>closed := closed m @ (case file of None \<Rightarrow> [] | Some f \<Rightarrow> [f])\<rparr>;
     l \<leftarrow> (if trfs_kthread m \<noteq> NULL
           then map_option snd (trfs_kthread_exit (kstop C) frame (trfs_kthread m) l) else Some l);
     let l = l\<lparr>mq := snd (trfs_delete_log_q (mq l))\<rparr>;
     Some (m\<lparr>vs := (vs m)\<lparr>klg := l, tld := None\<rparr>, cdev := trfs_ioctl_exit (cdev m)\<rparr>)
   }"

definition trfs_put_super :: "'k menv \<Rightarrow> ptr \<Rightarrow> kaddr \<Rightarrow> 'k msys \<Rightarrow> 'k msys option" where
  "trfs_put_super C frame sb m = do {
     m \<leftarrow> trfs_exit C frame m;
     let s = vs m;
     if s_fs_info s sb = 0 then Some m
     else do {
       l \<leftarrow> trfs_lower_super sb s;
       s \<leftarrow> trfs_set_lower_super sb 0 s;
       s \<leftarrow> invoke_void (env0 C) [l] (Ref (R_s_active_dec l)) s;
       s \<leftarrow> invoke_void (env0 C) [] (Ref (R_free (s_fs_info s sb))) s;
       let s = s\<lparr>sinfos := (sinfos s)(s_fs_info s sb := None)\<rparr>;
       Some (m\<lparr>vs := s\<lparr>s_fs_info := (s_fs_info s)(sb := 0)\<rparr>\<rparr>)
     }
   }"

subsection \<open>The other operations of a superblock\<close>

text \<open>
  \<open>vfs_statfs\<close> fills a structure of the caller: \<open>filled\<close> reads it off the kernel's memory. The
  constant \<open>TRFS_SUPER_MAGIC\<close> is not defined in the repository and is a parameter.
\<close>

record kstatfs =
  f_type :: int
  f_bsize :: int
  f_blocks :: nat

definition trfs_statfs ::
  "'k env \<Rightarrow> int \<Rightarrow> ('k kobjs \<Rightarrow> kstatfs) \<Rightarrow> kaddr \<Rightarrow> 'k vfs \<Rightarrow> ((int \<times> kstatfs) \<times> 'k vfs) option" where
  "trfs_statfs E TRFS_SUPER_MAGIC filled dentry s = do {
     (lp, s) \<leftarrow> trfs_get_lower_path E dentry s;
     (err, s) \<leftarrow> invoke E [] (Node (C_vfs_statfs lp)) s;
     let statbuf = filled (ko s);
     s \<leftarrow> trfs_put_lower_path E dentry lp s;
     Some ((err, statbuf\<lparr>f_type := TRFS_SUPER_MAGIC\<rparr>), s)
   }"

abbreviation (input) MS_RDONLY :: u32 where "MS_RDONLY \<equiv> 1"
abbreviation (input) MS_MANDLOCK :: u32 where "MS_MANDLOCK \<equiv> 64"
abbreviation (input) MS_SILENT :: u32 where "MS_SILENT \<equiv> 32768"

definition trfs_remount_fs :: "u32 \<Rightarrow> int" where
  "trfs_remount_fs flags =
     (if flags AND NOT (MS_RDONLY OR MS_MANDLOCK OR MS_SILENT) \<noteq> 0 then - EINVAL else 0)"

text \<open>\<open>iput\<close> of a null pointer does nothing, so the lower inode is not followed here.\<close>

definition trfs_evict_inode :: "'k env \<Rightarrow> kaddr \<Rightarrow> 'k vfs \<Rightarrow> 'k vfs option" where
  "trfs_evict_inode E inode s = do {
     s \<leftarrow> invoke_void E [inode] (Node (C_truncate_inode_pages inode)) s;
     s \<leftarrow> invoke_void E [inode] (Node (C_clear_inode inode)) s;
     lower \<leftarrow> trfs_lower_inode inode s;
     s \<leftarrow> trfs_set_lower_inode inode 0 s;
     invoke_void E [] (Ref (R_iput lower)) s
   }"

text \<open>The \<open>struct inode\<close> lies 8 bytes into the \<open>struct trfs_inode_info\<close>, after \<open>lower_inode\<close>.\<close>

abbreviation (input) OFF_vfs_inode :: int where "OFF_vfs_inode \<equiv> 8"
abbreviation (input) SIZE_inode_info :: nat where "SIZE_inode_info \<equiv> 600"

definition trfs_alloc_inode :: "'k env \<Rightarrow> 'k op" where
  "trfs_alloc_inode E s = do {
     (i, s) \<leftarrow> invoke E [] (Ref (R_alloc SIZE_inode_info)) s;
     if i = 0 then Some (0, s)
     else do {
       s \<leftarrow> set_inode (i + OFF_vfs_inode) (\<lambda>x. x\<lparr>lower_inode := 0\<rparr>) s;
       s \<leftarrow> set_inode (i + OFF_vfs_inode) (\<lambda>x. x\<lparr>i_version := 1\<rparr>) s;
       Some (i + OFF_vfs_inode, s)
     }
   }"

definition trfs_destroy_inode :: "'k env \<Rightarrow> kaddr \<Rightarrow> 'k vfs \<Rightarrow> 'k vfs option" where
  "trfs_destroy_inode E inode s = invoke_void E [] (Ref (R_free (inode - OFF_vfs_inode))) s"

definition init_once :: "'k env \<Rightarrow> kaddr \<Rightarrow> 'k vfs \<Rightarrow> 'k vfs option" where
  "init_once E obj s =
     invoke_void E [obj + OFF_vfs_inode] (Node (C_inode_init_once (obj + OFF_vfs_inode))) s"

definition trfs_umount_begin :: "'k env \<Rightarrow> kaddr \<Rightarrow> 'k vfs \<Rightarrow> 'k vfs option" where
  "trfs_umount_begin E sb s = do {
     lsb \<leftarrow> trfs_lower_super sb s;
     if lsb \<noteq> 0 \<and> s_ops_set (supers (ko s) lsb) \<and> s_umount_begin (supers (ko s) lsb)
     then invoke_void E [lsb] (Node (C_umount_begin lsb)) s else Some s
   }"

subsection \<open>File handles\<close>

definition trfs_nfs_get_inode :: "'k env \<Rightarrow> kaddr \<Rightarrow> nat \<Rightarrow> u32 \<Rightarrow> 'k op" where
  "trfs_nfs_get_inode E sb ino generation s = do {
     lsb \<leftarrow> trfs_lower_super sb s;
     (lower, s) \<leftarrow> invoke E [lsb] (Node (C_ilookup lsb ino)) s;
     trfs_iget E sb lower s
   }"

text \<open>The functions of the kernel that decode a handle are the parameter \<open>generic\<close>.\<close>

definition trfs_fh_to_dentry ::
  "'k env \<Rightarrow> ((nat \<Rightarrow> u32 \<Rightarrow> 'k op) \<Rightarrow> 'f \<Rightarrow> int \<Rightarrow> int \<Rightarrow> 'k op) \<Rightarrow> kaddr \<Rightarrow> 'f \<Rightarrow> int \<Rightarrow> int \<Rightarrow> 'k op" where
  "trfs_fh_to_dentry E generic sb fid fh_len fh_type = generic (trfs_nfs_get_inode E sb) fid fh_len fh_type"

definition trfs_fh_to_parent ::
  "'k env \<Rightarrow> ((nat \<Rightarrow> u32 \<Rightarrow> 'k op) \<Rightarrow> 'f \<Rightarrow> int \<Rightarrow> int \<Rightarrow> 'k op) \<Rightarrow> kaddr \<Rightarrow> 'f \<Rightarrow> int \<Rightarrow> int \<Rightarrow> 'k op" where
  "trfs_fh_to_parent E generic sb fid fh_len fh_type = generic (trfs_nfs_get_inode E sb) fid fh_len fh_type"

subsection \<open>Calls of the kernel\<close>

text \<open>
  A call through \<open>trfs_sops\<close> or for a file handle while the file system is mounted, and the
  constructor of the inode cache. The functions without a result return 0.
\<close>

datatype 'k super_request =
    S_statfs int "'k kobjs \<Rightarrow> kstatfs" kaddr
  | S_evict_inode kaddr
  | S_umount_begin kaddr
  | S_alloc_inode
  | S_destroy_inode kaddr
  | S_init_once kaddr
  | S_get_inode kaddr nat u32

fun super_call :: "'k env \<Rightarrow> 'k super_request \<Rightarrow> 'k op" where
  "super_call E (S_statfs magic filled d) = map_option (\<lambda>((r, _), s). (r, s)) \<circ> trfs_statfs E magic filled d"
| "super_call E (S_evict_inode i) = map_option (Pair 0) \<circ> trfs_evict_inode E i"
| "super_call E (S_umount_begin sb) = map_option (Pair 0) \<circ> trfs_umount_begin E sb"
| "super_call E S_alloc_inode = trfs_alloc_inode E"
| "super_call E (S_destroy_inode i) = map_option (Pair 0) \<circ> trfs_destroy_inode E i"
| "super_call E (S_init_once obj) = map_option (Pair 0) \<circ> init_once E obj"
| "super_call E (S_get_inode sb ino generation) = trfs_nfs_get_inode E sb ino generation"

subsection \<open>Loading and unloading the module\<close>

text \<open>
  The two caches and the registration. \<open>caches\<close> are the caches that exist; what
  \<open>kmem_cache_create\<close> and \<open>register_filesystem\<close> return are parameters. Destroying a cache that
  does not exist is a memory fault.
\<close>

record trfs_module =
  trfs_inode_cachep :: ptr
  trfs_dentry_cachep :: ptr
  caches :: "ptr list"
  registered :: bool

definition trfs_init_inode_cache :: "ptr \<Rightarrow> trfs_module \<Rightarrow> int \<times> trfs_module" where
  "trfs_init_inode_cache created m =
     (let m = m\<lparr>trfs_inode_cachep := created\<rparr> in
      if created = NULL then (- ENOMEM, m) else (0, m\<lparr>caches := created # caches m\<rparr>))"

definition trfs_init_dentry_cache :: "ptr \<Rightarrow> trfs_module \<Rightarrow> int \<times> trfs_module" where
  "trfs_init_dentry_cache created m =
     (let m = m\<lparr>trfs_dentry_cachep := created\<rparr> in
      if created = NULL then (- ENOMEM, m) else (0, m\<lparr>caches := created # caches m\<rparr>))"

definition kmem_cache_destroy :: "ptr \<Rightarrow> trfs_module \<Rightarrow> trfs_module option" where
  "kmem_cache_destroy p m =
     (if p \<in> set (caches m) then Some (m\<lparr>caches := remove1 p (caches m)\<rparr>) else None)"

definition trfs_destroy_inode_cache :: "trfs_module \<Rightarrow> trfs_module option" where
  "trfs_destroy_inode_cache m =
     (if trfs_inode_cachep m \<noteq> NULL then kmem_cache_destroy (trfs_inode_cachep m) m else Some m)"

definition trfs_destroy_dentry_cache :: "trfs_module \<Rightarrow> trfs_module option" where
  "trfs_destroy_dentry_cache m =
     (if trfs_dentry_cachep m \<noteq> NULL then kmem_cache_destroy (trfs_dentry_cachep m) m else Some m)"

definition init_trfs_fs :: "ptr \<Rightarrow> ptr \<Rightarrow> int \<Rightarrow> trfs_module \<Rightarrow> (int \<times> trfs_module) option" where
  "init_trfs_fs icache dcache reg m = do {
     let (err, m) = trfs_init_inode_cache icache m;
     let (err, m) = (if err \<noteq> 0 then (err, m) else
       let (err, m) = trfs_init_dentry_cache dcache m in
       if err \<noteq> 0 then (err, m) else (reg, m\<lparr>registered := (reg = 0)\<rparr>));
     if err \<noteq> 0 then do {
       m \<leftarrow> trfs_destroy_inode_cache m;
       m \<leftarrow> trfs_destroy_dentry_cache m;
       Some (err, m)
     }
     else Some (err, m)
   }"

definition exit_trfs_fs :: "trfs_module \<Rightarrow> trfs_module option" where
  "exit_trfs_fs m = do {
     m \<leftarrow> trfs_destroy_inode_cache m;
     m \<leftarrow> trfs_destroy_dentry_cache m;
     Some (m\<lparr>registered := False\<rparr>)
   }"

section \<open>Specification vocabulary\<close>

subsection \<open>Options as a list\<close>

text \<open>The pieces between the commas; the last argument given wins, the last option decides on the error.\<close>

fun comma_split :: "bytes \<Rightarrow> bytes list" where
  "comma_split [] = [[]]"
| "comma_split (b # bs) =
     (if b = 44 then [] # comma_split bs
      else (b # hd (comma_split bs)) # tl (comma_split bs))"

definition the_options :: "(bytes \<Rightarrow> bytes option) \<Rightarrow> bytes \<Rightarrow> bytes option list" where
  "the_options mt options = map mt (filter (\<lambda>p. p \<noteq> []) (comma_split options))"

definition options_meaning :: "(bytes \<Rightarrow> bytes option) \<Rightarrow> bytes \<Rightarrow> trfs_options" where
  "options_meaning mt options =
     (let ms = the_options mt options; args = filter (\<lambda>m. m \<noteq> None) ms in
      \<lparr>filename = (if args = [] then None else last args),
       opt_err = (if ms \<noteq> [] \<and> last ms = None then - EINVAL else 0)\<rparr>)"

text \<open>An allocator that never runs out of memory.\<close>

definition plentiful :: "'k env \<Rightarrow> bool" where
  "plentiful E \<longleftrightarrow> (\<forall>n k. fst (kern E (Ref (R_alloc n)) k) \<noteq> 0)"

subsection \<open>Unmounting as the kernel does it\<close>

text \<open>
  \<open>generic_shutdown_super\<close>: the reference to the root dentry is dropped, which releases the
  dentry, and then the file system's \<open>put_super\<close> runs.
\<close>

definition shutdown_super :: "'k menv \<Rightarrow> ptr \<Rightarrow> kaddr \<Rightarrow> 'k msys \<Rightarrow> 'k msys option" where
  "shutdown_super C frame sb m = do {
     let root = s_root (supers (ko (vs m)) sb);
     s \<leftarrow> invoke_void (env0 C) [root] (Ref (R_dput root)) (vs m);
     s \<leftarrow> trfs_d_release (env0 C) root s;
     trfs_put_super C frame sb (m\<lparr>vs := s\<rparr>)
   }"

subsection \<open>The thread starts\<close>

text \<open>The thread that the mount has woken up runs as far as its loop.\<close>

definition thread_started :: "'k menv \<Rightarrow> 'k msys \<Rightarrow> 'k vfs" where
  "thread_started C m = (vs m)\<lparr>klg := log_write_start (kmal (env0 C)) (klg (vs m))\<rparr>"

subsection \<open>Active superblocks\<close>

text \<open>The account of the references to superblocks.\<close>

primrec is_active :: "resource \<Rightarrow> bool" where
  "is_active (Dentry_ref d) = False"
| "is_active (Mnt_ref m) = False"
| "is_active (Spin d) = False"
| "is_active (Inode_lock i) = False"
| "is_active (Rename_lock d e) = False"
| "is_active (File_ref f) = False"
| "is_active (Inode_ref i) = False"
| "is_active (Sb_active b) = True"
| "is_active (Block p) = False"

definition actives :: "'k vfs \<Rightarrow> resource multiset option" where
  "actives s = settle (filter (is_active \<circ> moved) (concat (map event_moves (events s)))) {#}"

section \<open>Lemmas\<close>

subsection \<open>Options\<close>

lemma comma_split_not_Nil [simp]: "comma_split s \<noteq> []"
  by (cases s) auto

lemma comma_split_strsep:
  "comma_split s = fst (strsep s) # (case snd (strsep s) of None \<Rightarrow> [] | Some rest \<Rightarrow> comma_split rest)"
  by (induction s rule: comma_split.induct) (auto simp: strsep_def split: list.splits)

fun take_option :: "trfs_options \<Rightarrow> bytes option \<Rightarrow> trfs_options" where
  "take_option t None = t\<lparr>opt_err := - EINVAL\<rparr>"
| "take_option t (Some arg) = t\<lparr>filename := Some arg, opt_err := 0\<rparr>"

lemma the_options_strsep:
  "the_options mt x = (if fst (strsep x) = [] then [] else [mt (fst (strsep x))]) @
     (case snd (strsep x) of None \<Rightarrow> [] | Some rest \<Rightarrow> the_options mt rest)"
  unfolding the_options_def by (subst comma_split_strsep) (cases "snd (strsep x)"; simp)

lemma parse_loop_fold:
  "plentiful E \<Longrightarrow> \<exists>s'. parse_loop E mt opts t s =
     Some (foldl take_option t (case opts of None \<Rightarrow> [] | Some x \<Rightarrow> the_options mt x), s')"
proof (induction E mt opts t s rule: parse_loop.induct)
  case (1 E mt t s)
  then show ?case by simp
next
  case (2 E mt x t s)
  obtain p rest where p: "strsep x = (p, rest)" by fastforce
  note IH = "2.IH" [OF p [symmetric] refl]
  show ?case
  proof (cases "p = []")
    case True
    then show ?thesis using IH(1) "2.prems" by (simp add: p the_options_strsep [of mt x])
  next
    case False
    note ne = this
    show ?thesis
    proof (cases "mt p")
      case None
      then show ?thesis using IH(2) "2.prems" ne by (simp add: p the_options_strsep [of mt x])
    next
      case (Some arg)
      obtain a s' where a: "invoke E [] (Ref (R_alloc (length arg + 1))) s = Some (a, s')" "a \<noteq> 0"
        using "2.prems" by (simp add: invoke_def Let_def plentiful_def)
      show ?thesis
        using IH(3) [OF ne Some a(1) refl a(2) "2.prems"] ne Some a
        by (simp add: p the_options_strsep [of mt x])
    qed
  qed
qed

lemma foldl_take_option:
  "foldl take_option t ms =
     \<lparr>filename = (if filter (\<lambda>m. m \<noteq> None) ms = [] then filename t else last (filter (\<lambda>m. m \<noteq> None) ms)),
      opt_err = (if ms = [] then opt_err t else if last ms = None then - EINVAL else 0)\<rparr>"
proof (induction ms arbitrary: t)
  case (Cons m ms)
  then show ?case by (cases m) auto
qed simp

subsection \<open>References to superblocks\<close>

text \<open>The part of the state that concerns superblocks, and the steps that leave it alone.\<close>

definition quiet :: "kcall \<Rightarrow> bool" where
  "quiet c \<longleftrightarrow> (\<forall>r out. filter (is_active \<circ> moved) (event_moves (Call c r out)) = [])"

lemma active_path [simp]:
  "filter (is_active \<circ> moved) (map Acq (path_refs p)) = []"
  "filter (is_active \<circ> moved) (map Rel (path_refs p)) = []"
  by (simp_all add: path_refs_def)

lemma quiet_simps [simp]:
  "quiet (Dir dc)" "quiet (Attr ac)" "quiet (Node nc)" "quiet (File fc)"
  "quiet (Ref (R_iget5_locked sb n i))" "quiet (Ref (R_igrab i))" "quiet (Ref (R_iput i))"
  "quiet (Ref (R_alloc n))" "quiet (Ref (R_free p))" "quiet (Ref (R_kern_path b))"
  "quiet (Ref (R_d_make_root i))" "quiet (Ref (R_dput d))" "quiet (Ref (R_path_put lp))"
  "quiet (Ref (R_spin_lock d))" "quiet (Ref (R_spin_unlock d))"
  by (simp_all add: quiet_def)

definition sbs :: "resource multiset option \<Rightarrow> (kaddr \<Rightarrow> kaddr) \<Rightarrow> (kaddr \<rightharpoonup> trfs_sb_info) \<Rightarrow> 'k vfs \<Rightarrow> bool" where
  "sbs A f i s \<longleftrightarrow> actives s = A \<and> s_fs_info s = f \<and> sinfos s = i"

named_theorems sups \<comment> \<open>rules for the first step of an operation, about superblocks\<close>

lemma sup_call:
  assumes "sbs A g i s" and "quiet c" and "\<And>r s'. sbs A g i s' \<Longrightarrow> after (f r s') Q"
  shows "after (Option.bind (invoke E ps c s) (case_prod f)) Q"
proof (rule after_bindI, clarify)
  fix r s' assume "invoke E ps c s = Some (r, s')"
  then have "events s' = events s @ [Call c r (outp (ko s'))]" "s_fs_info s' = s_fs_info s" "sinfos s' = sinfos s"
    by (auto dest: invoke_fields)
  then have "sbs A g i s'" using assms(1,2) by (simp add: sbs_def actives_def quiet_def)
  then show "after (f r s') Q" by (rule assms(3))
qed

lemma sup_void:
  assumes "sbs A g i s" and "quiet c" and "\<And>s'. sbs A g i s' \<Longrightarrow> after (f s') Q"
  shows "after (Option.bind (invoke_void E ps c s) f) Q"
  unfolding invoke_void_bind by (rule sup_call [OF assms(1,2)]) (rule assms(3))

lemma sup_void_last:
  assumes "sbs A g i s" and "quiet c" and "\<And>s'. sbs A g i s' \<Longrightarrow> Q s'"
  shows "after (invoke_void E ps c s) Q"
  using sup_void [OF assms(1,2), of Some Q E ps] assms(3) by simp

lemmas sup_calls [sups] =
  quiet_simps [THEN [2] sup_call] quiet_simps [THEN [2] sup_void] quiet_simps [THEN [2] sup_void_last]

lemma sup_store [sups]:
  assumes "sbs A g i s"
  shows "(\<And>s'. sbs A g i s' \<Longrightarrow> after (f s') Q) \<Longrightarrow> after (Option.bind (set_inode x h s) f) Q"
    and "(\<And>s'. sbs A g i s' \<Longrightarrow> after (f s') Q) \<Longrightarrow> after (Option.bind (set_super x w s) f) Q"
    and "(\<And>s'. sbs A g i s' \<Longrightarrow> after (f s') Q) \<Longrightarrow> after (Option.bind (set_dentry x d s) f) Q"
    and "(\<And>s'. sbs A g i s' \<Longrightarrow> after (f s') Q) \<Longrightarrow> after (Option.bind (trfs_set_lower_inode x v s) f) Q"
  using assms
  by (auto intro!: after_bindI simp: sbs_def actives_def set_inode_def set_super_def set_dentry_def
      trfs_set_lower_inode_def split: if_splits)

lemma sup_private: "sbs A g i s \<Longrightarrow> sbs A g i (s\<lparr>dinfos := x\<rparr>)" "sbs A g i s \<Longrightarrow> sbs A g i (s\<lparr>d_fsdata := y\<rparr>)"
  by (simp_all add: sbs_def actives_def)

lemma sup_store_path [sups]:
  assumes "sbs A g i s" and "\<And>s'. sbs A g i s' \<Longrightarrow> after (f s') Q"
  shows "after (Option.bind (store_path d lp s) f) Q"
  by (rule after_bindI, rule assms(2)) (use sup_private(1) [OF assms(1)] in \<open>auto simp: store_path_def\<close>)

lemma sup_init_inode [sups]:
  assumes "sbs A g i s" and "\<And>s'. sbs A g i s' \<Longrightarrow> after (f s') Q"
  shows "after (Option.bind (init_inode E x l s) f) Q"
  unfolding init_inode_def by (rule sups flow assms | assumption)+

lemma sup_iget [sups]:
  assumes "sbs A g i s" and "\<And>r s'. sbs A g i s' \<Longrightarrow> after (f r s') Q"
  shows "after (Option.bind (trfs_iget E sb l s) (case_prod f)) Q"
  unfolding trfs_iget_def by (rule sups flow assms | assumption)+

lemma sup_new_private [sups]:
  assumes "sbs A g i s" and "\<And>r s'. sbs A g i s' \<Longrightarrow> after (f r s') Q"
  shows "after (Option.bind (new_dentry_private_data E d s) (case_prod f)) Q"
  unfolding new_dentry_private_data_def by (rule sups flow assms sup_private | assumption)+

lemma sup_set_path [sups]:
  assumes "sbs A g i s" and "\<And>s'. sbs A g i s' \<Longrightarrow> after (f s') Q"
  shows "after (Option.bind (trfs_set_lower_path E d lp s) f) Q"
  unfolding trfs_set_lower_path_def by (rule sups flow assms | assumption)+

lemma sup_active:
  assumes "sbs (Some A) g i s"
  shows "(\<And>s'. sbs (Some (add_mset (Sb_active b) A)) g i s' \<Longrightarrow> after (f s') Q) \<Longrightarrow>
      after (Option.bind (invoke_void E ps (Ref (R_s_active_inc b)) s) f) Q"
    and "Sb_active b \<in># A \<Longrightarrow> (\<And>s'. sbs (Some (A - {#Sb_active b#})) g i s' \<Longrightarrow> after (f s') Q) \<Longrightarrow>
      after (Option.bind (invoke_void E ps (Ref (R_s_active_dec b)) s) f) Q"
  using assms
  by (auto intro!: after_bindI simp: sbs_def actives_def invoke_void_def invoke_def Let_def settle_append split: if_splits)

lemma sup_out_free:
  assumes "sbs A g i s" and "\<And>s'. sbs A g i s' \<Longrightarrow> Q s'"
  shows "after (out_free E t_op lp s) Q"
  unfolding out_free_def by (rule sups flow assms | assumption)+

lemma sup_out_sput:
  assumes "sbs (Some (add_mset (Sb_active lsb) A)) g i s"
  shows "after (out_sput E sb lsb t_op lp s) (\<lambda>s'. actives s' = Some A \<and> s_fs_info s' sb = 0)"
  unfolding out_sput_def
  apply (rule sup_active(2) [OF assms], simp)
  apply (rule sups, assumption, rule step_let, rule step_let)
  apply (rule sup_out_free [where A = "Some A" and g = "g(sb := 0)" and i = "i(g sb := None)"])
   apply (auto simp: sbs_def actives_def)
  done

text \<open>What a mount does to the references to superblocks.\<close>

definition mounted :: "kaddr \<Rightarrow> resource multiset \<Rightarrow> int \<Rightarrow> 'k vfs \<Rightarrow> bool" where
  "mounted sb A err s' \<longleftrightarrow>
     (if err = 0
      then s_fs_info s' sb \<noteq> 0 \<and>
        (\<exists>lsb. trfs_lower_super sb s' = Some lsb \<and> actives s' = Some (add_mset (Sb_active lsb) A))
      else actives s' = Some A)"

lemma out_sput_mounted:
  assumes "sbs (Some (add_mset (Sb_active lsb) A)) g i s" and "err \<noteq> 0"
  shows "after (Option.bind (out_sput E sb lsb t_op lp s) (\<lambda>s. Some (err, s))) (\<lambda>(err, s'). mounted sb A err s')"
  using sup_out_sput [OF assms(1), of E sb t_op lp] assms(2) by (auto simp: after_def mounted_def bind_eq_Some_conv)

lemma link_root_mounted:
  assumes "sbs (Some (add_mset (Sb_active lsb) A)) g i s" and "valid sb" and "g sb \<noteq> 0" and "i (g sb) = Some \<lparr>lower_sb = lsb\<rparr>"
  shows "after (link_root E root inode sb lsb t_op lp s) (\<lambda>(err, s'). mounted sb A err s')"
proof -
  have fin: "mounted sb A 0 s'" if "sbs (Some (add_mset (Sb_active lsb) A)) g i s'" for s'
    using that assms(2-4) by (simp add: mounted_def sbs_def trfs_lower_super_def TRFS_SB_def)
  show ?thesis
    unfolding link_root_def
    by (rule out_sput_mounted fin sups flow assms(1) sup_private case_prodI | assumption |
        (unfold out_freeroot_def out_iput_def)[1])+
qed

lemma make_root_mounted:
  assumes "sbs (Some (add_mset (Sb_active lsb) A)) g i s" and "valid sb" and "g sb \<noteq> 0" and "i (g sb) = Some \<lparr>lower_sb = lsb\<rparr>"
  shows "after (make_root E sb lsb t_op lp s) (\<lambda>(err, s'). mounted sb A err s')"
  unfolding make_root_def
  by (rule out_sput_mounted link_root_mounted sups flow assms | assumption |
        (unfold out_iput_def)[1] | (simp add: IS_ERR_def; fail))+

lemma mount_mounted:
  assumes "actives s = Some A"
  shows "after (mount_lower E sb dev t_op s) (\<lambda>(err, s'). mounted sb A err s')"
proof -
  have start: "sbs (Some A) (s_fs_info s) (sinfos s) s" using assms by (simp add: sbs_def)
  have fail: "mounted sb A (- ENOMEM) s'" if "sbs (Some A) g i s'" for g i s'
    using that by (simp add: mounted_def sbs_def)
  have store: "sbs (Some A) (g(sb := x)) i (s'\<lparr>s_fs_info := (s_fs_info s')(sb := x)\<rparr>)" if "sbs (Some A) g i s'" for g i s' x
    using that by (simp add: sbs_def actives_def)
  have info: "sbs (Some A) g (i(x \<mapsto> v)) (s'\<lparr>sinfos := (sinfos s')(x \<mapsto> v)\<rparr>)" if "sbs (Some A) g i s'" for g i s' x v
    using that by (simp add: sbs_def actives_def)
  have set_lower_super: "sbs B (g(sb := x)) (i(x \<mapsto> \<lparr>lower_sb = lsb\<rparr>)) s2 \<and> valid sb"
    if "trfs_set_lower_super sb lsb s1 = Some s2" "sbs B (g(sb := x)) (i(x \<mapsto> \<lparr>lower_sb = 0\<rparr>)) s1" for B g i x lsb s1 s2
    using that by (auto simp: sbs_def actives_def trfs_set_lower_super_def TRFS_SB_def split: if_splits)
  show ?thesis
    unfolding mount_lower_def
    apply (rule sups, rule start, rule step_if)
     apply (rule step_done, rule case_prodI, simp add: mounted_def sbs_def)
    apply (rule step_let, rule sups, assumption, rule step_let, rule step_if)
     apply (rule step_bind_after, rule sup_out_free, erule store)
     apply (rule step_done, rule case_prodI, erule fail)
    apply (rule step_let, rule step_read, rule step_let)
    apply (rule sup_active(1) [OF info], rule store, assumption)
    subgoal for s1 info s2 ld s3
      apply (rule after_bindI)
      apply (drule set_lower_super, assumption, erule conjE)
      apply (rule sup_store(2), assumption)
      apply (rule make_root_mounted, assumption)
      apply simp_all
      done
    done
qed

subsection \<open>References to the lower directory\<close>

lemma since_set_super:
  assumes "since E s0 s M D T W"
  shows "since E s0 (s\<lparr>s_fs_info := x\<rparr>) M D T (W\<lparr>s_fs_info := x\<rparr>)"
    "since E s0 (s\<lparr>sinfos := y\<rparr>) M D T (W\<lparr>sinfos := y\<rparr>)"
  using assms by (simp_all add: since_def pins_def traced_def own_def)

lemma step_out_free:
  assumes "stable E" and "since E s0 s (M + mset (path_refs lp)) D T W"
    and "\<And>s'. since E s0 s' M D T W \<Longrightarrow> Q s'"
  shows "after (out_free E t_op lp s) Q"
  unfolding out_free_def by (rule steps assms | assumption)+

lemma step_out_sput:
  assumes "stable E" and "since E s0 s (M + mset (path_refs lp)) D T W"
    and "\<And>s' W'. since E s0 s' M D T W' \<Longrightarrow> after (f s') Q"
  shows "after (Option.bind (out_sput E sb lsb t_op lp s) f) Q"
proof (rule step_bind_after)
  show "after (out_sput E sb lsb t_op lp s) (\<lambda>s. after (f s) Q)"
    unfolding out_sput_def
    apply (rule steps, rule assms(1), rule assms(2), rule steps, rule assms(1), assumption)
    apply (rule step_let, rule step_let, rule step_out_free [OF assms(1)])
     apply (rule since_set_super(1), erule since_set_super(2))
    apply (erule assms(3))
    done
qed

lemma step_kern_path:
  assumes "stable E" and "since E s0 s M D T W"
    and "\<And>s'. since E s0 s' (M + mset (path_refs (outp (ko s')))) D T W \<Longrightarrow> after (f 0 s') Q"
    and "\<And>r s'. r \<noteq> 0 \<Longrightarrow> since E s0 s' M D T W \<Longrightarrow> after (f r s') Q"
  shows "after (Option.bind (invoke E ps (Ref (R_kern_path n)) s) (case_prod f)) Q"
proof (rule after_bindI, clarify)
  fix r s' assume *: "invoke E ps (Ref (R_kern_path n)) s = Some (r, s')"
  have "since E s0 s' (if r = 0 then M + mset (path_refs (outp (ko s'))) else M) D T W"
    by (rule since_invoke [OF assms(1,2) *]) (simp add: settle_acq)
  then show "after (f r s') Q" using assms(3,4) by (cases "r = 0") auto
qed

lemma make_root_moves:
  "filter (transient \<circ> moved) (event_moves (Call (Ref (R_d_make_root i)) r out)) =
     (if r \<noteq> 0 then [Acq (Dentry_ref r)] else [])"
  by simp

lemmas step_make_root = make_root_moves [THEN [3] step_maybe]

text \<open>What a mount holds: the references of the lower path of the root, and the root.\<close>

definition rooted :: "'k env \<Rightarrow> kaddr \<Rightarrow> 'k vfs \<Rightarrow> int \<Rightarrow> 'k vfs \<Rightarrow> bool" where
  "rooted E root s err s' \<longleftrightarrow>
     (if err = 0
      then \<exists>lp W. since E s s' (mset [Dentry_ref root] + mset (path_refs lp)) [] [] W \<and>
        TRFS_D root W = Some \<lparr>lower_path = lp\<rparr> \<and> finfos W = finfos s \<and>
        dinfos W = (dinfos s)(d_fsdata W root \<mapsto> \<lparr>lower_path = lp\<rparr>) \<and> (dinfos s 0 = None \<longrightarrow> dinfos W 0 = None)
      else \<exists>W. since E s s' {#} [] [] W)"

lemma link_root_rooted:
  assumes "stable E" and "since E s0 s (mset [Dentry_ref root] + mset (path_refs lp)) [] [] W" and "dinfos W = dinfos s0" and "finfos W = finfos s0"
  shows "after (link_root E root inode sb lsb t_op lp s) (\<lambda>(err, s'). rooted E root s0 err s')"
proof -
  have bad: "rooted E root s0 (- ENOMEM) s'" if "since E s0 s' {#} [] [] V" for s' V
    using that by (auto simp: rooted_def)
  have comm: "since E s0 s' ({#} + mset (path_refs lp) + mset [Dentry_ref root]) [] [] V"
    if "since E s0 s' (mset [Dentry_ref root] + mset (path_refs lp)) [] [] V" for s' V
    using that by (simp add: add.commute)
  have good: "rooted E root s0 0 s'"
    if "since E s0 s' (mset [Dentry_ref root] + mset (path_refs lp)) [] []
      (W\<lparr>d_fsdata := x, dinfos := (dinfos (W\<lparr>d_fsdata := x\<rparr>))(info \<mapsto> \<lparr>lower_path = null_path\<rparr>),
        d_fsdata := (d_fsdata (W\<lparr>d_fsdata := x\<rparr>))(root := info),
        dinfos := (dinfos (W\<lparr>d_fsdata := x, dinfos := (dinfos (W\<lparr>d_fsdata := x\<rparr>))(info \<mapsto> \<lparr>lower_path = null_path\<rparr>),
          d_fsdata := (d_fsdata (W\<lparr>d_fsdata := x\<rparr>))(root := info)\<rparr>))
         (d_fsdata (W\<lparr>d_fsdata := x, dinfos := (dinfos (W\<lparr>d_fsdata := x\<rparr>))(info \<mapsto> \<lparr>lower_path = null_path\<rparr>),
          d_fsdata := (d_fsdata (W\<lparr>d_fsdata := x\<rparr>))(root := info)\<rparr>) root \<mapsto> \<lparr>lower_path = lp\<rparr>)\<rparr>)"
      "info \<noteq> 0" "valid root" for s' x info
    unfolding rooted_def if_P [OF refl]
    by (intro exI conjI, rule that(1)) (use that(2,3) assms(3,4) in \<open>simp_all add: TRFS_D_def\<close>)
  show ?thesis
  proof (cases "valid root")
    case True
    show ?thesis
      unfolding link_root_def out_freeroot_def out_iput_def
      apply (rule step_store(5) [OF assms(2)], rule step_let, rule step_new_private [OF assms(1)])
        apply (erule since_set_own(2))
       apply (subst if_P, simp)
       apply (rule step_bind_bind1, rule step_give(3) [OF assms(1)], erule comm)
       apply (rule step_bind_bind1, rule steps, rule assms(1), assumption)
       apply (rule step_out_sput [OF assms(1)], assumption, rule step_done, rule case_prodI, erule bad)
      apply (subst if_not_P, simp)
      apply (rule step_set_path [OF assms(1)], assumption)
      apply (rule steps, rule assms(1), assumption, rule step_done, rule case_prodI)
      apply (rule good [OF _ _ True], assumption+)
      done
  qed (simp add: link_root_def set_dentry_def)
qed

lemma after_conj: "after x P \<Longrightarrow> after x Q \<Longrightarrow> after x (\<lambda>v. P v \<and> Q v)"
  by (simp add: after_def)

text \<open>The kernel does not touch the root of a superblock while it is mounted.\<close>

definition roots_kept :: "'k env \<Rightarrow> bool" where
  "roots_kept E \<longleftrightarrow> (\<forall>c k b. s_root (supers (snd (kern E c k)) b) = s_root (supers k b))"

lemma step_set_root:
  assumes "since E s0 s M D T W"
    and "\<And>s'. since E s0 s' M D T W \<Longrightarrow> s_root (supers (ko s') sb) = root \<Longrightarrow> after (f s') Q"
  shows "after (Option.bind (set_super sb (\<lambda>b. b\<lparr>s_root := root\<rparr>) s) f) Q"
  using since_ko [OF assms(1)] by (auto intro!: assms(2) simp: set_super_def)

lemma link_root_keeps:
  "after (link_root E root inode sb lsb t_op lp s) (\<lambda>(err, s').
     err = 0 \<longrightarrow> roots_kept E \<longrightarrow> s_root (supers (ko s') b) = s_root (supers (ko s) b))"
  by (auto simp: after_def link_root_def new_dentry_private_data_def trfs_set_lower_path_def store_path_def
      set_dentry_def bind_eq_Some_conv invoke_void_def invoke_def Let_def roots_kept_def split: if_splits)

lemma step_set_lower_super:
  assumes "since E s0 s M D T W" and "\<And>s' y. since E s0 s' M D T (W\<lparr>sinfos := y\<rparr>) \<Longrightarrow> after (f s') Q"
  shows "after (Option.bind (trfs_set_lower_super sb v s) f) Q"
  by (rule after_bindI) (use assms(2) since_set_super(2) [OF assms(1)] in \<open>auto simp: trfs_set_lower_super_def\<close>)

lemma make_root_rooted:
  assumes "stable E" and "since E s0 s (mset (path_refs lp)) [] [] W" and "dinfos W = dinfos s0" and "finfos W = finfos s0"
  shows "after (make_root E sb lsb t_op lp s) (\<lambda>(err, s'). \<exists>root. rooted E root s0 err s' \<and>
    (err = 0 \<longrightarrow> roots_kept E \<longrightarrow> s_root (supers (ko s') sb) = root))"
proof -
  have bad: "\<exists>root. rooted E root s0 err s' \<and> (err = 0 \<longrightarrow> roots_kept E \<longrightarrow> s_root (supers (ko s') sb) = root)" if "since E s0 s' {#} [] [] V" "err \<noteq> 0" for err s' V
    using that by (auto simp: rooted_def)
  have zero: "since E s0 s' ({#} + mset (path_refs lp)) [] [] V" if "since E s0 s' (mset (path_refs lp)) [] [] V" for s' V
    using that by simp
  show ?thesis
    unfolding make_root_def out_iput_def
    apply (rule steps, rule step_iget [OF assms(1,2)], rule step_if)
     apply (rule step_out_sput [OF assms(1)], erule zero, rule step_done, rule case_prodI, erule bad, simp add: IS_ERR_def)
    apply (rule step_make_root [OF assms(1)], assumption)
     apply (rule step_set_root, assumption, rule step_if, simp)
     apply (rule after_mono, rule after_conj, rule link_root_rooted [OF assms(1) _ assms(3,4)])
       apply (simp only: add.commute)
      apply (rule link_root_keeps)
     apply blast
    apply (rule step_store(3), assumption, rule step_if)
     apply (rule step_bind_bind1, rule steps, rule assms(1), assumption)
     apply (rule step_out_sput [OF assms(1)], erule zero, rule step_done, rule case_prodI, erule bad, simp)
    apply simp
    done
qed

lemma mount_rooted:
  assumes "stable E"
  shows "after (mount_lower E sb dev t_op s) (\<lambda>(err, s'). \<exists>root. rooted E root s err s' \<and>
    (err = 0 \<longrightarrow> roots_kept E \<longrightarrow> s_root (supers (ko s') sb) = root))"
proof -
  have bad: "\<exists>root. rooted E root s err s' \<and> (err = 0 \<longrightarrow> roots_kept E \<longrightarrow> s_root (supers (ko s') sb) = root)" if "since E s s' {#} [] [] V" "err \<noteq> 0" for err s' V
    using that by (auto simp: rooted_def)
  show ?thesis
    unfolding mount_lower_def
    apply (rule step_kern_path [OF assms since_refl])
     apply (subst if_not_P, simp)
     apply (rule step_let, rule steps, rule assms, assumption, rule step_let, rule step_if)
      apply (rule step_bind_after, rule step_out_free [OF assms], erule since_set_super(1))
      apply (rule step_done, rule case_prodI, erule bad, simp)
     apply (rule step_let, rule step_read, rule step_let)
     apply (rule steps, rule assms, rule since_set_super(2), erule since_set_super(1))
     apply (rule step_set_lower_super, assumption, rule step_store(3), assumption)
     apply (rule make_root_rooted [OF assms], simp, simp, simp)
    apply (subst if_P, simp, rule step_done, rule case_prodI, erule bad, assumption)
    done
qed

subsection \<open>The whole mount\<close>

text \<open>Parsing the options and starting the log hold nothing and leave the private data alone.\<close>

definition same_account :: "'k vfs \<Rightarrow> 'k vfs \<Rightarrow> bool" where
  "same_account s s' \<longleftrightarrow> pins s' = pins s \<and> actives s' = actives s \<and> own s' = own s"

lemma same_account_trans: "same_account s s' \<Longrightarrow> same_account s' s'' \<Longrightarrow> same_account s s''"
  by (simp add: same_account_def)

lemma alloc_account: "invoke E ps (Ref (R_alloc n)) s = Some (a, s') \<Longrightarrow> same_account s s'"
  by (auto simp: same_account_def invoke_def Let_def pins_def actives_def own_def split: if_splits)

lemma parse_loop_keeps:
  assumes "\<And>n s a s'. invoke E [] (Ref (R_alloc n)) s = Some (a, s') \<Longrightarrow> P s \<Longrightarrow> P s'"
  shows "parse_loop E mt opts t s = Some (t', s') \<Longrightarrow> P s \<Longrightarrow> P s'"
  using assms
proof (induction E mt opts t s rule: parse_loop.induct)
  case (1 E mt t s)
  then show ?case by simp
next
  case (2 E mt x t s)
  obtain p rest where p: "strsep x = (p, rest)" by fastforce
  consider "p = []" | "p \<noteq> []" "mt p = None" | arg where "p \<noteq> []" "mt p = Some arg" by (cases "mt p") auto
  then show ?case
  proof cases
    case 1
    then show ?thesis using "2.IH"(1) [OF p [symmetric] refl] "2.prems" by (simp add: p)
  next
    case 2
    then show ?thesis using "2.IH"(2) [OF p [symmetric] refl] "2.prems" by (simp add: p)
  next
    case 3
    then obtain a s1 where a: "invoke E [] (Ref (R_alloc (length arg + 1))) s = Some (a, s1)" "a \<noteq> 0"
      using "2.prems"(1) by (auto simp: p split: option.splits if_splits)
    then have "parse_loop E mt rest (t\<lparr>filename := Some arg, opt_err := 0\<rparr>) s1 = Some (t', s')"
      using "2.prems"(1) 3 by (simp add: p)
    from "2.IH"(3) [OF p [symmetric] refl 3 a(1) refl a(2) this "2.prems"(3) [OF a(1) "2.prems"(2)] "2.prems"(3)]
    show ?thesis .
  qed
qed

lemma parse_keeps:
  assumes "\<And>n s a s'. invoke E [] (Ref (R_alloc n)) s = Some (a, s') \<Longrightarrow> P s \<Longrightarrow> P s'"
    and "trfs_parse_options E mt opts s = Some (r, s')" and "P s"
  shows "P s'"
proof -
  obtain a s1 where a: "invoke E [] (Ref (R_alloc SIZE_options)) s = Some (a, s1)"
    "s' = s1 \<or> (\<exists>t t'. parse_loop E mt opts t s1 = Some (t', s'))"
    using assms(2) by (auto simp: trfs_parse_options_def bind_eq_Some_conv Let_def split: if_splits)
  from assms(1) [OF a(1) assms(3)] a(2) show "P s'" using parse_loop_keeps [of E P] assms(1) by blast
qed

lemma parse_account: "trfs_parse_options E mt opts s = Some (r, s') \<Longrightarrow> same_account s s'"
  by (rule parse_keeps [where P = "same_account s"])
    (auto intro: same_account_trans alloc_account simp: same_account_def [of s s])

lemma parse_log:
  assumes "trfs_parse_options E mt opts s = Some (r, s')"
  shows "klg s' = klg s \<and> traced s' = traced s"
  by (rule parse_keeps [OF _ assms]) (auto simp: traced_def dest: invoke_fields(8,12))

lemma log_account:
  "same_account s (s\<lparr>klg := l\<rparr>)" "same_account s (s\<lparr>klg := l, tld := d\<rparr>)"
  by (simp_all add: same_account_def pins_def actives_def own_def)

lemma step_case: "(\<And>a b. p = (a, b) \<Longrightarrow> after (f a b) Q) \<Longrightarrow> after (case p of (a, b) \<Rightarrow> f a b) Q"
  by (cases p) simp

lemma start_log_account:
  "after (start_log C name m) (\<lambda>(r, m'). r \<noteq> Some 0 \<and> same_account (vs m) (vs m'))"
  unfolding start_log_def
  by (rule flow after_bindI step_case case_prodI conjI | (simp add: log_account; fail))+

lemma exit_account: "after (trfs_exit C frame m) (\<lambda>m'. same_account (vs m) (vs m') \<and> tld (vs m') = None)"
  unfolding trfs_exit_def
  by (rule flow after_bindI step_case conjI | (simp add: log_account; fail))+

text \<open>So a mount fails early, or is the mount of the lower directory from a state with the same account.\<close>

lemma mount_cases:
  assumes "trfs_mount C sb dev raw m = Some (err, m')"
  obtains (early) "err \<noteq> 0" "same_account (vs m) (vs m')"
    | (lower) s path t_op where "same_account (vs m) s" "mount_lower (env0 C) sb path t_op s = Some (err, vs m')"
proof (cases dev)
  case None
  then show ?thesis using assms by (intro early) (auto simp: trfs_mount_def trfs_read_super_def same_account_def)
next
  case (Some path)
  then obtain t_op opts s where s: "trfs_parse_options (env0 C) (mtoken C) raw (vs m) = Some ((t_op, opts), s)"
    using assms by (auto simp: trfs_mount_def trfs_read_super_def bind_eq_Some_conv)
  note acc = parse_account [OF s]
  show ?thesis
  proof (cases "t_op = 0 \<or> opt_err opts \<noteq> 0 \<and> raw \<noteq> None")
    case True
    then show ?thesis
      using assms acc by (intro early) (auto simp: trfs_mount_def trfs_read_super_def Some s Let_def split: if_splits)
  next
    case False
    then obtain stop m1 where m1: "start_log C (filename opts) (m\<lparr>vs := s\<rparr>) = Some (stop, m1)"
      using assms by (auto simp: trfs_mount_def trfs_read_super_def Some s bind_eq_Some_conv)
    from afterD [OF start_log_account m1] acc have acc1: "same_account (vs m) (vs m1)"
      by (simp add: same_account_def)
    show ?thesis
    proof (cases stop)
      case None
      then show ?thesis
        using assms False by (intro lower [OF acc1, of path t_op])
          (auto simp: trfs_mount_def trfs_read_super_def Some s m1 bind_eq_Some_conv)
    next
      case (Some e)
      have "e \<noteq> 0" using afterD [OF start_log_account m1] Some by simp
      with Some show ?thesis
        using assms False acc1 by (intro early)
          (auto simp: trfs_mount_def trfs_read_super_def \<open>dev = Some path\<close> s m1)
    qed
  qed
qed

subsection \<open>The log of a mount\<close>

text \<open>The trace file is opened with \<open>O_TRUNC\<close>, so it is empty.\<close>

definition fresh_files :: "'k menv \<Rightarrow> bool" where
  "fresh_files C \<longleftrightarrow> (\<forall>nm f. fopen C nm = FOpen f \<longrightarrow> f_data f = [])"

text \<open>A log whose thread has not run yet: what \<open>log_start_inv\<close> asks for.\<close>

definition log_ready :: "klog \<Rightarrow> klog \<Rightarrow> kfile \<Rightarrow> bool" where
  "log_ready l l1 f \<longleftrightarrow> trfs_create_log_q mq_boot = Some (0, mq l1) \<and> heap l1 = heap l \<and> next_id l1 = next_id l \<and>
     tfile (tlw l1) = FOpen (f\<lparr>kfile.f_pos := 0\<rparr>) \<and> f_writable f"

definition all_on :: "trfs_log_driver \<Rightarrow> bool" where
  "all_on drv \<longleftrightarrow> (\<forall>c. bit (bitmap drv) (call_bit c))"

lemma start_log_ready:
  assumes "start_log C name m = Some (None, m1)" and "mq (klg (vs m)) = mq_boot"
  obtains nm f drv where "fopen C nm = FOpen f" and "log_ready (klg (vs m)) (klg (vs m1)) f"
    and "tld (vs m1) = Some drv" and "all_on drv" and "traced (vs m1) = traced (vs m)"
proof -
  obtain q where q: "trfs_create_log_q mq_boot = Some (0, q)" using create_log_q_boot by blast
  have "bit (NOT 0 :: u32) (call_bit c)" for c using call_bit_lt [of c] by (simp add: bit_simps)
  then show ?thesis
    using assms
    by (auto simp: start_log_def q bind_eq_Some_conv Let_def trfs_log_write_init_def trfs_file_verify_def log_ready_def
        all_on_def trfs_kthread_create_def trfs_log_driver_init_def traced_def
        split: option.splits filp.splits if_splits prod.splits intro!: that)
qed

lemma mount_log_ready:
  assumes "stable (env0 C)" and "trfs_mount C sb dev raw m = Some (0, m1)" and "mq (klg (vs m)) = mq_boot"
  obtains nm f drv where "fopen C nm = FOpen f" and "log_ready (klg (vs m)) (klg (vs m1)) f"
    and "tld (vs m1) = Some drv" and "all_on drv" and "traced (vs m1) = traced (vs m)"
proof -
  obtain path t_op opts s m2 where run: "trfs_parse_options (env0 C) (mtoken C) raw (vs m) = Some ((t_op, opts), s)"
    "start_log C (filename opts) (m\<lparr>vs := s\<rparr>) = Some (None, m2)"
    "mount_lower (env0 C) sb path t_op (vs m2) = Some (0, vs m1)"
    using assms(2) afterD [OF start_log_account]
    by (fastforce simp: trfs_mount_def trfs_read_super_def bind_eq_Some_conv Let_def split: option.splits if_splits)
  have log: "klg s = klg (vs m)" "traced s = traced (vs m)" using parse_log [OF run(1)] by simp_all
  have "tld (vs m1) = tld (vs m2) \<and> traced (vs m1) = traced (vs m2) \<and> klg (vs m1) = klg (vs m2)"
    using afterD [OF mount_rooted [OF assms(1)] run(3)] by (auto simp: rooted_def since_def)
  with start_log_ready [OF run(2)] assms(3) log that show ?thesis by simp metis
qed

text \<open>Once its thread has started the log is sound and empty.\<close>

lemma mounted_log:
  assumes "stable (env0 C)" and "trfs_mount C sb dev raw m = Some (0, m1)" and "mq (klg (vs m)) = mq_boot"
    and "heap_wf (heap (klg (vs m)))" and "fresh_files C"
    and "kmal (env0 C) (requests (heap (klg (vs m)))) 4096 = Some pg" and "length pg = 4096"
  defines "l \<equiv> klg (thread_started C m1)"
  shows "log_inv l" "Log_Write.trace l = []" "log_queue l = []" "next_id l = next_id (klg (vs m))" "pc (thr l) = Head"
    "traced (thread_started C m1) = traced (vs m)" "\<exists>drv. tld (thread_started C m1) = Some drv \<and> all_on drv"
proof -
  obtain nm f drv where f: "fopen C nm = FOpen f" "log_ready (klg (vs m)) (klg (vs m1)) f"
    and drv: "tld (vs m1) = Some drv" "all_on drv" "traced (vs m1) = traced (vs m)"
    using mount_log_ready [OF assms(1-3)] .
  have "log_q_ready (mq (klg (vs m1)))" "log_queue (klg (vs m1)) = []"
    using f(2) log_queue_created by (auto simp: log_ready_def log_queue_def)
  note start = log_start_inv [OF this, of "f\<lparr>kfile.f_pos := 0\<rparr>" "kmal (env0 C)" pg]
  show "log_inv l" "Log_Write.trace l = []" "log_queue l = []" "pc (thr l) = Head"
    using start f assms(4-7) by (simp_all add: l_def thread_started_def log_ready_def fresh_files_def)
  show "next_id l = next_id (klg (vs m))"
    using f(2) by (simp add: l_def thread_started_def log_write_start_def log_ready_def case_prod_unfold Let_def)
  show "traced (thread_started C m1) = traced (vs m)" "\<exists>drv. tld (thread_started C m1) = Some drv \<and> all_on drv" using drv by (auto simp: thread_started_def traced_def)
qed

subsection \<open>Unmounting\<close>

lemma pins_keeps:
  "invoke_void E ps c s = Some s' \<Longrightarrow> keeps c \<Longrightarrow>
   pins s' = pins s \<and> tld s' = tld s \<and> dinfos s' = dinfos s \<and> finfos s' = finfos s"
  by (auto simp: invoke_void_def pins_def keeps_def dest: invoke_fields(2,4,7,12))

lemma put_super_account:
  assumes "s_fs_info (vs m) sb \<noteq> 0" and "trfs_lower_super sb (vs m) = Some lsb"
    and "actives (vs m) = Some (add_mset (Sb_active lsb) A)"
  shows "after (trfs_put_super C frame sb m) (\<lambda>m'. pins (vs m') = pins (vs m) \<and> actives (vs m') = Some A \<and>
    s_fs_info (vs m') sb = 0 \<and> tld (vs m') = None \<and> dinfos (vs m') = dinfos (vs m) \<and> finfos (vs m') = finfos (vs m))"
proof -
  have "pins (vs m') = pins (vs m) \<and> actives (vs m') = Some A \<and> s_fs_info (vs m') sb = 0 \<and> tld (vs m') = None \<and>
      dinfos (vs m') = dinfos (vs m) \<and> finfos (vs m') = finfos (vs m)"
    if run: "trfs_put_super C frame sb m = Some m'" for m'
  proof -
    obtain m1 where m1: "trfs_exit C frame m = Some m1" using run by (auto simp: trfs_put_super_def bind_eq_Some_conv)
    from afterD [OF exit_account m1] have acc: "same_account (vs m) (vs m1)" "tld (vs m1) = None" by auto
    then have nz: "s_fs_info (vs m1) sb \<noteq> 0" using assms(1) by (simp add: same_account_def own_def)
    obtain l s1 s2 s3 where s: "trfs_lower_super sb (vs m1) = Some l" "trfs_set_lower_super sb 0 (vs m1) = Some s1"
      "invoke_void (env0 C) [l] (Ref (R_s_active_dec l)) s1 = Some s2"
      "invoke_void (env0 C) [] (Ref (R_free (s_fs_info s2 sb))) s2 = Some s3"
      "vs m' = s3\<lparr>sinfos := (sinfos s3)(s_fs_info s3 sb := None), s_fs_info := (s_fs_info s3)(sb := 0)\<rparr>"
      using run m1 nz by (auto simp: trfs_put_super_def bind_eq_Some_conv Let_def)
    have l: "l = lsb" using s(1) acc(1) assms(2)
      by (auto simp: same_account_def own_def trfs_lower_super_def TRFS_SB_def split: if_splits)
    have s1: "actives s1 = actives (vs m1)" "pins s1 = pins (vs m1)" "tld s1 = tld (vs m1)"
      "dinfos s1 = dinfos (vs m1)" "finfos s1 = finfos (vs m1)"
      using s(2) by (auto simp: trfs_set_lower_super_def actives_def pins_def)
    then have start: "sbs (Some (add_mset (Sb_active l) A)) (s_fs_info s1) (sinfos s1) s1"
      using acc(1) assms(3) by (simp add: sbs_def same_account_def l)
    have "after (Option.bind (invoke_void (env0 C) [l] (Ref (R_s_active_dec l)) s1)
        (\<lambda>s. invoke_void (env0 C) [] (Ref (R_free (s_fs_info s sb))) s)) (\<lambda>s. actives s = Some A)"
      by (rule sup_active(2) [OF start], simp, rule sup_void_last, assumption) (simp_all add: sbs_def)
    then have "actives s3 = Some A" using s(3,4) by simp
    then have "actives (vs m') = Some A" by (simp add: s(5) actives_def)
    moreover have "pins s3 = pins s1" using pins_keeps [OF s(3)] pins_keeps [OF s(4)] by simp
    then have "pins (vs m') = pins (vs m)" using s1(2) acc(1) by (simp add: s(5) pins_def same_account_def)
    moreover have "tld s3 = tld s1 \<and> dinfos s3 = dinfos s1 \<and> finfos s3 = finfos s1"
      using pins_keeps [OF s(3)] pins_keeps [OF s(4)] by simp
    then have "tld (vs m') = None" "dinfos (vs m') = dinfos (vs m)" "finfos (vs m') = finfos (vs m)"
      using s1(3-5) acc by (simp_all add: s(5) same_account_def own_def)
    ultimately show ?thesis by (simp add: s(5))
  qed
  then show ?thesis by (simp add: after_def)
qed

subsection \<open>The other operations\<close>

lemma performed_void:
  "since E s0 s' M D T W \<Longrightarrow>
   ((\<lambda>(r, s'). \<exists>cs. cs = [] \<and> since E s0 s' M D (T @ cs) W) \<circ> Pair r) s'"
  by simp

lemma after_tail: "after (Option.bind x (case_prod (\<lambda>r s. Some (r, s)))) Q \<Longrightarrow> after x Q"
  by (cases x) auto

lemma super_void_perform:
  assumes "stable E"
  shows "performs E (\<lambda>r cs. cs = []) (super_call E (S_evict_inode i))"
    "performs E (\<lambda>r cs. cs = []) (super_call E (S_umount_begin sb))"
    "performs E (\<lambda>r cs. cs = []) (super_call E (S_destroy_inode i))"
    "performs E (\<lambda>r cs. cs = []) (super_call E (S_init_once obj))"
  unfolding super_call.simps comp_def [of "map_option _"] trfs_evict_inode_def trfs_umount_begin_def
    trfs_destroy_inode_def init_once_def
  by (rule performsI, unfold after_map, (rule steps assms performed_void refl | assumption)+)+

lemma super_perform:
  assumes "stable E"
  shows "performs E (\<lambda>r cs. cs = []) (super_call E (S_statfs magic filled d))"
    "performs E (\<lambda>r cs. cs = []) (super_call E S_alloc_inode)"
    "performs E (\<lambda>r cs. cs = []) (super_call E (S_get_inode sb ino generation))"
proof -
  show "performs E (\<lambda>r cs. cs = []) (super_call E (S_statfs magic filled d))"
    unfolding super_call.simps comp_def [of "map_option _"] trfs_statfs_def
    by (rule performsI, unfold after_map) (rule steps assms performed_fst refl | assumption)+
  show "performs E (\<lambda>r cs. cs = []) (super_call E S_alloc_inode)"
    unfolding super_call.simps trfs_alloc_inode_def by (rule performsI steps assms performed0 refl | assumption)+
  show "performs E (\<lambda>r cs. cs = []) (super_call E (S_get_inode sb ino generation))"
    unfolding super_call.simps trfs_nfs_get_inode_def
    by (rule performsI steps assms performed0 refl after_tail [where x = "trfs_iget E sb l s" for l s] | assumption)+
qed

interpretation super_use: vfs_operation "\<lambda>E. super_call E q" "\<lambda>r cs. cs = []" for q
  by unfold_locales (cases q; simp only: super_void_perform super_perform)

text \<open>A remount accepts the flags with no bit set but those of \<open>MS_RDONLY\<close>, \<open>MS_MANDLOCK\<close> and \<open>MS_SILENT\<close>.\<close>

lemma and_not_zero_iff: "(w :: u32) AND NOT m = 0 \<longleftrightarrow> (\<forall>n < 32. bit w n \<longrightarrow> bit m n)"
  by (auto simp: bit_eq_iff [of "w AND NOT m"] bit_and_iff bit_not_iff)

lemma remount_accepts: "trfs_remount_fs flags = 0 \<longleftrightarrow> (\<forall>n < 32. bit flags n \<longrightarrow> n = 0 \<or> n = 6 \<or> n = 15)"
proof -
  have "bit (1 OR 64 OR 32768 :: u32) n \<longleftrightarrow> n = 0 \<or> n = 6 \<or> n = 15" if "n < 32" for n
  proof -
    have "(1 :: u32) = 2 ^ 0" "(64 :: u32) = 2 ^ 6" "(32768 :: u32) = 2 ^ 15" by simp_all
    then show ?thesis using that by (simp only: bit_or_iff bit_exp_iff) (auto simp: bit_1_iff)
  qed
  then have "flags AND NOT (1 OR 64 OR 32768) = 0 \<longleftrightarrow> (\<forall>n < 32. bit flags n \<longrightarrow> n = 0 \<or> n = 6 \<or> n = 15)"
    unfolding and_not_zero_iff by blast
  then show ?thesis by (simp only: trfs_remount_fs_def) simp
qed

text \<open>Loading the module either registers the file system with its two caches or leaves nothing behind; unloading removes both.\<close>

lemma module_loads:
  assumes "caches m = []" and "trfs_inode_cachep m = NULL" and "trfs_dentry_cachep m = NULL" and "\<not> registered m"
    and "init_trfs_fs icache dcache reg m = Some (err, m')"
  shows "if err = 0 then registered m' \<and> caches m' = [dcache, icache] \<and> icache \<noteq> NULL \<and> dcache \<noteq> NULL
    else \<not> registered m' \<and> caches m' = []"
  using assms
  by (auto simp: init_trfs_fs_def trfs_init_inode_cache_def trfs_init_dentry_cache_def trfs_destroy_inode_cache_def
      trfs_destroy_dentry_cache_def kmem_cache_destroy_def bind_eq_Some_conv Let_def split: if_splits)

lemma module_unloads:
  assumes "caches m = [dcache, icache]" and "trfs_inode_cachep m = icache" and "trfs_dentry_cachep m = dcache"
    and "icache \<noteq> NULL" and "dcache \<noteq> NULL" and "icache \<noteq> dcache"
  shows "\<exists>m'. exit_trfs_fs m = Some m' \<and> caches m' = [] \<and> \<not> registered m'"
  using assms by (auto simp: exit_trfs_fs_def trfs_destroy_inode_cache_def trfs_destroy_dentry_cache_def
      kmem_cache_destroy_def)

subsection \<open>A concrete mount\<close>

definition sample_token :: "bytes \<Rightarrow> bytes option" where
  "sample_token p = (if take 6 p = [116, 102, 105, 108, 101, 61] then Some (drop 6 p) else None)"

definition sample_menv :: "unit menv" where
  "sample_menv = \<lparr>env0 = sample_env, mtoken = sample_token, fopen = (\<lambda>_. FOpen sample_file),
     kcreate = (\<lambda>_. 5), kstop = (\<lambda>_. 0), drv_alloc = Some \<lparr>drv_pid = 0, bitmap = 0\<rparr>, cdev_ok = True,
     cdev_region = Inr 240, cdev_added = 0, vwrite = sample_write\<rparr>"

definition idle_log :: klog where
  "idle_log = \<lparr>heap = \<lparr>blocks = Map.empty, requests = 0\<rparr>, mq = mq_boot,
     tlw = \<lparr>tfile_name = None, tfile = FNull, page = NULL, page_size = 0, locks_ready = False\<rparr>,
     next_id = 1, thr = \<lparr>pc = Head, buf = 0, len = 0\<rparr>\<rparr>"

definition sample_msys :: "unit msys" where
  "sample_msys = \<lparr>vs = sample_vfs\<lparr>klg := idle_log, tld := None\<rparr>, cdev = \<lparr>Major = 0, region_held = False, cdev_live = False\<rparr>,
     trfs_kthread = NULL, woken = [], closed = []\<rparr>"

lemma sample_msys_account:
  "pins (vs sample_msys) = Some {#}" "actives (vs sample_msys) = Some {#}" "dinfos (vs sample_msys) 0 = None"
  by (simp_all add: sample_msys_def pins_def actives_def sample_vfs_def)

lemmas mount_simps = trfs_mount_def trfs_read_super_def trfs_parse_options_def strsep_def start_log_def
  mount_lower_def make_root_def link_root_def trfs_set_lower_super_def set_super_def interpose_simps
  trfs_log_write_init_def trfs_file_verify_def trfs_log_driver_init_def trfs_kthread_create_def trfs_ioctl_init_def
  sample_msys_def sample_menv_def sample_token_def idle_log_def sample_file_def

text \<open>A mount whose root dentry cannot be made: \<open>d_make_root\<close> has consumed the inode, which is then put again.\<close>

definition rootless_menv :: "unit menv" where
  "rootless_menv = sample_menv\<lparr>env0 := sample_env\<lparr>kern := (\<lambda>c k.
     case c of Ref (R_d_make_root i) \<Rightarrow> (0, k) | _ \<Rightarrow> sample_kern c k)\<rparr>\<rparr>"

lemma rootless_stable: "stable (env0 rootless_menv)"
  by (simp add: stable_def rootless_menv_def sample_kern_def split: kcall.split ref_call.split)

lemma failed_root_releases_twice:
  "\<exists>m1. trfs_mount rootless_menv 52 (Some [47]) (Some [116, 102, 105, 108, 101, 61, 97]) sample_msys = Some (- ENOMEM, m1) \<and>
     held (vs m1) = None"
proof -
  obtain q where q: "trfs_create_log_q mq_boot = Some (0, q)" using create_log_q_boot by blast
  show ?thesis
    by (simp add: rootless_menv_def mount_simps out_iput_def out_sput_def out_free_def q run_simps sample_simps
        held_def path_refs_def)
qed

text \<open>Unmounting flushes the page, but what is still in the queue stays there.\<close>

lemma unmount_leaves_the_queue:
  assumes "trfs_exit C frame m = Some m'" and "trfs_kthread m = NULL"
  shows "mq (klg (vs m')) = mq (klg (vs m))"
  using assms
  by (auto simp: trfs_exit_def bind_eq_Some_conv Let_def trfs_log_write_close_def trfs_log_write_flush_def
      write_page_def trfs_delete_log_q_def close_tx_queues_id split: if_splits option.splits)

section \<open>Properties\<close>

text \<open>C39: The options of a mount mean what the list of its comma-separated pieces says: empty pieces are
  skipped, the trace file is the argument of the last \<open>tfile=\<close>, and the parse fails exactly when
  the last of the other pieces is not such an option, whatever came before.\<close>

theorem options_are_parsed:
  assumes "plentiful E"
  shows "\<exists>a s'. a \<noteq> 0 \<and> trfs_parse_options E mt (Some options) s = Some ((a, options_meaning mt options), s')"
proof -
  obtain a s1 where a: "invoke E [] (Ref (R_alloc SIZE_options)) s = Some (a, s1)" "a \<noteq> 0"
    using assms by (simp add: invoke_def Let_def plentiful_def)
  obtain s' where "parse_loop E mt (Some options) \<lparr>filename = None, opt_err = 0\<rparr> s1 =
      Some (foldl take_option \<lparr>filename = None, opt_err = 0\<rparr> (the_options mt options), s')"
    using parse_loop_fold [OF assms, of mt "Some options" "\<lparr>filename = None, opt_err = 0\<rparr>" s1] by auto
  with a show ?thesis
    by (simp add: trfs_parse_options_def Let_def foldl_take_option options_meaning_def)
qed

theorem options_are_parsed_witness:
  "\<exists>a s'. trfs_parse_options sample_env sample_token
      (Some [120, 44, 44, 116, 102, 105, 108, 101, 61, 97]) sample_vfs =
    Some ((a, \<lparr>filename = Some [97], opt_err = 0\<rparr>), s')"
proof -
  have "plentiful sample_env" by (simp add: plentiful_def sample_env_def sample_kern_def)
  from options_are_parsed [OF this, of sample_token "[120, 44, 44, 116, 102, 105, 108, 101, 61, 97]" sample_vfs]
  show ?thesis by (simp add: options_meaning_def the_options_def sample_token_def Let_def) blast
qed



end
