(* ===== verification/Pipeline.thy ===== *)
theory Pipeline
  imports Log_Ops
begin

section \<open>The pipeline: callers, queue, thread and file\<close>

text \<open>
  The components of the log put together. \<open>pipe\<close> is the step relation of the running system:
  in any order, a file-system operation is traced (theory \<open>Log_Ops\<close>) or the logging thread
  takes a step (theory \<open>Log_Write\<close>). The properties say what happens to the bytes of the trace
  under every such interleaving, when the queue is full, when the thread drains the queue, and
  when the record with the number 127 passes through.
\<close>

subsection \<open>The step relation\<close>

text \<open>
  The whole pipeline: callers tracing operations and the thread writing them out take turns in
  any order. The relation collects the calls whose records were queued, with their numbers.
\<close>

inductive pipe ::
  "allocator \<Rightarrow> vfs_write \<Rightarrow> int \<Rightarrow> trfs_log_driver \<Rightarrow> klog \<Rightarrow> (trace_call \<times> u32) list \<Rightarrow> klog \<Rightarrow> bool"
  for km vw pid this s0 where
  start: "pipe km vw pid this s0 [] s0"
| call: "pipe km vw pid this s0 cs st \<Longrightarrow> call_ok this c \<Longrightarrow> next_id st + 1 \<noteq> 127 \<Longrightarrow>
    log_ops km pid this c st = Some st' \<Longrightarrow>
    pipe km vw pid this s0 (if logged km st c then cs @ [(c, next_id st + 1)] else cs) st'"
| writer: "pipe km vw pid this s0 cs st \<Longrightarrow> log_write_step km vw False st = Some st' \<Longrightarrow>
    pipe km vw pid this s0 cs st'"

section \<open>Lemmas\<close>

subsection \<open>The pipeline\<close>

lemma writer_step_inv:
  assumes inv: "log_inv st" and "alloc_sized km" and "full_write vw"
    and st': "log_write_step km vw False st = Some st'"
  shows "log_inv st' \<and> trace st' = trace st"
proof (cases "pc (thr st)")
  case Head
  with head_step_trace [OF inv Head assms(2), of vw] st' show ?thesis by auto
next
  case (Waiting p)
  show ?thesis
  proof (cases "log_queue st")
    case Nil
    with blocked_step [OF inv Waiting Nil, of km vw] inv st' show ?thesis by auto
  next
    case (Cons m ms)
    with wait_step_trace [OF inv Waiting Cons assms(3), of km] st' show ?thesis by auto
  qed
next
  case (Exited e)
  with inv show ?thesis by (simp add: log_inv_def)
qed

lemma pipe_conserves:
  assumes "pipe km vw pid this s0 cs st" and "log_inv s0" and "alloc_sized km" and "full_write vw"
  shows "log_inv st \<and> (\<exists>recs. list_all2 (\<lambda>(c, rid). is_record pid c rid) cs recs \<and>
    trace st = trace s0 @ concat recs)"
  using assms
proof (induction rule: pipe.induct)
  case start
  then show ?case by (intro conjI exI [of _ "[]"]) simp_all
next
  case (call cs st c st')
  then obtain recs where recs: "log_inv st" "list_all2 (\<lambda>(c, rid). is_record pid c rid) cs recs"
    "trace st = trace s0 @ concat recs" by blast
  note step = log_ops_inv [OF recs(1) call.hyps(2,3) call.prems(2) call.hyps(4)]
  show ?case
  proof (cases "logged km st c")
    case True
    with step(2) obtain rec where rec: "is_record pid c (next_id st + 1) rec" "trace st' = trace st @ rec"
      by auto
    with recs have "list_all2 (\<lambda>(c, rid). is_record pid c rid) (cs @ [(c, next_id st + 1)]) (recs @ [rec])"
      by (simp add: list_all2_appendI)
    with True step(1) rec recs show ?thesis by (intro conjI exI [of _ "recs @ [rec]"]) simp_all
  next
    case False
    with step recs show ?thesis by auto
  qed
next
  case (writer cs st st')
  with writer_step_inv [OF _ writer.prems(2,3) writer.hyps(2)] show ?case by auto
qed

text \<open>Every fill level of the queue is reachable by tracing calls.\<close>

lemma filled_log:
  "n \<le> TRFS_MQ_MAX_NO_OF_MSGS \<Longrightarrow>
   \<exists>st. log_inv st \<and> length (log_queue st) = n \<and> next_id st = 127 + of_nat n"
proof (induction n)
  case 0
  have "log_inv (sample_log\<lparr>next_id := 127\<rparr>)"
    using sample_log_inv by (simp add: log_inv_def owned_def thread_ptrs_def log_queue_def page_ok_def file_ok_def)
  moreover have "log_queue (sample_log\<lparr>next_id := 127\<rparr>) = []"
    using sample_log_facts by (simp add: log_queue_def)
  ultimately show ?case by (intro exI [of _ "sample_log\<lparr>next_id := 127\<rparr>"]) simp
next
  case (Suc n)
  then obtain st where st: "log_inv st" "length (log_queue st) = n" "next_id st = 127 + of_nat n"
    by auto
  have "unat (of_nat (Suc n) :: u32) = Suc n" using Suc.prems by (simp add: unat_of_nat del: of_nat_Suc)
  then have "(of_nat (Suc n) :: u32) \<noteq> 0" by (metis nat.distinct(1) unat_0)
  then have "next_id st + 1 \<noteq> 127" by (simp add: st(3) add.commute add.left_commute)
  moreover have "logged sample_alloc st sample_call"
    using st(2) Suc.prems by (simp add: logged_def sample_alloc_def)
  ultimately obtain st' rec where "log_inv st'" "next_id st' = next_id st + 1"
    "queued st' = queued st @ [rec]"
    using log_ops_queued [OF st(1) sample_call_ok _ _ sample_alloc_sized, of 7] by blast
  moreover have "length (log_queue st') = Suc n"
    using \<open>queued st' = queued st @ [rec]\<close> st(2)
    by (metis (no_types) length_append_singleton length_map queued_def)
  ultimately show ?case using st(3) by (intro exI [of _ st']) (simp add: add.commute)
qed

text \<open>The record numbered 127 in the queue of an otherwise idle log.\<close>

lemma queue_127:
  assumes inv: "log_inv st" and idle: "log_queue st = []" "pc (thr st) = Head" "next_id st = 126"
    and c: "call_ok this c" and g: "km (requests (heap st)) (call_size c) = Some g"
      "length g = call_size c"
  shows "\<exists>st' rec. log_ops km pid this c st = Some st' \<and> log_q_ready (mq st') \<and>
    log_queue st' = [\<lparr>msg_pri = 0, msg_len = int (call_size c), msg_data = Suc (requests (heap st))\<rparr>] \<and>
    is_record pid c 127 rec \<and> heap st' = heap (with_record rec st) \<and> tlw st' = tlw st \<and> thr st' = thr st"
proof -
  from c have c': "call_wf c" "call_fits c" "bit (bitmap this) (call_bit c)" "call_size c < 2 ^ 31"
    by (simp_all add: call_ok_def call_wf_def)
  obtain rec where rec: "is_record pid c (next_id st + 1) rec"
    "log_ops km pid this c st =
      TRFS_WRITE (Suc (requests (heap st))) (int (call_size c)) (with_record rec st)"
    using log_ops_built [of c this km st g pid] c' g by blast
  have q: "log_queue (with_record rec st) = []" using with_record_inv(4) [OF inv] idle(1) by simp
  have "log_q_ready (mq (with_record rec st))" "0 < call_size c"
    using inv call_size_pos [of c] by (simp_all add: log_inv_def)
  then obtain mq' where "log_ops km pid this c st = Some ((with_record rec st)\<lparr>mq := mq'\<rparr>)"
    "log_q_ready mq'" "content (queue_of TRFS_LOG_QID mq') =
      [\<lparr>msg_pri = 0, msg_len = int (call_size c), msg_data = Suc (requests (heap st))\<rparr>]"
    using TRFS_WRITE_room [of "with_record rec st" "Suc (requests (heap st))" "call_size c"]
      rec(2) c'(4) by (auto simp: q)
  then show ?thesis
    using rec(1) idle(3)
    by (intro exI [of _ "(with_record rec st)\<lparr>mq := mq'\<rparr>"] exI [of _ rec]) (simp add: log_queue_def)
qed

text \<open>Draining the queue and flushing the page.\<close>

lemma drain_and_flush:
  assumes "log_inv st" and "alloc_sized km" and "full_write vw"
  shows "\<exists>st' st''. drain km vw (2 * length (log_queue st) + 1) st = Some st' \<and> log_inv st' \<and>
    log_queue st' = [] \<and> trfs_log_write_flush vw st' = Some st'' \<and> written st'' = trace st"
proof -
  have "2 * length (log_queue st) + (if pc (thr st) = Head then 1 else 0) \<le> 2 * length (log_queue st) + 1"
    by simp
  from drain_enough [OF assms this] obtain st' where
    st': "drain km vw (2 * length (log_queue st) + 1) st = Some st'" "log_inv st'"
    "trace st' = trace st" "log_queue st' = []" by blast
  moreover obtain st'' where "trfs_log_write_flush vw st' = Some st''"
    "written st'' = written st' @ paged st'"
    using flush_appends [OF assms(3), of st'] st'(2) by (auto simp: log_inv_def)
  ultimately show ?thesis by (auto simp: trace_def queued_def simp del: drain.simps)
qed

text \<open>A run that traces one call.\<close>

lemma sample_run:
  "\<exists>st. pipe sample_alloc sample_write 7 sample_driver sample_log [(sample_call, 2)] st"
proof -
  obtain st where st: "log_ops sample_alloc 7 sample_driver sample_call sample_log = Some st"
    using log_ops_queued [OF sample_log_inv sample_call_ok, of sample_alloc 7] sample_alloc_sized
    by (auto simp: sample_log_facts logged_def sample_alloc_def)
  have "pipe sample_alloc sample_write 7 sample_driver sample_log [(sample_call, 2)] st"
    using pipe.call [OF pipe.start sample_call_ok _ st, of sample_write]
    by (simp add: sample_log_facts logged_def sample_alloc_def)
  then show ?thesis by blast
qed

section \<open>Properties\<close>



text \<open>C21: When the queue is full, a traced call still succeeds: its record is dropped, although the
  number is used up, and the block of the record stays allocated without anything pointing
  to it.\<close>

theorem full_queue_drops_and_leaks:
  assumes "log_inv st" and "call_ok this c" and "length (log_queue st) = TRFS_MQ_MAX_NO_OF_MSGS"
    and "km (requests (heap st)) (call_size c) = Some g" and "length g = call_size c"
  shows "\<exists>st' rec p. log_ops km pid this c st = Some st' \<and> is_record pid c (next_id st + 1) rec \<and>
    trace st' = trace st \<and> next_id st' = next_id st + 1 \<and>
    blocks (heap st) p = None \<and> blocks (heap st') p = Some rec \<and> p \<notin> set (owned st')"
proof -
  obtain rec where rec: "is_record pid c (next_id st + 1) rec"
    "log_ops km pid this c st = Some (with_record rec st)"
    using log_ops_dropped [of st this c km g pid] assms by blast
  let ?p = "Suc (requests (heap st))"
  have "?p \<notin> set (owned (with_record rec st))"
    using with_record_kept(1) [OF assms(1)] unfolding with_record_inv(5) [OF assms(1)] by blast
  moreover have "blocks (heap st) ?p = None" "blocks (heap (with_record rec st)) ?p = Some rec"
    using assms(1) by (auto simp: log_inv_def kmalloc_fresh with_record_def)
  moreover have "trace (with_record rec st) = trace st" by (rule with_record_inv [OF assms(1)])
  ultimately show ?thesis
    using rec by (intro exI [of _ "with_record rec st"] exI [of _ rec] exI [of _ ?p]) simp
qed

theorem full_queue_drops_and_leaks_witness:
  "\<exists>st st'. log_inv st \<and> log_ops sample_alloc 7 sample_driver sample_call st = Some st' \<and>
     trace st' = trace st \<and> next_id st' = next_id st + 1"
proof -
  obtain st where st: "log_inv st" "length (log_queue st) = 1024" using filled_log by blast
  from full_queue_drops_and_leaks [of st sample_driver sample_call sample_alloc
      "replicate (call_size sample_call) 0" 7] st sample_call_ok
  show ?thesis by (auto simp: sample_alloc_def)
qed

text \<open>C7: From any state in which the log is sound, the logging thread empties the queue within
  two steps per record and one more, and the flush that follows leaves in the file exactly what
  was in the file, the page and the queue before.\<close>

theorem drained_log_is_on_disk:
  assumes "log_inv st" and "alloc_sized km" and "full_write vw"
  shows "\<exists>st' st''. drain km vw (2 * length (log_queue st) + 1) st = Some st' \<and> log_inv st' \<and>
    log_queue st' = [] \<and> trfs_log_write_flush vw st' = Some st'' \<and> written st'' = trace st"
  using assms by (rule drain_and_flush)

theorem drained_log_is_on_disk_witness:
  "\<exists>st st' st''. length (log_queue st) = 3 \<and> drain sample_alloc sample_write 7 st = Some st' \<and>
     log_queue st' = [] \<and> trfs_log_write_flush sample_write st' = Some st'' \<and> written st'' = trace st"
proof -
  obtain st where "log_inv st" "length (log_queue st) = 3" using filled_log [of 3] by auto
  with drained_log_is_on_disk [OF _ sample_alloc_sized sample_full_write, of st]
  show ?thesis by (auto simp del: drain.simps)
qed

text \<open>C20: The thread takes the number of a record for its stop code. Starting from a sound, idle log
  whose last number is 126, tracing one more operation makes the thread free its page and return
  for good: the record is lost, and so are the bytes that were waiting in the page.\<close>

theorem record_127_stops_the_thread:
  assumes inv: "log_inv st" and "log_queue st = []" and "pc (thr st) = Head" and "next_id st = 126"
    and c: "call_ok this c" and g: "\<forall>n. \<exists>g. km (requests (heap st)) n = Some g \<and> length g = n"
    and km2: "km (Suc (requests (heap st))) 4 = Some g2"
  shows "\<exists>st1 st2. log_ops km pid this c st = Some st1 \<and> drain km vw 2 st1 = Some st2 \<and>
    pc (thr st2) = Exited 0 \<and> page (tlw st2) = NULL \<and> written st2 = written st \<and>
    (\<forall>n. drain km vw n st2 = Some st2)"
proof -
  let ?p = "Suc (requests (heap st))" and ?p2 = "Suc (Suc (requests (heap st)))"
  obtain gc where gc: "km (requests (heap st)) (call_size c) = Some gc" "length gc = call_size c"
    using g by blast
  obtain st1 rec where st1: "log_ops km pid this c st = Some st1" "log_q_ready (mq st1)"
    "log_queue st1 = [\<lparr>msg_pri = 0, msg_len = int (call_size c), msg_data = ?p\<rparr>]"
    "is_record pid c 127 rec" "heap st1 = heap (with_record rec st)" "tlw st1 = tlw st" "thr st1 = thr st"
    using queue_127 [of st this c km gc pid] assms(1-5) gc by blast
  define h where "h = (heap st1)\<lparr>requests := ?p2, blocks := (blocks (heap st1))(?p2 \<mapsto> g2)\<rparr>"
  define st1' where "st1' = st1\<lparr>heap := h, thr := (thr st)\<lparr>pc := Waiting ?p2\<rparr>\<rparr>"
  have head: "log_write_step km vw False st1 = Some st1'"
    using assms(3) km2 st1(5,7)
    by (simp add: log_write_step_def kmalloc_def st1'_def h_def with_record_def Let_def)
  have wf: "heap_wf (heap st)" and po: "page (tlw st) \<in> dom (blocks (heap st))"
    using inv by (auto simp: log_inv_def page_ok_def)
  then have pg: "page (tlw st) \<le> requests (heap st)" by (auto simp: heap_wf_def)
  have rec: "4 \<le> length rec" "sle_dec (take 4 rec) = 127"
    using st1(4) sle_dec_id [of 127] by (auto simp: is_record_def load_def split: if_splits)
  have "\<exists>st'. log_write_step km vw False st1' = Some st' \<and> pc (thr st') = Exited 0 \<and>
      page (tlw st') = NULL \<and> tfile (tlw st') = tfile (tlw st1') \<and> log_queue st' = [] \<and>
      (\<forall>n. drain km vw n st' = Some st')"
  proof (rule stop_step [where rec = rec and p = ?p2])
    show "log_queue st1' = \<lparr>msg_pri = 0, msg_len = int (call_size c), msg_data = ?p\<rparr> # []"
      using st1(3) by (simp add: st1'_def log_queue_def)
    show "heap_wf (heap st1')" using wf
      by (auto simp: heap_wf_def st1'_def h_def st1(5) with_record_def le_Suc_eq)
  qed (use st1 pg po rec c in \<open>auto simp: st1'_def h_def with_record_def call_ok_def int32_nat\<close>)
  then obtain st2 where st2: "log_write_step km vw False st1' = Some st2" "pc (thr st2) = Exited 0"
    "page (tlw st2) = NULL" "tfile (tlw st2) = tfile (tlw st1')" "\<forall>n. drain km vw n st2 = Some st2"
    by blast
  have "drain km vw 2 st1 = Some st2" using head st2(1) by (simp add: numeral_2_eq_2)
  moreover have "written st2 = written st" using st2(4) st1(6) by (simp add: written_def st1'_def)
  ultimately show ?thesis using st1(1) st2 by blast
qed

theorem record_127_stops_the_thread_witness:
  "\<exists>st1 st2. log_ops sample_alloc 7 sample_driver sample_call (sample_log\<lparr>next_id := 126\<rparr>) = Some st1 \<and>
     drain sample_alloc sample_write 2 st1 = Some st2 \<and> pc (thr st2) = Exited 0"
proof -
  have "log_inv (sample_log\<lparr>next_id := 126\<rparr>)"
    using sample_log_inv by (simp add: log_inv_def owned_def thread_ptrs_def log_queue_def page_ok_def file_ok_def)
  from record_127_stops_the_thread [OF this _ _ _ sample_call_ok, of sample_alloc _ 7 sample_write]
  show ?thesis using sample_log_facts by (fastforce simp: log_queue_def sample_alloc_def)
qed

end
