(* ===== verification/System.thy ===== *)
theory System
  imports Mount Pipeline "HOL-Library.Sublist"
begin

section \<open>The running file system\<close>

text \<open>
  The components put together. While the file system is mounted the kernel looks names up, lets
  dentries go, opens and closes files, makes requests on inodes, files, mapped memory and the
  superblock, lets inodes go, the
  logging thread takes its steps and the command sets the bitmap, all in any order: the step
  relation \<open>reach\<close>. Two things are shown of every run by rule induction. The references that are
  held are exactly those that the private data of the live dentries and of the open files stand
  for. And the trace consists of the records of traced calls, in their order, with increasing
  numbers; nothing is missing when nothing is switched off and memory does not run out.
\<close>

section \<open>Definitions\<close>

subsection \<open>The step relation\<close>

text \<open>
  What is assumed of the kernel in a step: a dentry that is looked up has no private data yet, a
  file that is opened is not open yet, and the block that the allocator returns for new private
  data is not in use. \<open>allowed\<close> restricts what the command may do with the bitmap.
\<close>

inductive reach ::
  "'k env \<Rightarrow> vfs_write \<Rightarrow> (kaddr \<Rightarrow> bool) \<Rightarrow> (trfs_log_driver \<Rightarrow> bool) \<Rightarrow> 'k vfs \<Rightarrow> 'k vfs \<Rightarrow> bool"
  for E vw mkw allowed s0 where
  mounted: "reach E vw mkw allowed s0 s0"
| lookup: "reach E vw mkw allowed s0 s \<Longrightarrow> TRFS_D d s = None \<Longrightarrow>
    trfs_lookup E dir d fl s = Some (r, s') \<Longrightarrow> dinfos s (d_fsdata s' d) = None \<Longrightarrow> reach E vw mkw allowed s0 s'"
| d_release: "reach E vw mkw allowed s0 s \<Longrightarrow> trfs_d_release E d s = Some s' \<Longrightarrow> reach E vw mkw allowed s0 s'"
| d_revalidate: "reach E vw mkw allowed s0 s \<Longrightarrow> trfs_d_revalidate E d fl s = Some (r, s') \<Longrightarrow>
    reach E vw mkw allowed s0 s'"
| inode_request: "reach E vw mkw allowed s0 s \<Longrightarrow> inode_call E q s = Some (r, s') \<Longrightarrow> reach E vw mkw allowed s0 s'"
| open_file: "reach E vw mkw allowed s0 s \<Longrightarrow> TRFS_F f s = None \<Longrightarrow> trfs_open E i f s = Some (r, s') \<Longrightarrow>
    finfos s (private_data s' f) = None \<Longrightarrow> reach E vw mkw allowed s0 s'"
| file_request: "reach E vw mkw allowed s0 s \<Longrightarrow> file_call E f p s = Some (r, s') \<Longrightarrow> reach E vw mkw allowed s0 s'"
| mmap: "reach E vw mkw allowed s0 s \<Longrightarrow> trfs_mmap E f vma s = Some (r, s') \<Longrightarrow> reach E vw mkw allowed s0 s'"
| fault: "reach E vw mkw allowed s0 s \<Longrightarrow> trfs_fault E vma s = Some (r, s') \<Longrightarrow> reach E vw mkw allowed s0 s'"
| page_mkwrite: "reach E vw mkw allowed s0 s \<Longrightarrow> trfs_page_mkwrite E mkw vma s = Some (r, s') \<Longrightarrow>
    reach E vw mkw allowed s0 s'"
| close_file: "reach E vw mkw allowed s0 s \<Longrightarrow> trfs_file_release E i f s = Some (r, s') \<Longrightarrow>
    reach E vw mkw allowed s0 s'"
| super_request: "reach E vw mkw allowed s0 s \<Longrightarrow> super_call E b s = Some (r, s') \<Longrightarrow> reach E vw mkw allowed s0 s'"
| writer: "reach E vw mkw allowed s0 s \<Longrightarrow> log_write_step (kmal E) vw False (klg s) = Some l \<Longrightarrow>
    reach E vw mkw allowed s0 (s\<lparr>klg := l\<rparr>)"
| control: "reach E vw mkw allowed s0 s \<Longrightarrow> trfs_ioctl_bitmap_op alloc cfu cmd (tld s) = Some (r, Some drv) \<Longrightarrow>
    allowed drv \<Longrightarrow> reach E vw mkw allowed s0 (s\<lparr>tld := Some drv\<rparr>)"

subsection \<open>Specification vocabulary\<close>

definition msum :: "('b \<Rightarrow> 'c :: comm_monoid_add) \<Rightarrow> ('a \<rightharpoonup> 'b) \<Rightarrow> 'c" where
  "msum g m = (\<Sum>p\<in>dom m. g (the (m p)))"

text \<open>The references that the private data stands for.\<close>

definition live_refs :: "'k vfs \<Rightarrow> resource multiset" where
  "live_refs s = msum (mset \<circ> path_refs \<circ> lower_path) (dinfos s) + msum (mset \<circ> file_refs \<circ> lower_file) (finfos s)"

definition accounted :: "resource multiset \<Rightarrow> 'k vfs \<Rightarrow> bool" where
  "accounted R s \<longleftrightarrow> finite (dom (dinfos s)) \<and> finite (dom (finfos s)) \<and> dinfos s 0 = None \<and>
     pins s = Some (R + live_refs s)"

text \<open>The calls whose records fit.\<close>

definition sound_call :: "trace_call \<Rightarrow> bool" where
  "sound_call c \<longleftrightarrow> call_wf c \<and> call_fits c \<and> int (call_size c) \<le> TRFS_PAGE_SIZE"

section \<open>Lemmas\<close>

subsection \<open>Sums over maps\<close>

lemma msum_empty [simp]: "msum g Map.empty = 0"
  by (simp add: msum_def)

lemma msum_new: "finite (dom m) \<Longrightarrow> m p = None \<Longrightarrow> msum g (m(p \<mapsto> v)) = msum g m + g v"
  unfolding msum_def by (auto simp: domIff add.commute intro!: sum.cong arg_cong2 [of _ _ _ _ "(+)"])

lemma msum_drop: "finite (dom m) \<Longrightarrow> m p = Some v \<Longrightarrow> msum g m = msum g (m(p := None)) + g v"
  using msum_new [of "m(p := None)" p g v] by (simp add: fun_upd_idem)

lemma msum_change:
  assumes "finite (dom m)" and "m p = Some v" and "g w = g v"
  shows "msum g (m(p \<mapsto> w)) = msum g m"
  using msum_drop [OF assms(1,2), of g] msum_new [of "m(p := None)" p g w] assms by simp

lemmas dom_upd_finite = dom_fun_upd finite_insert finite_Diff

subsection \<open>A state before the references were taken\<close>

text \<open>
  The rules about operations speak of what is held beyond a state at the beginning. For a
  reference that the operation finds in private data that state is an earlier one, in which
  everything else was held.
\<close>

lemma settle_members: "settle ms M = Some N \<Longrightarrow> r \<in># N \<Longrightarrow> r \<in># M \<or> Acq r \<in> set ms"
  by (induction ms M rule: settle.induct) (auto split: if_splits dest: in_diffD)

lemma ref_moves_acquire: "Acq r \<in> set (ref_moves c v out) \<Longrightarrow> r \<noteq> Mnt_ref 0"
  by (cases c) (auto simp: path_refs_def split: if_splits)

lemma pins_members:
  assumes "pins s = Some X" and "r \<in># X"
  shows "transient r \<and> r \<noteq> Mnt_ref 0"
proof -
  obtain e where e: "e \<in> set (events s)" "Acq r \<in> set (event_moves e)" "transient r"
    using settle_members [OF assms(1) [unfolded pins_def] assms(2)] by auto
  then show ?thesis by (cases e rule: event_moves.cases) (auto dest: ref_moves_acquire)
qed

lemma acquirable:
  assumes "transient r" and "r \<noteq> Mnt_ref 0"
  shows "\<exists>c. event_moves (Call (Ref c) 0 null_path) = [Acq r]"
proof (cases r)
  case (Dentry_ref d) then show ?thesis by (intro exI [of _ "R_dget d"]) simp
next
  case (Mnt_ref m) then show ?thesis using assms by (intro exI [of _ "R_mntget m"]) (simp add: path_refs_def)
next
  case (Spin d) then show ?thesis by (intro exI [of _ "R_spin_lock d"]) simp
next
  case (Inode_lock i) then show ?thesis by (intro exI [of _ "R_inode_lock i"]) simp
next
  case (Rename_lock d e) then show ?thesis by (intro exI [of _ "R_lock_rename d e"]) simp
next
  case (File_ref f) then show ?thesis by (intro exI [of _ "R_get_file f"]) simp
qed (use assms in simp_all)

lemma events_for:
  "\<forall>r \<in># N. transient r \<and> r \<noteq> Mnt_ref 0 \<Longrightarrow>
   \<exists>es. concat (map event_traced es) = T \<and>
     settle (filter (transient \<circ> moved) (concat (map event_moves es))) {#} = Some N"
proof (induction N)
  case empty
  have "concat (map event_traced (map Traced T)) = T" "concat (map event_moves (map Traced T)) = []"
    by (induction T) simp_all
  then show ?case by (intro exI [of _ "map Traced T"]) (simp only: filter.simps settle.simps simp_thms)
next
  case (add r N)
  then have "\<forall>r \<in># N. transient r \<and> r \<noteq> Mnt_ref 0" by simp
  from add.IH [OF this] obtain es where es: "concat (map event_traced es) = T"
    "settle (filter (transient \<circ> moved) (concat (map event_moves es))) {#} = Some N" by blast
  obtain c where c: "event_moves (Call (Ref c) 0 null_path) = [Acq r]" using acquirable add.prems by auto
  have "settle (filter (transient \<circ> moved) (concat (map event_moves (es @ [Call (Ref c) 0 null_path])))) {#} =
      Some (add_mset r N)"
    using es(2) c add.prems by (simp add: settle_append del: event_moves.simps)
  moreover have "concat (map event_traced (es @ [Call (Ref c) 0 null_path])) = T" using es(1) by simp
  ultimately show ?case by blast
qed

lemma since_earlier:
  assumes "pins s = Some (N + M)"
  obtains s0 where "pins s0 = Some N" and "since E s0 s M [] [] s" and "tld s0 = tld s" "traced s0 = traced s"
    "klg s0 = klg s"
proof -
  obtain es where es: "concat (map event_traced es) = traced s"
    "settle (filter (transient \<circ> moved) (concat (map event_moves es))) {#} = Some N"
    using events_for [of N "traced s"] pins_members [OF assms] by auto
  have "pins (s\<lparr>events := es\<rparr>) = Some N" "traced (s\<lparr>events := es\<rparr>) = traced s"
    using es by (simp_all add: pins_def traced_def)
  with assms show ?thesis by (intro that [of "s\<lparr>events := es\<rparr>"]) (simp_all add: since_def)
qed

subsection \<open>The effect of one step\<close>

definition effect :: "'k env \<Rightarrow> resource multiset \<Rightarrow> 'k vfs \<Rightarrow> 'k vfs \<Rightarrow> bool" where
  "effect E R s s' \<longleftrightarrow> accounted R s' \<and> tld s' = tld s \<and>
     (\<exists>T. traced s' = traced s @ T \<and> log_all E (tld s) T (klg s) = Some (klg s'))"

lemma effectI:
  assumes "since E s0 s' M D T W" and "pins s0 = Some N" and "N + M = R + live_refs W"
    and "finite (dom (dinfos W))" and "finite (dom (finfos W))" and "dinfos W 0 = None"
    and "tld s0 = tld s" "traced s0 = traced s" "klg s0 = klg s"
  shows "effect E R s s'"
  using assms since_own(9,10) [OF assms(1)] by (auto simp: effect_def accounted_def live_refs_def since_def)

text \<open>An operation that leaves the private data alone.\<close>

lemma effect_plain:
  assumes "accounted R s" and "since E s s' {#} [] T s"
  shows "effect E R s s'"
  using assms by (auto simp: accounted_def intro!: effectI [OF assms(2)])

lemma revalidate_performs:
  assumes "stable E"
  shows "performs E (\<lambda>r cs. cs = []) (trfs_d_revalidate E d fl)"
  unfolding trfs_d_revalidate_def
  by (rule performsI steps assms performed0 refl | assumption)+

lemma step_last_call:
  assumes "stable E" and "since E s0 s M D T W"
  shows "after (invoke E ps (File c) s) (\<lambda>(r, s'). \<exists>cs. cs = [] \<and> since E s0 s' M D (T @ cs) W)"
  using step_call [OF assms keeps_simps(4), of "\<lambda>r s. Some (r, s)"] by simp

lemma fault_performs:
  assumes "stable E"
  shows "performs E (\<lambda>r cs. cs = []) (trfs_fault E vma)" "performs E (\<lambda>r cs. cs = []) (trfs_page_mkwrite E mkw vma)"
  unfolding trfs_fault_def trfs_page_mkwrite_def
  by (rule performsI steps assms performed0 refl step_last_call after_None | assumption)+

interpretation revalidate: vfs_operation "\<lambda>E. trfs_d_revalidate E d fl" "\<lambda>r cs. cs = []" for d fl
  by unfold_locales (rule revalidate_performs)

interpretation page_fault: vfs_operation "\<lambda>E. trfs_fault E vma" "\<lambda>r cs. cs = []" for vma
  by unfold_locales (rule fault_performs)

interpretation page_mkwrite: vfs_operation "\<lambda>E. trfs_page_mkwrite E mkw vma" "\<lambda>r cs. cs = []" for mkw vma
  by unfold_locales (rule fault_performs)

lemma effect_lookup:
  assumes "stable E" and "accounted R s" and "trfs_lookup E dir d fl s = Some (r, s')"
    and "dinfos s (d_fsdata s' d) = None"
  shows "effect E R s s'"
proof -
  consider "since E s s' {#} [] [] s"
    | info lp where "info \<noteq> 0" "since E s s' (mset (path_refs lp)) [] [] (linked d info lp s)"
    using afterD [OF lookup_since [OF assms(1)] assms(3)] by auto
  then show ?thesis
  proof cases
    case 1
    then show ?thesis by (rule effect_plain [OF assms(2)])
  next
    case 2
    have "d_fsdata s' d = info" using since_own(6) [OF 2(2)] by (simp add: linked_def)
    then show ?thesis
      using assms(2,4) 2(1)
      by (intro effectI [OF 2(2)]) (auto simp: accounted_def live_refs_def linked_def msum_new ac_simps)
  qed
qed

lemma effect_d_release:
  assumes "stable E" and "accounted R s" and "trfs_d_release E d s = Some s'"
  shows "effect E R s s'"
proof -
  obtain info where info: "TRFS_D d s = Some info"
    using assms(3) by (auto simp: trfs_d_release_def trfs_put_reset_lower_path_def bind_eq_Some_conv)
  then have p: "dinfos s (d_fsdata s d) = Some info" by (auto simp: TRFS_D_def split: if_splits)
  define N where "N = R + (msum (mset \<circ> path_refs \<circ> lower_path) ((dinfos s)(d_fsdata s d := None)) +
    msum (mset \<circ> file_refs \<circ> lower_file) (finfos s))"
  have "pins s = Some (N + ({#} + mset (path_refs (lower_path info))))"
    using assms(2) p by (simp add: accounted_def live_refs_def msum_drop N_def ac_simps)
  then obtain s0 where s0: "pins s0 = Some N" "since E s0 s ({#} + mset (path_refs (lower_path info))) [] [] s"
    "tld s0 = tld s" "traced s0 = traced s" "klg s0 = klg s" by (rule since_earlier)
  have "TRFS_D d s = Some \<lparr>lower_path = lower_path info\<rparr>" "dinfos s 0 = None"
    using info assms(2) by (simp_all add: accounted_def)
  from afterD [OF step_d_release [OF assms(1) s0(2) this] assms(3)] obtain W where
    W: "since E s0 s' {#} [] [] W" "dinfos W = (dinfos s)(d_fsdata s d := None)" "finfos W = finfos s" by auto
  show ?thesis
    using assms(2) by (intro effectI [OF W(1) s0(1)]) (simp_all add: s0 W(2,3) N_def accounted_def live_refs_def)
qed

lemma effect_open:
  assumes "stable E" and "accounted R s" and "trfs_open E i f s = Some (r, s')"
    and "finfos s (private_data s' f) = None"
  shows "effect E R s s'"
proof -
  obtain fl W lf where W: "since E s s' (mset (if r = 0 then file_refs lf else [])) [] [T_open fl r] W"
    "r = 0 \<Longrightarrow> TRFS_F f W = Some \<lparr>lower_file = lf, lower_vm_ops = 0\<rparr>" "dinfos W = dinfos s"
    "finfos W = (finfos s)(private_data W f := (if r = 0 then TRFS_F f W else None)) \<or> r \<noteq> 0 \<and> finfos W = finfos s"
    using afterD [OF open_since [OF assms(1)] assms(3)] by (auto simp: opened_def)
  have p: "finfos s (private_data W f) = None" using assms(4) since_own(7) [OF W(1)] by simp
  then have fin: "finfos W = (if r = 0 then (finfos s)(private_data W f \<mapsto> \<lparr>lower_file = lf, lower_vm_ops = 0\<rparr>)
      else finfos s)"
    using W(2,4) by (auto simp: fun_upd_idem)
  show ?thesis
    using assms(2) p W(3)
    by (intro effectI [OF W(1)]) (auto simp: accounted_def live_refs_def fin msum_new ac_simps)
qed

lemma effect_close:
  assumes "stable E" and "accounted R s" and "trfs_file_release E i f s = Some (r, s')"
  shows "effect E R s s'"
proof -
  obtain info where info: "TRFS_F f s = Some info"
    using assms(3) by (auto simp: trfs_file_release_def trfs_lower_file_def bind_eq_Some_conv)
  then have p: "finfos s (private_data s f) = Some info" by (auto simp: TRFS_F_def split: if_splits)
  define N where "N = R + (msum (mset \<circ> path_refs \<circ> lower_path) (dinfos s) +
    msum (mset \<circ> file_refs \<circ> lower_file) ((finfos s)(private_data s f := None)))"
  have "pins s = Some (N + ({#} + mset (file_refs (lower_file info))))"
    using assms(2) p by (simp add: accounted_def live_refs_def msum_drop N_def ac_simps)
  then obtain s0 where s0: "pins s0 = Some N" "since E s0 s ({#} + mset (file_refs (lower_file info))) [] [] s"
    "tld s0 = tld s" "traced s0 = traced s" "klg s0 = klg s" by (rule since_earlier)
  from afterD [OF release_since [OF assms(1) s0(2) info] assms(3)] obtain fl W where
    W: "since E s0 s' {#} [] [T_close fl 0] W" "finfos W = (finfos s)(private_data s f := None)" "dinfos W = dinfos s"
    by auto
  show ?thesis
    using assms(2) by (intro effectI [OF W(1) s0(1)]) (simp_all add: s0 W(2,3) N_def accounted_def live_refs_def)
qed

text \<open>Mapping a file may only store the operations of the lower mapping.\<close>

lemma step_triple: "after (g a b c) Q \<Longrightarrow> after (Option.bind (Some ((a, b), c)) (\<lambda>((x, y), z). g x y z)) Q"
  by simp

lemma mmap_since:
  assumes "stable E"
  shows "after (trfs_mmap E f vma s) (\<lambda>(_, s'). since E s s' {#} [] [] s \<or>
    (\<exists>info v. TRFS_F f s = Some info \<and>
      since E s s' {#} [] [] (s\<lparr>finfos := (finfos s)(private_data s f \<mapsto> info\<lparr>lower_vm_ops := v\<rparr>)\<rparr>)))"
proof -
  let ?Q = "\<lambda>(_, s'). since E s s' {#} [] [] s \<or> (\<exists>info v. TRFS_F f s = Some info \<and>
      since E s s' {#} [] [] (s\<lparr>finfos := (finfos s)(private_data s f \<mapsto> info\<lparr>lower_vm_ops := v\<rparr>)\<rparr>))"
  have same: "?Q (x, s')" if "since E s s' {#} [] [] s" for x s'
    using that by simp
  have store: "?Q (x, if b then s'\<lparr>finfos := (finfos s')(private_data s' f \<mapsto> info\<lparr>lower_vm_ops := v\<rparr>)\<rparr> else s')"
    if "since E s s' {#} [] [] s" "TRFS_F f s' = Some info" for x s' info b v
    using that since_set_own(3) [OF that(1)] by (auto simp: since_own [OF that(1)])
  show ?thesis
    unfolding trfs_mmap_def
    by (rule step_triple steps after_bindI [where x = "map_of t FO_mmap" for t] assms store same | assumption | rule since_refl)+
qed

lemma effect_mmap:
  assumes "stable E" and "accounted R s" and "trfs_mmap E f vma s = Some (r, s')"
  shows "effect E R s s'"
proof -
  consider "since E s s' {#} [] [] s" | info v where "TRFS_F f s = Some info"
      "since E s s' {#} [] [] (s\<lparr>finfos := (finfos s)(private_data s f \<mapsto> info\<lparr>lower_vm_ops := v\<rparr>)\<rparr>)"
    using afterD [OF mmap_since [OF assms(1)] assms(3)] by auto
  then show ?thesis
  proof cases
    case 1
    then show ?thesis by (rule effect_plain [OF assms(2)])
  next
    case 2
    then have "finfos s (private_data s f) = Some info" by (auto simp: TRFS_F_def split: if_splits)
    then show ?thesis
      using assms(2) by (intro effectI [OF 2(2)]) (auto simp: accounted_def live_refs_def msum_change)
  qed
qed


subsection \<open>Every run\<close>

text \<open>
  Induction over the runs: every step but those of the thread and of the command is an
  operation with its \<open>effect\<close>.
\<close>

lemma reach_effects:
  assumes "reach E vw mkw allowed s0 s" and "stable E" and acc: "accounted R s0" and start: "P s0"
    and effect: "\<And>s s'. P s \<Longrightarrow> effect E R s s' \<Longrightarrow> P s'"
    and thread: "\<And>s l. P s \<Longrightarrow> log_write_step (kmal E) vw False (klg s) = Some l \<Longrightarrow> P (s\<lparr>klg := l\<rparr>)"
    and ctl: "\<And>s drv. P s \<Longrightarrow> allowed drv \<Longrightarrow> P (s\<lparr>tld := Some drv\<rparr>)"
  shows "accounted R s \<and> P s"
proof -
  have op: "accounted R s' \<and> P s'" if "P s" "effect E R s s'" for s s'
    using that effect by (auto simp: effect_def)
  have plain: "accounted R s' \<and> P s'" if "P s" "accounted R s" "\<exists>cs. tr cs \<and> since E s s' {#} [] cs s" for s s' tr
    using that op effect_plain by blast
  show ?thesis
    using assms(1)
  proof (induction rule: reach.induct)
    case mounted
    then show ?case using acc start by simp
  next
    case (lookup s d dir fl r s')
    then show ?case using effect_lookup [OF assms(2)] op by blast
  next
    case (d_release s d s')
    then show ?case using effect_d_release [OF assms(2)] op by blast
  next
    case (d_revalidate s d fl r s')
    then show ?case using revalidate.since_start [OF assms(2)] plain by blast
  next
    case (inode_request s q r s')
    then show ?case using inode_call_since [OF assms(2)] plain by blast
  next
    case (open_file s f i r s')
    then show ?case using effect_open [OF assms(2)] op by blast
  next
    case (file_request s f p r s')
    then show ?case using file_use.since_start [OF assms(2) file_request.hyps(2)] plain by blast
  next
    case (mmap s f vma r s')
    then show ?case using effect_mmap [OF assms(2)] op by blast
  next
    case (fault s vma r s')
    then show ?case using page_fault.since_start [OF assms(2)] plain by blast
  next
    case (page_mkwrite s vma r s')
    then show ?case using page_mkwrite.since_start [OF assms(2)] plain by blast
  next
    case (close_file s i f r s')
    then show ?case using effect_close [OF assms(2)] op by blast
  next
    case (super_request s b r s')
    then show ?case using super_use.since_start [OF assms(2) super_request.hyps(2)] plain by blast
  next
    case (writer s l)
    then show ?case using thread by (simp add: accounted_def live_refs_def pins_def)
  next
    case (control s alloc cfu cmd r drv)
    then show ?case using ctl by (simp add: accounted_def live_refs_def pins_def)
  qed
qed


subsection \<open>What one call and one step of the thread do to the log\<close>

lemma log_ops_effect:
  assumes inv: "log_inv l" and c: "sound_call c" and "next_id l + 1 \<noteq> 127" and "alloc_sized km"
    and l': "log_ops km pid drv c l = Some l'"
  shows "log_inv l' \<and>
    (if bit (bitmap drv) (call_bit c) \<and> logged km l c
     then \<exists>rec. is_record pid c (next_id l + 1) rec \<and> trace l' = trace l @ rec \<and> next_id l' = next_id l + 1 \<and>
       length (log_queue l') = length (log_queue l) + 1
     else trace l' = trace l \<and> (next_id l' = next_id l \<or> next_id l' = next_id l + 1) \<and> log_queue l' = log_queue l)"
proof (cases "bit (bitmap drv) (call_bit c)")
  case False
  then show ?thesis using log_ops_disabled [of drv c km pid l] l' inv by auto
next
  case True
  then have ok: "call_ok drv c" using c by (simp add: call_ok_def sound_call_def)
  show ?thesis
  proof (cases "logged km l c")
    case yes: True
    obtain rec where "log_inv l'" "is_record pid c (next_id l + 1) rec" "trace l' = trace l @ rec"
      "next_id l' = next_id l + 1" "queued l' = queued l @ [rec]"
      using log_ops_queued [OF inv ok assms(3) yes assms(4), of pid] l' by auto
    moreover from this(5) have "length (log_queue l') = length (log_queue l) + 1"
      by (drule_tac arg_cong [of _ _ length]) (simp add: queued_def)
    ultimately show ?thesis using True yes by auto
  next
    case no: False
    show ?thesis
    proof (cases "km (requests (heap l)) (call_size c)")
      case None
      then have "l' = l\<lparr>heap := (heap l)\<lparr>requests := Suc (requests (heap l))\<rparr>\<rparr>"
        using log_ops_no_memory [of c drv km l pid] c True l' by (simp add: sound_call_def)
      then show ?thesis using no failed_alloc_inv [OF inv] by (simp add: log_queue_def)
    next
      case (Some g)
      then have "length (log_queue l) = 1024" "length g = call_size c"
        using no queue_bounded [OF inv] assms(4) by (auto simp: logged_def alloc_sized_def)
      then show ?thesis
        using log_ops_dropped [of l drv c km g pid] inv ok Some l' no with_record_inv [OF inv] by auto
    qed
  qed
qed

lemma next_id_kept:
  "write_page vw l = Some l' \<Longrightarrow> next_id l' = next_id l"
  "make_room vw n l = Some l' \<Longrightarrow> next_id l' = next_id l"
  "copy_to_page p n l = Some l' \<Longrightarrow> next_id l' = next_id l"
  "log_write_out e p q l = Some l' \<Longrightarrow> next_id l' = next_id l"
proof -
  show page: "write_page vw l = Some l' \<Longrightarrow> next_id l' = next_id l" for l l'
    by (auto simp: write_page_def Let_def split: option.splits)
  show "make_room vw n l = Some l' \<Longrightarrow> next_id l' = next_id l"
    by (auto simp: make_room_def dest: page split: if_splits option.splits)
  show "copy_to_page p n l = Some l' \<Longrightarrow> next_id l' = next_id l"
    by (auto simp: copy_to_page_def split: option.splits)
  show "log_write_out e p q l = Some l' \<Longrightarrow> next_id l' = next_id l"
    by (auto simp: log_write_out_def split: option.splits)
qed

lemma next_id_msg: "log_write_msg vw p q l = Some l' \<Longrightarrow> next_id l' = next_id l"
  by (auto simp: log_write_msg_def next_id_kept(2-4) split: option.splits if_splits)

lemma next_id_step:
  assumes "log_write_step km vw False l = Some l'"
  shows "next_id l' = next_id l"
proof (cases "pc (thr l)")
  case (Waiting p)
  show ?thesis
  proof (cases "trfsMqRecv TRFS_LOG_QID True (Some (len (thr l))) (-1) False (mq l)")
    case (RecvRet r m q)
    then show ?thesis
      using assms Waiting
      by (cases m) (auto simp: log_write_step_def Let_def split: if_splits dest!: next_id_msg next_id_kept(4))
  qed (use assms Waiting in \<open>auto simp: log_write_step_def\<close>)
qed (use assms in \<open>auto simp: log_write_step_def split: prod.splits\<close>)

lemma queue_step:
  assumes inv: "log_inv l" and "alloc_sized km" and "full_write vw" and l': "log_write_step km vw False l = Some l'"
  shows "length (log_queue l') \<le> length (log_queue l)"
proof (cases "pc (thr l)")
  case Head
  then show ?thesis using head_step_trace [OF inv Head assms(2), of vw] l' by auto
next
  case (Waiting p)
  then show ?thesis
    using blocked_step [OF inv Waiting, of km vw] wait_step_trace [OF inv Waiting _ assms(3), of _ _ km] l'
    by (cases "log_queue l") fastforce+
next
  case (Exited e)
  with inv show ?thesis by (simp add: log_inv_def)
qed


subsection \<open>The trace of a run\<close>

text \<open>
  \<open>recorded pid l0 T l ps\<close>: from the log \<open>l0\<close> on the calls \<open>T\<close> were made, and of these the
  calls in \<open>ps\<close>, with the numbers there, have got into the trace.
\<close>

definition recorded :: "int \<Rightarrow> klog \<Rightarrow> trace_call list \<Rightarrow> klog \<Rightarrow> (trace_call \<times> u32) list \<Rightarrow> bool" where
  "recorded pid l0 T l ps \<longleftrightarrow> log_inv l \<and> subseq (map fst ps) T \<and>
     (\<exists>recs. list_all2 (\<lambda>(c, rid). is_record pid c rid) ps recs \<and> trace l = trace l0 @ concat recs) \<and>
     sorted_wrt (<) (map snd ps) \<and> (\<forall>rid \<in> set (map snd ps). rid \<le> next_id l) \<and>
     unat (next_id l) \<le> unat (next_id l0) + length T \<and> length (log_queue l) \<le> length (log_queue l0) + length T"

lemma next_number:
  fixes n :: u32
  assumes "unat n + 1 < 127"
  shows "unat (n + 1) = unat n + 1" "n < n + 1" "n + 1 \<noteq> 127"
proof -
  show *: "unat (n + 1) = unat n + 1"
    using assms by (simp add: unat_word_ariths)
  show "n < n + 1" using * by (simp add: word_less_nat_alt)
  show "n + 1 \<noteq> 127" using * assms by auto
qed


lemma recorded_call:
  assumes rec: "recorded pid l0 T l ps" and "unat (next_id l0) + length T + 1 < 127" and "alloc_sized km"
    and "sound_call c" and l': "log_ops km pid drv c l = Some l'"
  shows "recorded pid l0 (T @ [c]) l'
    (if bit (bitmap drv) (call_bit c) \<and> logged km l c then ps @ [(c, next_id l + 1)] else ps)"
proof -
  have n: "unat (next_id l) + 1 < 127" using rec assms(2) by (simp add: recorded_def)
  note num = next_number [OF n]
  have inv: "log_inv l" using rec by (simp add: recorded_def)
  note eff = log_ops_effect [OF inv assms(4) num(3) assms(3) l']
  obtain recs where recs: "list_all2 (\<lambda>(c, rid). is_record pid c rid) ps recs" "trace l = trace l0 @ concat recs"
    using rec by (auto simp: recorded_def)
  have le: "rid \<le> next_id l" if "rid \<in> set (map snd ps)" for rid using that rec by (auto simp: recorded_def)
  show ?thesis
  proof (cases "bit (bitmap drv) (call_bit c) \<and> logged km l c")
    case True
    then obtain r where r: "is_record pid c (next_id l + 1) r" "trace l' = trace l @ r" "next_id l' = next_id l + 1"
      "length (log_queue l') = length (log_queue l) + 1" and inv': "log_inv l'" using eff by auto
    have "list_all2 (\<lambda>(c, rid). is_record pid c rid) (ps @ [(c, next_id l + 1)]) (recs @ [r])"
      using recs(1) r(1) by (simp add: list_all2_appendI)
    moreover have "trace l' = trace l0 @ concat (recs @ [r])" using recs(2) r(2) by simp
    moreover have "subseq (map fst ps @ [c]) (T @ [c])" using rec by (simp add: recorded_def subseq_append)
    moreover have less: "rid < next_id l + 1" if "rid \<in> set (map snd ps)" for rid
      using le [OF that] num(2) by (rule le_less_trans)
    moreover from less have "sorted_wrt (<) (map snd ps @ [next_id l + 1])"
      using rec by (simp add: recorded_def sorted_wrt_append)
    ultimately show ?thesis
      using True rec inv' r(3,4) num(1) unfolding recorded_def by (auto simp: eff intro: less_imp_le)
  next
    case False
    then have l': "log_inv l'" "trace l' = trace l" "next_id l' = next_id l \<or> next_id l' = next_id l + 1"
      "log_queue l' = log_queue l" using eff by auto
    have "subseq (map fst ps) (T @ [c])" using rec by (simp add: recorded_def subseq_rev_drop_many)
    moreover have "rid \<le> next_id l'" if "rid \<in> set (map snd ps)" for rid
      using le [OF that] l'(3) num(2) by auto
    ultimately show ?thesis
      using False rec l' recs num(1) unfolding recorded_def by auto
  qed
qed


lemma recorded_calls:
  assumes "recorded (cur_pid E) l0 T l ps" and "unat (next_id l0) + length T + length cs < 127"
    and "alloc_sized (kmal E)" and "list_all sound_call cs" and "log_all E drv cs l = Some l'"
    and "b \<longrightarrow> (\<forall>k n. kmal E k n \<noteq> None) \<and> log_queue l0 = [] \<and> (\<forall>d c. drv = Some d \<longrightarrow> bit (bitmap d) (call_bit c)) \<and>
      map fst ps = T"
  shows "\<exists>ps'. recorded (cur_pid E) l0 (T @ cs) l' ps' \<and> (b \<longrightarrow> map fst ps' = T @ cs)"
  using assms(1,2,4-)
proof (induction cs arbitrary: T l ps)
  case Nil
  then show ?case by auto
next
  case (Cons c cs)
  then obtain d l1 where l1: "drv = Some d" "log_ops (kmal E) (cur_pid E) d c l = Some l1" "log_all E drv cs l1 = Some l'"
    by (auto split: option.splits)
  let ?ps = "if bit (bitmap d) (call_bit c) \<and> logged (kmal E) l c then ps @ [(c, next_id l + 1)] else ps"
  have rec: "recorded (cur_pid E) l0 (T @ [c]) l1 ?ps"
    using Cons.prems(2,3) by (intro recorded_call [OF Cons.prems(1) _ assms(3) _ l1(2)]) simp_all
  have "map fst ?ps = T @ [c]" if b
  proof -
    have "length (log_queue l) < TRFS_MQ_MAX_NO_OF_MSGS"
      using that Cons.prems(1,2,5) by (simp add: recorded_def)
    then show ?thesis using that Cons.prems(5) l1(1) by (simp add: logged_def)
  qed
  then have "b \<longrightarrow> (\<forall>k n. kmal E k n \<noteq> None) \<and> log_queue l0 = [] \<and> (\<forall>d c. drv = Some d \<longrightarrow> bit (bitmap d) (call_bit c)) \<and>
      map fst ?ps = T @ [c]" using Cons.prems(5) by blast
  from Cons.IH [OF rec _ _ l1(3) this] Cons.prems(2,3) show ?case by simp
qed

lemma recorded_step:
  assumes rec: "recorded pid l0 T l ps" and "alloc_sized km" and "full_write vw"
    and "log_write_step km vw False l = Some l'"
  shows "recorded pid l0 T l' ps"
  using writer_step_inv [OF _ assms(2,3,4)] queue_step [OF _ assms(2,3,4)] next_id_step [OF assms(4)] rec
  by (auto simp: recorded_def)

text \<open>What has to hold of a run for its trace to be complete.\<close>

definition complete :: "'k env \<Rightarrow> (trfs_log_driver \<Rightarrow> bool) \<Rightarrow> 'k vfs \<Rightarrow> bool" where
  "complete E allowed s0 \<longleftrightarrow> (\<forall>k n. kmal E k n \<noteq> None) \<and> log_queue (klg s0) = [] \<and>
     (\<forall>d c. allowed d \<longrightarrow> bit (bitmap d) (call_bit c)) \<and> (\<forall>d. tld s0 = Some d \<longrightarrow> allowed d)"

lemma reach_recorded:
  fixes s0 :: "'k vfs"
  assumes "reach E vw mkw allowed s0 s" and "stable E" and "accounted R s0"
    and log: "log_inv (klg s0)" "traced s0 = []" "alloc_sized (kmal E)" "full_write vw"
  shows "unat (next_id (klg s0)) + length (traced s) < 127 \<longrightarrow> list_all sound_call (traced s) \<longrightarrow>
    (\<exists>ps. recorded (cur_pid E) (klg s0) (traced s) (klg s) ps \<and> (complete E allowed s0 \<longrightarrow> map fst ps = traced s))"
proof -
  define P where "P s \<longleftrightarrow> (unat (next_id (klg s0)) + length (traced s) < 127 \<longrightarrow> list_all sound_call (traced s) \<longrightarrow>
    (\<exists>ps. recorded (cur_pid E) (klg s0) (traced s) (klg s) ps \<and> (complete E allowed s0 \<longrightarrow> map fst ps = traced s))) \<and>
    (complete E allowed s0 \<longrightarrow> (\<forall>d. tld s = Some d \<longrightarrow> allowed d))" for s :: "'k vfs"
  have "accounted R s \<and> P s"
  proof (rule reach_effects [OF assms(1-3), of P])
    show "P s0" using log by (auto simp: P_def recorded_def complete_def intro!: exI [of _ "[]"])
  next
    fix s s' assume P: "P s" and eff: "effect E R s s'"
    then obtain T where T: "tld s' = tld s" "traced s' = traced s @ T" "log_all E (tld s) T (klg s) = Some (klg s')"
      by (auto simp: effect_def)
    show "P s'" unfolding P_def
    proof (intro conjI impI)
      assume few: "unat (next_id (klg s0)) + length (traced s') < 127" and ok: "list_all sound_call (traced s')"
      then have "unat (next_id (klg s0)) + length (traced s) < 127" "list_all sound_call (traced s)"
        by (simp_all add: T(2))
      then obtain ps where ps: "recorded (cur_pid E) (klg s0) (traced s) (klg s) ps"
        "complete E allowed s0 \<longrightarrow> map fst ps = traced s" using P unfolding P_def by blast
      have "complete E allowed s0 \<longrightarrow> (\<forall>k n. kmal E k n \<noteq> None) \<and> log_queue (klg s0) = [] \<and>
          (\<forall>d c. tld s = Some d \<longrightarrow> bit (bitmap d) (call_bit c)) \<and> map fst ps = traced s"
        using P ps(2) unfolding P_def complete_def by blast
      from recorded_calls [OF ps(1) _ log(3) _ T(3) this] few ok
      show "\<exists>ps. recorded (cur_pid E) (klg s0) (traced s') (klg s') ps \<and> (complete E allowed s0 \<longrightarrow> map fst ps = traced s')"
        by (simp add: T(2))
    qed (use P T(1) in \<open>simp add: P_def\<close>)
  next
    fix s l assume P: "P s" and l: "log_write_step (kmal E) vw False (klg s) = Some l"
    have "traced (s\<lparr>klg := l\<rparr>) = traced s" "tld (s\<lparr>klg := l\<rparr>) = tld s" by (simp_all add: traced_def)
    then show "P (s\<lparr>klg := l\<rparr>)"
      using P recorded_step [OF _ log(3,4) l] unfolding P_def by simp blast
  next
    fix s drv assume "P s" "allowed drv"
    then show "P (s\<lparr>tld := Some drv\<rparr>)" by (simp add: P_def traced_def)
  qed
  then show ?thesis by (simp add: P_def)
qed


subsection \<open>A concrete run\<close>

text \<open>A file is opened, the thread takes a step, the file is closed, the dentry is released.\<close>

definition quiet_vfs :: "unit vfs" where
  "quiet_vfs = sample_vfs\<lparr>dinfos := [100 \<mapsto> \<lparr>lower_path = \<lparr>pdentry = 20, pmnt = 60\<rparr>\<rparr>], finfos := Map.empty,
     tld := Some sample_driver, events := [Call (Ref (R_path_get \<lparr>pdentry = 20, pmnt = 60\<rparr>)) 0 null_path]\<rparr>"

definition quiet_file :: "nat \<Rightarrow> trfile" where
  "quiet_file f = \<lparr>fl_addr = f, fl_name = \<lparr>qname = [97], qlen = 1\<rparr>, fl_flags = 0, fl_mode = 0\<rparr>"

lemma quiet_accounted: "accounted {#} quiet_vfs"
  by (simp add: accounted_def live_refs_def quiet_vfs_def msum_def pins_def sample_vfs_def path_refs_def null_path_def)

lemma quiet_calls:
  "call_ok sample_driver (T_open (quiet_file f) 0)" "call_ok sample_driver (T_close (quiet_file f) 0)"
  by (simp_all add: quiet_file_def call_ok_def call_wf_def name_ok_def sample_driver_def)

lemma quiet_log:
  assumes l: "log_inv l" "next_id l = 1" "log_queue l = []" "pc (thr l) = Head"
  shows "\<exists>l1 l2 l3. log_ops sample_alloc 7 sample_driver (T_open (quiet_file f) 0) l = Some l1 \<and>
     log_write_step sample_alloc sample_write False l1 = Some l2 \<and>
     log_ops sample_alloc 7 sample_driver (T_close (quiet_file f) 0) l2 = Some l3 \<and> log_inv l3"
proof -
  have "next_id l + 1 \<noteq> 127" "logged sample_alloc l (T_open (quiet_file f) 0)"
    by (simp_all add: l logged_def sample_alloc_def)
  then obtain l1 rec where l1: "log_ops sample_alloc 7 sample_driver (T_open (quiet_file f) 0) l = Some l1"
    "log_inv l1" "next_id l1 = 2" "queued l1 = queued l @ [rec]" "thr l1 = thr l"
    using log_ops_queued [OF l(1) quiet_calls(1) _ _ sample_alloc_sized, of f 7] l(2) by auto
  then have len: "length (log_queue l1) = 1"
    by (drule_tac arg_cong [of _ _ length]) (simp add: queued_def l(3))
  have "pc (thr l1) = Head" using l1(5) l(4) by simp
  then obtain l2 where l2: "log_write_step sample_alloc sample_write False l1 = Some l2" "log_inv l2"
    "log_queue l2 = log_queue l1" using head_step_trace [OF l1(2) _ sample_alloc_sized] by blast
  have "next_id l2 + 1 \<noteq> 127" "logged sample_alloc l2 (T_close (quiet_file f) 0)"
    using next_id_step [OF l2(1)] l1(3) l2(3) len by (simp_all add: logged_def sample_alloc_def)
  with log_ops_queued [OF l2(2) quiet_calls(2) _ _ sample_alloc_sized, of f 7] l1(1) l2(1) show ?thesis by blast
qed

lemma quiet_run:
  "\<exists>s. reach sample_env sample_write (\<lambda>_. True) (\<lambda>d. d = sample_driver) quiet_vfs s \<and>
     dinfos s = Map.empty \<and> finfos s = Map.empty \<and> traced s = [T_open (quiet_file 70) 0, T_close (quiet_file 70) 0]"
proof -
  obtain l1 l2 l3 where l: "log_ops sample_alloc 7 sample_driver (T_open (quiet_file 70) 0) sample_log = Some l1"
    "log_write_step sample_alloc sample_write False l1 = Some l2"
    "log_ops sample_alloc 7 sample_driver (T_close (quiet_file 70) 0) l2 = Some l3" using quiet_log [OF sample_log_inv] sample_log_facts by blast
  have "TRFS_F 70 quiet_vfs = None" by (simp add: TRFS_F_def quiet_vfs_def)
  moreover have "\<exists>s1 s2 s3. trfs_open sample_env 30 70 quiet_vfs = Some (0, s1) \<and> klg s1 = l1 \<and>
      finfos quiet_vfs (private_data s1 70) = None \<and>
      trfs_file_release sample_env 30 70 (s1\<lparr>klg := l2\<rparr>) = Some (0, s2) \<and>
      trfs_d_release sample_env 10 s2 = Some s3 \<and>
      dinfos s3 = Map.empty \<and> finfos s3 = Map.empty \<and> traced s3 = [T_open (quiet_file 70) 0, T_close (quiet_file 70) 0]"
    using l(1,3)
    by (simp add: quiet_vfs_def quiet_file_def trfs_open_def open_lower_def trfs_file_release_def free_file_info_def
        trfs_set_lower_file_def trfs_d_release_def free_dentry_private_data_def run_simps sample_simps traced_def)
  then obtain s1 s2 s3 where s: "trfs_open sample_env 30 70 quiet_vfs = Some (0, s1)" "klg s1 = l1"
    "finfos quiet_vfs (private_data s1 70) = None"
    "trfs_file_release sample_env 30 70 (s1\<lparr>klg := l2\<rparr>) = Some (0, s2)" "trfs_d_release sample_env 10 s2 = Some s3"
    "dinfos s3 = Map.empty" "finfos s3 = Map.empty" "traced s3 = [T_open (quiet_file 70) 0, T_close (quiet_file 70) 0]" by blast
  let ?reach = "reach sample_env sample_write (\<lambda>_. True) (\<lambda>d. d = sample_driver) quiet_vfs"
  have "?reach s1" by (rule reach.open_file [OF reach.mounted _ s(1,3)]) (simp add: TRFS_F_def quiet_vfs_def)
  then have "?reach (s1\<lparr>klg := l2\<rparr>)" by (rule reach.writer) (simp add: s(2) l(2) sample_env_def)
  then have "?reach s3" using s(4,5) by (blast intro: reach.close_file reach.d_release)
  with s show ?thesis by blast
qed

lemma quiet_complete: "complete sample_env (\<lambda>d. d = sample_driver) quiet_vfs"
proof -
  have "klg quiet_vfs = sample_log" "kmal sample_env = sample_alloc" "tld quiet_vfs = Some sample_driver"
    by (simp_all add: quiet_vfs_def sample_simps)
  then show ?thesis
    by (simp add: complete_def sample_log_facts sample_alloc_def) (simp add: sample_driver_def call_bit_lt)
qed

section \<open>Properties\<close>






end
