(* ===== verification/Lifecycle.thy ===== *)
theory Lifecycle
  imports System
begin

section \<open>From mount to unmount\<close>

text \<open>
  The whole life of a mounted file system: a mount, any run of the step relation \<open>reach\<close>, an
  unmount. The theory \<open>System\<close> keeps the account of references to dentries, mounts and files;
  here it is shown that no operation of a run touches what the mount has set up for the
  superblock: its private data, its root, the reference to the lower superblock. Together with
  the theorems about mount and unmount this gives the balance of the whole.
\<close>

section \<open>Lemmas\<close>

subsection \<open>What belongs to the superblocks\<close>

definition alive ::
  "(kaddr \<Rightarrow> kaddr) \<Rightarrow> resource multiset option \<Rightarrow> (kaddr \<Rightarrow> kaddr) \<Rightarrow> (kaddr \<rightharpoonup> trfs_sb_info) \<Rightarrow> 'k vfs \<Rightarrow> bool" where
  "alive roots A g i s \<longleftrightarrow> sbs A g i s \<and> (\<forall>b. s_root (supers (ko s) b) = roots b)"

named_theorems lives \<comment> \<open>rules for the first step of an operation: the superblocks stay as they are\<close>

named_theorems quiets \<comment> \<open>the calls that are no calls about superblocks\<close>

lemma all_quiet [quiets]:
  "quiet (Dir dc)" "quiet (Attr ac)" "quiet (Node nc)" "quiet (File fc)"
  "quiet (Ref (R_iget5_locked sb n i))" "quiet (Ref (R_igrab i))" "quiet (Ref (R_iput i))"
  "quiet (Ref (R_alloc n))" "quiet (Ref (R_free p))" "quiet (Ref (R_dput d))" "quiet (Ref (R_path_put lp))"
  "quiet (Ref (R_spin_lock d))" "quiet (Ref (R_spin_unlock d))" "quiet (Ref (R_path_get lp))" "quiet (Ref (R_dget d))"
  "quiet (Ref (R_dget_parent d))" "quiet (Ref (R_mntget d))" "quiet (Ref (R_inode_lock i))" "quiet (Ref (R_inode_unlock i))"
  "quiet (Ref (R_lock_rename d e))" "quiet (Ref (R_unlock_rename d e))" "quiet (Ref (R_d_splice_alias i d))"
  "quiet (Ref (R_vfs_path_lookup d e b))" "quiet (Ref (R_d_lookup d b))" "quiet (Ref (R_d_alloc d b))"
  "quiet (Ref (R_dentry_open lp fl))" "quiet (Ref (R_get_file f))" "quiet (Ref (R_fput f))"
  by (simp_all add: quiet_def)

lemma alive_invoke:
  assumes "roots_kept E" and "alive rt A g i s" and "quiet c" and "invoke E ps c s = Some (r, s')"
  shows "alive rt A g i s'"
proof -
  have "ko s' = snd (kern E c (ko s))" "events s' = events s @ [Call c r (outp (ko s'))]" "s_fs_info s' = s_fs_info s"
    "sinfos s' = sinfos s" using assms(4) by (auto dest: invoke_fields)
  then show ?thesis using assms(1-3) by (simp add: alive_def sbs_def actives_def quiet_def roots_kept_def)
qed

lemma alive_call [lives]:
  assumes "roots_kept E" and "alive rt A g i s" and "quiet c"
  shows "(\<And>r s'. alive rt A g i s' \<Longrightarrow> after (f r s') Q) \<Longrightarrow> after (Option.bind (invoke E ps c s) (case_prod f)) Q"
    and "(\<And>s'. alive rt A g i s' \<Longrightarrow> after (h s') Q') \<Longrightarrow> after (Option.bind (invoke_void E ps c s) h) Q'"
    and "(\<And>s'. alive rt A g i s' \<Longrightarrow> Q'' s') \<Longrightarrow> after (invoke_void E ps c s) Q''"
    and "(\<And>r s'. alive rt A g i s' \<Longrightarrow> P (r, s')) \<Longrightarrow> after (invoke E ps c s) P"
  using alive_invoke [OF assms, of ps] by (auto simp: invoke_void_def after_def [of "invoke E ps c s"])

lemma alive_result:
  "(\<And>s'. x = Some s' \<Longrightarrow> alive rt A g i s') \<Longrightarrow> (\<And>s'. alive rt A g i s' \<Longrightarrow> after (f s') Q) \<Longrightarrow>
   after (Option.bind x f) Q"
  by (cases x) simp_all

lemma alive_trace [lives]:
  assumes "alive rt A g i s" and "\<And>s'. alive rt A g i s' \<Longrightarrow> after (f s') Q"
  shows "after (Option.bind (trace_op E c s) f) Q"
  by (rule alive_result [OF _ assms(2)])
    (use assms(1) in \<open>auto simp: trace_op_def alive_def sbs_def actives_def split: option.splits\<close>)

lemma alive_store [lives]:
  assumes "alive rt A g i s" and "\<And>s'. alive rt A g i s' \<Longrightarrow> after (f s') Q"
  shows "after (Option.bind (set_inode x h s) f) Q" "after (Option.bind (set_file x k s) f) Q"
    "after (Option.bind (set_dentry x d s) f) Q" "after (Option.bind (trfs_set_lower_inode x v s) f) Q"
    "after (Option.bind (trfs_set_lower_file x v s) f) Q" "after (Option.bind (store_path x lp s) f) Q"
  by (rule alive_result [OF _ assms(2)]; use assms(1) in \<open>auto simp: alive_def sbs_def actives_def set_inode_def
      set_file_def set_dentry_def trfs_set_lower_inode_def trfs_set_lower_file_def store_path_def split: if_splits\<close>)+

lemma alive_own [lives]:
  assumes "alive rt A g i s"
  shows "alive rt A g i (s\<lparr>dinfos := w\<rparr>)" "alive rt A g i (s\<lparr>d_fsdata := x\<rparr>)" "alive rt A g i (s\<lparr>finfos := y\<rparr>)"
    "alive rt A g i (s\<lparr>private_data := z\<rparr>)" "alive rt A g i (s\<lparr>klg := l\<rparr>)" "alive rt A g i (s\<lparr>tld := d\<rparr>)"
  using assms by (simp_all add: alive_def sbs_def actives_def)

subsection \<open>The helpers\<close>

lemma alive_helpers [lives]:
  assumes "roots_kept E" and "alive rt A g i s" and "\<And>s'. alive rt A g i s' \<Longrightarrow> after (f s') Q"
  shows "after (Option.bind (trfs_put_lower_path E d lp s) f) Q"
    and "after (Option.bind (trfs_set_lower_path E d lp s) f) Q"
    and "after (Option.bind (trfs_put_reset_lower_path E d s) f) Q"
    and "after (Option.bind (unlock_dir E d s) f) Q"
    and "after (Option.bind (init_inode E x l s) f) Q"
    and "after (Option.bind (copy_dir_attrs E x l s) f) Q"
    and "after (Option.bind (copy_atime E x l s) f) Q"
    and "after (Option.bind (copy_size_times E x l s) f) Q"
    and "after (Option.bind (free_file_info E x s) f) Q"
  unfolding trfs_put_lower_path_def trfs_set_lower_path_def trfs_put_reset_lower_path_def unlock_dir_def init_inode_def
    copy_dir_attrs_def copy_atime_def copy_size_times_def free_file_info_def
  by (rule lives flow quiets assms | assumption)+

lemma alive_finders [lives]:
  assumes "roots_kept E" and "alive rt A g i s" and "\<And>r s'. alive rt A g i s' \<Longrightarrow> after (f r s') Q"
  shows "after (Option.bind (lock_parent E d s) (case_prod f)) Q"
    and "after (Option.bind (trfs_iget E sb l s) (case_prod f)) Q"
    and "after (Option.bind (new_dentry_private_data E d s) (case_prod f)) Q"
    and "after (Option.bind (notify_lower E d ia s) (case_prod f)) Q"
  unfolding lock_parent_def trfs_iget_def new_dentry_private_data_def notify_lower_def
  by (rule lives flow quiets assms | assumption)+

lemma alive_get_path [lives]:
  assumes "roots_kept E" and "alive rt A g i s" and "\<And>lp s'. alive rt A g i s' \<Longrightarrow> after (f lp s') Q"
  shows "after (Option.bind (trfs_get_lower_path E d s) (case_prod f)) Q"
  unfolding trfs_get_lower_path_def
  by (rule lives flow quiets assms | assumption)+

lemma alive_interpose [lives]:
  assumes "roots_kept E" and "alive rt A g i s" and "\<And>r s'. alive rt A g i s' \<Longrightarrow> after (f r s') Q"
  shows "after (Option.bind (do_trfs_interpose E d sb lp s) (case_prod f)) Q"
    and "after (Option.bind (trfs_interpose E d sb lp s) (case_prod f)) Q"
proof -
  have *: "after (Option.bind (do_trfs_interpose E d sb lp s) (case_prod h)) P"
    if "\<And>r s'. alive rt A g i s' \<Longrightarrow> after (h r s') P" for h P
    unfolding do_trfs_interpose_def by (rule lives flow quiets assms(1,2) that | assumption)+
  then show "after (Option.bind (do_trfs_interpose E d sb lp s) (case_prod f)) Q" using assms(3) .
  show "after (Option.bind (trfs_interpose E d sb lp s) (case_prod f)) Q"
    unfolding trfs_interpose_def by (rule * flow assms(3) | assumption)+
qed

subsection \<open>The operations\<close>

abbreviation (input) stays_alive ::
  "(kaddr \<Rightarrow> kaddr) \<Rightarrow> resource multiset option \<Rightarrow> (kaddr \<Rightarrow> kaddr) \<Rightarrow> (kaddr \<rightharpoonup> trfs_sb_info) \<Rightarrow> ('a \<times> 'k vfs) option \<Rightarrow> bool" where
  "stays_alive rt A g i x \<equiv> after x (\<lambda>(r, s'). alive rt A g i s')"

lemma alive_directories:
  assumes "roots_kept E" and "alive rt A g i s"
  shows "stays_alive rt A g i (trfs_create E dir d m x s)" "stays_alive rt A g i (trfs_link E od dir d s)"
    "stays_alive rt A g i (trfs_unlink E dir d s)" "stays_alive rt A g i (trfs_symlink E dir d n s)"
    "stays_alive rt A g i (trfs_mkdir E dir d m s)" "stays_alive rt A g i (trfs_rmdir E dir d s)"
    "stays_alive rt A g i (trfs_mknod E dir d m v s)" "stays_alive rt A g i (trfs_rename E odir od dir d s)"
  unfolding trfs_create_def trfs_link_def trfs_unlink_def trfs_symlink_def trfs_mkdir_def trfs_rmdir_def trfs_mknod_def
    trfs_rename_def
  by (rule lives flow quiets assms case_prodI | assumption)+

lemma alive_attributes:
  assumes "roots_kept E" and "alive rt A g i s"
  shows "stays_alive rt A g i (trfs_readlink E d n s)" "stays_alive rt A g i (trfs_permission E x m s)"
    "stays_alive rt A g i (trfs_getattr E d s)" "stays_alive rt A g i (trfs_setxattr E d b v k fl s)"
    "stays_alive rt A g i (trfs_getxattr E d b k s)" "stays_alive rt A g i (trfs_listxattr E d k s)"
    "stays_alive rt A g i (trfs_removexattr E d b s)"
  unfolding trfs_readlink_def trfs_permission_def trfs_getattr_def trfs_setxattr_def trfs_getxattr_def
    trfs_listxattr_def trfs_removexattr_def
  by (rule lives flow quiets assms case_prodI | assumption)+

lemma alive_setattr:
  assumes "roots_kept E" and "alive rt A g i s"
  shows "stays_alive rt A g i (trfs_setattr E d ia s)"
  unfolding trfs_setattr_def
  by (rule lives flow quiets assms case_prodI after_bindI [where x = "if b then trfs_lower_file f s else Some 0" for b f s] | assumption)+

lemma alive_get_link:
  assumes "roots_kept E" and "alive rt A g i s"
  shows "stays_alive rt A g i (trfs_get_link E d s)"
  unfolding trfs_get_link_def trfs_readlink_def
  by (rule lives flow quiets assms case_prodI after_None | assumption)+

lemma alive_inode_call:
  assumes "roots_kept E" and "alive rt A g i s"
  shows "stays_alive rt A g i (inode_call E q s)"
  using alive_directories [OF assms] alive_attributes [OF assms] alive_setattr [OF assms] alive_get_link [OF assms]
  by (cases q) (simp_all add: comp_def case_prod_unfold)

lemma alive_file_call:
  assumes "roots_kept E" and "alive rt A g i s"
  shows "stays_alive rt A g i (file_call E f q s)"
proof (cases q)
qed (simp only: file_call.simps trfs_read_def trfs_write_def trfs_readdir_def trfs_unlocked_ioctl_def
    trfs_compat_ioctl_def trfs_flush_def trfs_fsync_def trfs_fasync_def trfs_file_llseek_def trfs_read_iter_def
    trfs_write_iter_def, (rule lives flow quiets assms case_prodI | assumption)+)+

lemma alive_open:
  assumes "roots_kept E" and "alive rt A g i s"
  shows "stays_alive rt A g i (trfs_open E x f s)" "stays_alive rt A g i (trfs_file_release E x f s)"
  unfolding trfs_open_def open_lower_def trfs_file_release_def
  by (rule lives flow quiets assms case_prodI | assumption)+

lemma alive_memory:
  assumes "roots_kept E" and "alive rt A g i s"
  shows "stays_alive rt A g i (trfs_fault E vma s)" "stays_alive rt A g i (trfs_page_mkwrite E mkw vma s)"
  unfolding trfs_fault_def trfs_page_mkwrite_def
  by (rule lives flow quiets assms case_prodI after_None | assumption)+

lemma alive_mmap:
  assumes "roots_kept E" and "alive rt A g i s"
  shows "stays_alive rt A g i (trfs_mmap E f vma s)"
proof -
  have store: "alive rt A g i (if b then s'\<lparr>finfos := y\<rparr> else s')" if "alive rt A g i s'" for b s' y
    using that by (simp add: alive_own)
  show ?thesis
    unfolding trfs_mmap_def
    by (rule step_triple lives flow quiets assms case_prodI store after_bindI [where x = "map_of t FO_mmap" for t]
        after_bindI [where x = "if b then file_at l s else Some y" for b l s y] | assumption)+
qed

lemma alive_lookup:
  assumes "roots_kept E" and "alive rt A g i s"
  shows "stays_alive rt A g i (trfs_lookup E dir d fl s)" "stays_alive rt A g i (trfs_d_revalidate E d fl s)"
  unfolding trfs_lookup_def do_trfs_lookup_def setup_lower_def trfs_d_revalidate_def
  by (rule lives flow quiets assms case_prodI | assumption)+

lemma alive_d_release:
  assumes "roots_kept E" and "alive rt A g i s"
  shows "after (trfs_d_release E d s) (alive rt A g i)"
  unfolding trfs_d_release_def free_dentry_private_data_def
  by (rule lives flow quiets assms case_prodI | assumption)+

lemma alive_super_void:
  assumes "roots_kept E" and "alive rt A g i s"
  shows "after (trfs_evict_inode E x s) (alive rt A g i)" "after (trfs_umount_begin E sb s) (alive rt A g i)"
    "after (trfs_destroy_inode E x s) (alive rt A g i)" "after (init_once E x s) (alive rt A g i)"
  unfolding trfs_evict_inode_def trfs_umount_begin_def trfs_destroy_inode_def init_once_def
  by (rule lives flow quiets assms | assumption)+

lemma alive_super:
  assumes "roots_kept E" and "alive rt A g i s"
  shows "stays_alive rt A g i (trfs_statfs E magic filled d s)" "stays_alive rt A g i (trfs_alloc_inode E s)"
    "stays_alive rt A g i (trfs_nfs_get_inode E sb ino generation s)"
  unfolding trfs_statfs_def trfs_alloc_inode_def trfs_nfs_get_inode_def
  by (rule lives flow quiets assms case_prodI after_tail [where x = "trfs_iget E sb l s" for l s] | assumption)+

lemma alive_super_call:
  assumes "roots_kept E" and "alive rt A g i s"
  shows "stays_alive rt A g i (super_call E q s)"
  using alive_super_void [OF assms] alive_super [OF assms]
  by (cases q) (simp_all add: comp_def case_prod_unfold)

lemma reach_alive:
  assumes "reach E vw mkw allowed s0 s" and "roots_kept E" and "alive rt A g i s0"
  shows "alive rt A g i s"
  using assms(1)
proof (induction rule: reach.induct)
  case mounted
  then show ?case by (rule assms(3))
next
  case (lookup s d dir fl r s')
  from afterD [OF alive_lookup(1) [OF assms(2) this(5)] this(3)] show ?case by simp
next
  case (d_release s d s')
  from afterD [OF alive_d_release [OF assms(2) this(3)] this(2)] show ?case by simp
next
  case (d_revalidate s d fl r s')
  from afterD [OF alive_lookup(2) [OF assms(2) this(3)] this(2)] show ?case by simp
next
  case (inode_request s q r s')
  from afterD [OF alive_inode_call [OF assms(2) this(3)] this(2)] show ?case by simp
next
  case (open_file s f i r s')
  from afterD [OF alive_open(1) [OF assms(2) this(5)] this(3)] show ?case by simp
next
  case (file_request s f p r s')
  from afterD [OF alive_file_call [OF assms(2) this(3)] this(2)] show ?case by simp
next
  case (mmap s f vma r s')
  from afterD [OF alive_mmap [OF assms(2) this(3)] this(2)] show ?case by simp
next
  case (fault s vma r s')
  from afterD [OF alive_memory(1) [OF assms(2) this(3)] this(2)] show ?case by simp
next
  case (page_mkwrite s vma r s')
  from afterD [OF alive_memory(2) [OF assms(2) this(3)] this(2)] show ?case by simp
next
  case (close_file s i f r s')
  from afterD [OF alive_open(2) [OF assms(2) this(3)] this(2)] show ?case by simp
next
  case (super_request s b r s')
  from afterD [OF alive_super_call [OF assms(2) this(3)] this(2)] show ?case by simp
next
  case (writer s l)
  then show ?case by (simp add: alive_own)
next
  case (control s alloc cfu cmd r drv)
  then show ?case by (simp add: alive_own)
qed

subsection \<open>Mounting and unmounting\<close>

abbreviation (input) alive_since :: "'k vfs \<Rightarrow> 'k vfs \<Rightarrow> bool" where
  "alive_since w s \<equiv> alive (\<lambda>b. s_root (supers (ko w) b)) (actives w) (s_fs_info w) (sinfos w) s"

lemma alive_sinceD:
  assumes "alive_since w s"
  shows "actives s = actives w" "s_fs_info s = s_fs_info w" "s_root (supers (ko s) b) = s_root (supers (ko w) b)"
    "trfs_lower_super b s = trfs_lower_super b w"
  using assms by (simp_all add: alive_def sbs_def trfs_lower_super_def TRFS_SB_def)

lemma alive_since_refl: "alive_since s s"
  by (simp add: alive_def sbs_def)

lemma mount_alive:
  assumes "stable (env0 C)" and "roots_kept (env0 C)" and "accounted R (vs m)" and "actives (vs m) = Some A"
    and "trfs_mount C sb dev raw m = Some (0, m1)"
    and "dinfos (vs m) (d_fsdata (vs m1) (s_root (supers (ko (vs m1)) sb))) = None"
  obtains lsb where "accounted (add_mset (Dentry_ref (s_root (supers (ko (vs m1)) sb))) R) (vs m1)"
    and "actives (vs m1) = Some (add_mset (Sb_active lsb) A)" and "s_fs_info (vs m1) sb \<noteq> 0"
    and "trfs_lower_super sb (vs m1) = Some lsb"
  using assms(5)
proof (cases rule: mount_cases)
  case early
  then show ?thesis by simp
next
  case (lower s path t_op)
  then have s: "accounted R s" "actives s = Some A" "dinfos s = dinfos (vs m)"
    using assms(3,4) by (simp_all add: same_account_def own_def accounted_def live_refs_def)
  obtain root lp W where root: "since (env0 C) s (vs m1) (mset [Dentry_ref root] + mset (path_refs lp)) [] [] W"
    "dinfos W = (dinfos s)(d_fsdata W root \<mapsto> \<lparr>lower_path = lp\<rparr>)" "finfos W = finfos s" "dinfos W 0 = None"
    "s_root (supers (ko (vs m1)) sb) = root"
    using afterD [OF mount_rooted [OF assms(1)] lower(2)] assms(2) s(1) by (auto simp: rooted_def accounted_def)
  have "dinfos s (d_fsdata W root) = None" using assms(6) since_own(6) [OF root(1)] by (simp add: root(5) s(3))
  then have "accounted (add_mset (Dentry_ref root) R) (vs m1)"
    using s(1) root(4) since_own(9,10) [OF root(1)] root(1)
    by (auto simp: accounted_def live_refs_def root(2,3) msum_new since_def ac_simps)
  with afterD [OF mount_mounted [OF s(2)] lower(2)] show ?thesis by (auto simp: mounted_def root(5) intro: that)
qed

lemma accounted_dput:
  assumes "accounted (add_mset (Dentry_ref d) R) s" and "invoke_void E ps (Ref (R_dput d)) s = Some s'"
  shows "accounted R s'"
proof -
  obtain r where "invoke E ps (Ref (R_dput d)) s = Some (r, s')" using assms(2) by (auto simp: invoke_void_def)
  from invoke_fields(2,4,12) [OF this] show ?thesis
    using assms(1) by (auto simp: accounted_def live_refs_def pins_def settle_append)
qed

lemma shutdown_alive:
  assumes "stable (env0 C)" and "roots_kept (env0 C)"
    and "accounted (add_mset (Dentry_ref (s_root (supers (ko (vs m)) sb))) R) (vs m)"
    and "s_fs_info (vs m) sb \<noteq> 0" and "trfs_lower_super sb (vs m) = Some lsb"
    and "actives (vs m) = Some (add_mset (Sb_active lsb) A)" and "shutdown_super C frame sb m = Some m2"
  shows "accounted R (vs m2) \<and> actives (vs m2) = Some A \<and> s_fs_info (vs m2) sb = 0 \<and> tld (vs m2) = None"
proof -
  define root where "root = s_root (supers (ko (vs m)) sb)"
  obtain s1 s2 where s: "invoke_void (env0 C) [root] (Ref (R_dput root)) (vs m) = Some s1"
    "trfs_d_release (env0 C) root s1 = Some s2" "trfs_put_super C frame sb (m\<lparr>vs := s2\<rparr>) = Some m2"
    using assms(7) by (auto simp: shutdown_super_def root_def Let_def bind_eq_Some_conv)
  have acc: "accounted R s2"
    using effect_d_release [OF assms(1) accounted_dput s(2)] assms(3) s(1) by (auto simp: effect_def root_def)
  have "after (invoke_void (env0 C) [root] (Ref (R_dput root)) (vs m)) (alive_since (vs m))"
    by (rule alive_call(3) [OF assms(2) alive_since_refl]) (rule quiets | assumption)+
  note alive = alive_sinceD [OF afterD [OF alive_d_release [OF assms(2) afterD [OF this s(1)]] s(2)]]
  have "s_fs_info (vs (m\<lparr>vs := s2\<rparr>)) sb \<noteq> 0" "trfs_lower_super sb (vs (m\<lparr>vs := s2\<rparr>)) = Some lsb"
    "actives (vs (m\<lparr>vs := s2\<rparr>)) = Some (add_mset (Sb_active lsb) A)"
    using assms(4-6) by (simp_all add: alive)
  from afterD [OF put_super_account [OF this] s(3)] acc show ?thesis by (simp add: accounted_def live_refs_def)
qed

lemma started_alive: "alive_since (vs m) (thread_started C m)"
  by (simp add: alive_def sbs_def thread_started_def actives_def)

lemma started_accounted: "accounted R (thread_started C m) \<longleftrightarrow> accounted R (vs m)"
  by (simp add: accounted_def live_refs_def pins_def thread_started_def)

subsection \<open>A concrete life\<close>

text \<open>
  A mount; the root directory is opened, the thread takes a step, the directory is closed, its
  attributes are asked for; an unmount.
\<close>

definition bare_msys :: "unit msys" where
  "bare_msys = sample_msys\<lparr>vs := (vs sample_msys)\<lparr>dinfos := Map.empty, finfos := Map.empty\<rparr>\<rparr>"

lemma bare_accounted: "accounted {#} (vs bare_msys)" "actives (vs bare_msys) = Some {#}"
  by (simp_all add: bare_msys_def sample_msys_def accounted_def live_refs_def pins_def actives_def sample_vfs_def)

lemma sample_roots: "roots_kept (env0 sample_menv)" "stable (env0 sample_menv)"
  using sample_stable by (simp_all add: sample_menv_def roots_kept_def sample_env_def sample_kern_def)

lemma bare_boot:
  "mq (klg (vs bare_msys)) = mq_boot" "heap_wf (heap (klg (vs bare_msys)))" "traced (vs bare_msys) = []"
  "next_id (klg (vs bare_msys)) = 1" "fresh_files sample_menv"
  "kmal (env0 sample_menv) (requests (heap (klg (vs bare_msys)))) 4096 = Some (replicate 4096 0)"
  by (auto simp: bare_msys_def sample_msys_def sample_menv_def idle_log_def heap_wf_def traced_def fresh_files_def sample_simps
      sample_file_def sample_alloc_def)

abbreviation (input) bare_mount :: "unit msys \<Rightarrow> bool" where
  "bare_mount m \<equiv> trfs_mount sample_menv 52 (Some [47]) (Some [116, 102, 105, 108, 101, 61, 97]) bare_msys = Some (0, m)"

definition bare_vfs :: "unit vfs" where
  "bare_vfs = (let nowhere = \<lparr>pdentry = 20, pmnt = 60\<rparr> in (vs bare_msys)\<lparr>
     ko := (ko sample_vfs)\<lparr>dentries := sample_dentry(11 := (sample_dentry 11)\<lparr>d_op_set := True\<rparr>),
       supers := (\<lambda>_. sample_super)(52 := sample_super\<lparr>s_time_gran := 1, s_root := 11\<rparr>)\<rparr>,
     d_fsdata := (\<lambda>d. d + 90)(11 := 4096), dinfos := [4096 \<mapsto> \<lparr>lower_path = nowhere\<rparr>],
     s_fs_info := (\<lambda>b. b + 90)(52 := 4096), sinfos := [140 \<mapsto> \<lparr>lower_sb = 51\<rparr>, 4096 \<mapsto> \<lparr>lower_sb = 50\<rparr>],
     tld := Some sample_driver,
     events := map (\<lambda>(c, r). Call c r nowhere)
       [(Ref (R_alloc 16), 4096), (Ref (R_alloc (Suc 1)), 4096), (Ref (R_kern_path [47]), 0), (Ref (R_alloc 8), 4096),
        (Ref (R_s_active_inc 50), 0), (Ref (R_iget5_locked 52 40 40), 30), (Ref (R_d_make_root 30), 11),
        (Ref (R_alloc 24), 4096), (Ref (R_spin_lock 11), 0), (Ref (R_spin_unlock 11), 0), (Node (C_d_rehash 11), 0)]\<rparr>)"

lemma bare_mounted:
  obtains m l0 where "bare_mount m" and "thread_started sample_menv m = bare_vfs\<lparr>klg := l0\<rparr>" and "trfs_kthread m = NULL"
    and "log_inv l0" and "next_id l0 = 1" and "log_queue l0 = []" and "pc (thr l0) = Head"
proof -
  obtain q where q: "trfs_create_log_q mq_boot = Some (0, q)" using create_log_q_boot by blast
  have "\<exists>m l. bare_mount m \<and> vs m = bare_vfs\<lparr>klg := l\<rparr> \<and> trfs_kthread m = NULL"
    by (simp add: bare_msys_def bare_vfs_def mount_simps q run_simps sample_simps sample_super_def sample_driver_def)
  then obtain m l where m: "bare_mount m" "vs m = bare_vfs\<lparr>klg := l\<rparr>" "trfs_kthread m = NULL" by blast
  note log = mounted_log [OF sample_roots(2) m(1) bare_boot(1,2,5,6) length_replicate]
  have "thread_started sample_menv m = bare_vfs\<lparr>klg := klg (thread_started sample_menv m)\<rparr>"
    by (simp add: thread_started_def m(2))
  from that [OF m(1) this m(3) log(1)] log(3-5) bare_boot(4) show ?thesis by simp
qed

lemma bare_run:
  assumes l: "log_inv l0" "next_id l0 = 1" "log_queue l0 = []" "pc (thr l0) = Head"
  shows "\<exists>s l4. reach sample_env sample_write (\<lambda>_. True) all_on (bare_vfs\<lparr>klg := l0\<rparr>) s \<and>
    traced s = [T_open (quiet_file 71) 0, T_close (quiet_file 71) 0] \<and>
    dinfos s = dinfos bare_vfs \<and> finfos s = Map.empty \<and> d_fsdata s = d_fsdata bare_vfs \<and>
    s_fs_info s = s_fs_info bare_vfs \<and> sinfos s = sinfos bare_vfs \<and> ko s = ko bare_vfs \<and>
    trfs_log_write_flush sample_write (klg s) = Some l4"
proof -
  obtain l1 l2 l3 where log: "log_ops sample_alloc 7 sample_driver (T_open (quiet_file 71) 0) l0 = Some l1"
    "log_write_step sample_alloc sample_write False l1 = Some l2"
    "log_ops sample_alloc 7 sample_driver (T_close (quiet_file 71) 0) l2 = Some l3" "log_inv l3"
    using quiet_log [OF l] by blast
  obtain l4 where l4: "trfs_log_write_flush sample_write l3 = Some l4"
    using flush_appends [OF sample_full_write] log(4) unfolding log_inv_def by blast
  let ?s0 = "bare_vfs\<lparr>klg := l0\<rparr>"
  let ?reach = "reach sample_env sample_write (\<lambda>_. True) all_on ?s0"
  have "\<exists>s1 s2 r s. trfs_open sample_env 31 71 ?s0 = Some (0, s1) \<and> klg s1 = l1 \<and>
      finfos ?s0 (private_data s1 71) = None \<and>
      trfs_file_release sample_env 31 71 (s1\<lparr>klg := l2\<rparr>) = Some (0, s2) \<and>
      inode_call sample_env (Q_getattr 11) s2 = Some (r, s) \<and> klg s = l3 \<and>
      traced s = [T_open (quiet_file 71) 0, T_close (quiet_file 71) 0] \<and>
      dinfos s = dinfos bare_vfs \<and> finfos s = Map.empty \<and> d_fsdata s = d_fsdata bare_vfs \<and>
      s_fs_info s = s_fs_info bare_vfs \<and> sinfos s = sinfos bare_vfs \<and> ko s = ko bare_vfs"
    using log(1,3)
    by (simp add: bare_vfs_def bare_msys_def sample_msys_def quiet_file_def trfs_open_def open_lower_def
        trfs_file_release_def free_file_info_def trfs_set_lower_file_def trfs_getattr_def run_simps sample_simps traced_def)
  then obtain s1 s2 r s where s: "trfs_open sample_env 31 71 ?s0 = Some (0, s1)" "klg s1 = l1"
    "finfos ?s0 (private_data s1 71) = None" "trfs_file_release sample_env 31 71 (s1\<lparr>klg := l2\<rparr>) = Some (0, s2)"
    "inode_call sample_env (Q_getattr 11) s2 = Some (r, s)" "klg s = l3"
    and fin: "traced s = [T_open (quiet_file 71) 0, T_close (quiet_file 71) 0]" "dinfos s = dinfos bare_vfs"
      "finfos s = Map.empty" "d_fsdata s = d_fsdata bare_vfs" "s_fs_info s = s_fs_info bare_vfs"
      "sinfos s = sinfos bare_vfs" "ko s = ko bare_vfs" by blast
  have "TRFS_F 71 ?s0 = None" by (simp add: TRFS_F_def bare_vfs_def bare_msys_def Let_def)
  then have "?reach s1" by (rule reach.open_file [OF reach.mounted _ s(1,3)])
  then have "?reach (s1\<lparr>klg := l2\<rparr>)" by (rule reach.writer) (simp add: s(2) log(2) sample_env_def)
  then have "?reach s" using s(4,5) by (blast intro: reach.close_file reach.inode_request)
  with fin s(6) l4 show ?thesis by blast
qed

lemma bare_life:
  obtains m1 s m2 where "bare_mount m1"
    and "reach (env0 sample_menv) (vwrite sample_menv) (\<lambda>_. True) all_on (thread_started sample_menv m1) s"
    and "traced s = [T_open (quiet_file 71) 0, T_close (quiet_file 71) 0]"
    and "dinfos (vs bare_msys) (d_fsdata (vs m1) (s_root (supers (ko (vs m1)) 52))) = None"
    and "shutdown_super sample_menv 9 52 (m1\<lparr>vs := s\<rparr>) = Some m2"
    and "dinfos (vs m2) = Map.empty" and "finfos (vs m2) = Map.empty"
proof -
  obtain m l0 where m: "bare_mount m" "thread_started sample_menv m = bare_vfs\<lparr>klg := l0\<rparr>" "trfs_kthread m = NULL"
    and l0: "log_inv l0" "next_id l0 = 1" "log_queue l0 = []" "pc (thr l0) = Head" by (rule bare_mounted)
  obtain s l4 where s: "reach sample_env sample_write (\<lambda>_. True) all_on (bare_vfs\<lparr>klg := l0\<rparr>) s"
    "traced s = [T_open (quiet_file 71) 0, T_close (quiet_file 71) 0]"
    and fields: "dinfos s = dinfos bare_vfs" "finfos s = Map.empty" "d_fsdata s = d_fsdata bare_vfs"
      "s_fs_info s = s_fs_info bare_vfs" "sinfos s = sinfos bare_vfs" "ko s = ko bare_vfs"
      "trfs_log_write_flush sample_write (klg s) = Some l4" using bare_run [OF l0] by blast
  have "\<exists>m2. shutdown_super sample_menv 9 52 (m\<lparr>vs := s\<rparr>) = Some m2 \<and> dinfos (vs m2) = Map.empty \<and>
      finfos (vs m2) = Map.empty"
    by (simp add: shutdown_super_def trfs_put_super_def trfs_exit_def trfs_d_release_def free_dentry_private_data_def
        trfs_log_write_close_def trfs_file_close_def trfs_set_lower_super_def fields m(3) bare_vfs_def sample_menv_def
        run_simps sample_simps)
  then obtain m2 where m2: "shutdown_super sample_menv 9 52 (m\<lparr>vs := s\<rparr>) = Some m2" "dinfos (vs m2) = Map.empty"
      "finfos (vs m2) = Map.empty" by blast
  have "dinfos (vs bare_msys) p = None" for p by (simp add: bare_msys_def)
  with that [OF m(1) _ s(2) _ m2] s(1) m(2) show ?thesis by (simp add: sample_menv_def)
qed

section \<open>Properties\<close>



text \<open>C22: A mount that succeeds, of a module that was just loaded, gives a sound log once the thread has
  started: the queues are open and empty, the trace file is open for writing at its beginning,
  the page is allocated, the first record will have number 2, nothing is in the trace, and every
  operation is switched on.\<close>

theorem mount_starts_the_log:
  assumes "stable (env0 C)" and "trfs_mount C sb dev raw m = Some (0, m1)" and "mq (klg (vs m)) = mq_boot"
    and "heap_wf (heap (klg (vs m)))" and "next_id (klg (vs m)) = 1" and "fresh_files C"
    and "kmal (env0 C) (requests (heap (klg (vs m)))) 4096 = Some pg" and "length pg = 4096"
  shows "\<exists>drv. log_inv (klg (thread_started C m1)) \<and> Log_Write.trace (klg (thread_started C m1)) = [] \<and>
    log_queue (klg (thread_started C m1)) = [] \<and> fst (get_next_record_id (klg (thread_started C m1))) = 2 \<and>
    tld (thread_started C m1) = Some drv \<and> all_on drv"
  using mounted_log [OF assms(1-4,6-8)] assms(5) by (simp add: get_next_record_id_def)

theorem mount_starts_the_log_witness:
  "\<exists>m drv. bare_mount m \<and> log_inv (klg (thread_started sample_menv m)) \<and>
     fst (get_next_record_id (klg (thread_started sample_menv m))) = 2 \<and>
     tld (thread_started sample_menv m) = Some drv \<and> all_on drv"
proof -
  obtain m where m: "bare_mount m" by (rule bare_mounted)
  from mount_starts_the_log [OF sample_roots(2) this bare_boot(1,2,4,5,6) length_replicate] m show ?thesis by blast
qed

end
