(* ===== verification/Locks.thy ===== *)
theory Locks
  imports Log_Write "HOL-Library.Sublist"
begin

section \<open>Callers and the thread, statement by statement\<close>

text \<open>
  Many processes trace their calls at once while the logging thread receives. In the other
  theories a call of \<open>get_next_record_id\<close>, \<open>trfsMqSend\<close> and \<open>trfsMqRecv\<close> is one step. Here each
  statement that touches shared memory is a step of its own (an increment is a load and a
  store), the two mutexes \<open>tlw.id_lock\<close> and \<open>tlw.q_lock\<close> are modelled, and the thread tests the
  counter without the lock, as the code does. The properties say that the two coincide for the
  queue: every interleaving delivers the messages in the order in which they were inserted, no
  access is out of bounds, nothing deadlocks. They do not for the record numbers, which are read
  after the lock has been released.
\<close>

section \<open>Definitions\<close>

subsection \<open>State\<close>

text \<open>
  Where a caller is: in \<open>get_next_record_id\<close>; then with the number \<open>n\<close> in \<open>trfsMqSend\<close> and
  \<open>trfsMqPutMsg\<close>. The other arguments are the local variables (\<open>wIndex\<close>, values loaded).
\<close>

datatype cpc =
    Id_lock \<comment> \<open>\<open>mutex_lock(&tlw.id_lock)\<close>\<close>
  | Id_load
  | Id_store u32
  | Id_unlock
  | Id_return \<comment> \<open>\<open>return id\<close>\<close>
  | Q_lock u32 \<comment> \<open>\<open>mutex_lock(&tlw.q_lock)\<close>\<close>
  | Put_full u32 \<comment> \<open>the test for a full queue\<close>
  | Put_index u32 \<comment> \<open>\<open>wIndex = node->writeIndex\<close>\<close>
  | Put_advance u32 int
  | Put_msg u32 int
  | Put_load u32
  | Put_store u32 int
  | Put_wake
  | Q_unlock

text \<open>Where the thread is, in \<open>trfsMqRecv\<close> and \<open>trfsMqGetMsg\<close>.\<close>

datatype rpc =
    Rc_wait \<comment> \<open>\<open>wait_event_interruptible\<close>\<close>
  | Rc_flag
  | Rc_counter \<comment> \<open>the test for a timeout\<close>
  | Rc_lock
  | Get_empty
  | Get_msg
  | Get_load trfsMqMsg
  | Get_store trfsMqMsg int
  | Get_advance trfsMqMsg
  | Rc_unlock
  | Rc_returned int \<comment> \<open>without a message\<close>

datatype agent = Caller nat | Thread

text \<open>
  \<open>sent\<close>, \<open>received\<close> and \<open>increments\<close> are history: the messages whose insertion and removal is
  complete, and the number of increments of the static variable.
\<close>

record shared =
  rec_id :: u32
  id_lock :: "nat option"
  q_lock :: "agent option"
  node :: trfs_mq_info
  callers :: "nat \<Rightarrow> cpc"
  reader :: rpc
  sent :: "trfsMqMsg list"
  received :: "trfsMqMsg list"
  increments :: nat

datatype outcome = Blocked | Faults | Goes shared

subsection \<open>Steps\<close>

definition at :: "nat \<Rightarrow> cpc \<Rightarrow> shared \<Rightarrow> outcome" where
  "at t p st = Goes (st\<lparr>callers := (callers st)(t := p)\<rparr>)"

definition on_node :: "(trfs_mq_info \<Rightarrow> trfs_mq_info) \<Rightarrow> shared \<Rightarrow> shared" where
  "on_node g st = st\<lparr>node := g (node st)\<rparr>"

definition set_counter :: "int \<Rightarrow> trfs_mq_info \<Rightarrow> trfs_mq_info" where
  "set_counter v q = q\<lparr>attr := (attr q)\<lparr>counter := v\<rparr>\<rparr>"

text \<open>\<open>get_next_record_id\<close>.\<close>

definition number_step :: "nat \<Rightarrow> shared \<Rightarrow> outcome" where
  "number_step t st =
     (case callers st t of
        Id_lock \<Rightarrow> if id_lock st \<noteq> None then Blocked else at t Id_load (st\<lparr>id_lock := Some t\<rparr>)
      | Id_load \<Rightarrow> at t (Id_store (rec_id st)) st
      | Id_store v \<Rightarrow> at t Id_unlock (st\<lparr>rec_id := v + 1, increments := Suc (increments st)\<rparr>)
      | Id_unlock \<Rightarrow> at t Id_return (st\<lparr>id_lock := None\<rparr>)
      | Id_return \<Rightarrow> at t (Q_lock (rec_id st)) st
      | _ \<Rightarrow> Blocked)"

text \<open>\<open>trfsMqPutMsg\<close>; \<open>m\<close> is the message.\<close>

definition put_step :: "(u32 \<Rightarrow> trfsMqMsg) \<Rightarrow> nat \<Rightarrow> shared \<Rightarrow> outcome" where
  "put_step m t st =
     (case callers st t of
        Put_full n \<Rightarrow>
          if counter (attr (node st)) = maxMsgs (attr (node st)) then at t Q_unlock st else at t (Put_index n) st
      | Put_index n \<Rightarrow> at t (Put_advance n (writeIndex (node st))) st
      | Put_advance n w \<Rightarrow>
          if maxMsgs (attr (node st)) = 0 then Faults
          else at t (Put_msg n w) (on_node (\<lambda>q. q\<lparr>writeIndex := (writeIndex q + 1) mod maxMsgs (attr q)\<rparr>) st)
      | Put_msg n w \<Rightarrow>
          if w < 0 \<or> int (length (msgs (node st))) \<le> w then Faults
          else at t (Put_load n) (on_node (\<lambda>q. q\<lparr>msgs := (msgs q)[nat w := m n]\<rparr>) st)
      | Put_load n \<Rightarrow> at t (Put_store n (counter (attr (node st)))) st
      | Put_store n v \<Rightarrow> at t Put_wake ((on_node (set_counter (v + 1)) st)\<lparr>sent := sent st @ [m n]\<rparr>)
      | Put_wake \<Rightarrow>
          at t Q_unlock (if counter (attr (node st)) \<ge> 1 then on_node (\<lambda>q. q\<lparr>wq := Suc (wq q)\<rparr>) st else st)
      | _ \<Rightarrow> Blocked)"

text \<open>The part of \<open>trfsMqSend\<close> from the lock on.\<close>

definition send_step :: "(u32 \<Rightarrow> trfsMqMsg) \<Rightarrow> nat \<Rightarrow> shared \<Rightarrow> outcome" where
  "send_step m t st =
     (case callers st t of
        Q_lock n \<Rightarrow> if q_lock st \<noteq> None then Blocked else at t (Put_full n) (st\<lparr>q_lock := Some (Caller t)\<rparr>)
      | Q_unlock \<Rightarrow> at t Id_lock (st\<lparr>q_lock := None\<rparr>)
      | _ \<Rightarrow> put_step m t st)"

text \<open>
  A caller: a number for the record, then the record is sent. \<open>mk t n\<close> is the message that caller
  \<open>t\<close> builds for the record with the number \<open>n\<close>.
\<close>

definition caller_step :: "(nat \<Rightarrow> u32 \<Rightarrow> trfsMqMsg) \<Rightarrow> nat \<Rightarrow> shared \<Rightarrow> outcome" where
  "caller_step mk t st =
     (case callers st t of
        Id_lock \<Rightarrow> number_step t st
      | Id_load \<Rightarrow> number_step t st
      | Id_store v \<Rightarrow> number_step t st
      | Id_unlock \<Rightarrow> number_step t st
      | Id_return \<Rightarrow> number_step t st
      | _ \<Rightarrow> send_step (mk t) t st)"

definition goto :: "rpc \<Rightarrow> shared \<Rightarrow> outcome" where
  "goto p st = Goes (st\<lparr>reader := p\<rparr>)"

text \<open>\<open>trfsMqGetMsg\<close>.\<close>

definition get_step :: "shared \<Rightarrow> outcome" where
  "get_step st =
     (case reader st of
        Get_empty \<Rightarrow>
          if counter (attr (node st)) = 0 then goto (Rc_returned TRFS_ERR_MQ_EMPTY) (st\<lparr>q_lock := None\<rparr>)
          else goto Get_msg st
      | Get_msg \<Rightarrow>
          if readIndex (node st) < 0 \<or> int (length (msgs (node st))) \<le> readIndex (node st) then Faults
          else goto (Get_load (msgs (node st) ! nat (readIndex (node st)))) st
      | Get_load m \<Rightarrow> goto (Get_store m (counter (attr (node st)))) st
      | Get_store m v \<Rightarrow> goto (Get_advance m) (on_node (set_counter (v - 1)) st)
      | Get_advance m \<Rightarrow>
          if maxMsgs (attr (node st)) = 0 then Faults
          else goto Rc_unlock ((on_node (\<lambda>q. q\<lparr>readIndex := (readIndex q + 1) mod maxMsgs (attr q)\<rparr>) st)
                 \<lparr>received := received st @ [m]\<rparr>)
      | _ \<Rightarrow> Blocked)"

text \<open>
  \<open>trfsMqRecv\<close> with \<open>timeOut = -1\<close>, as the thread calls it; no signal arrives. A queue that is
  found empty under the lock (the outcome \<open>TRFS_ERR_MQ_EMPTY\<close>) is where the thread stops in this
  model; the code would go on with an old length, and the property below excludes it.
\<close>

definition reader_step :: "shared \<Rightarrow> outcome" where
  "reader_step st =
     (case reader st of
        Rc_wait \<Rightarrow>
          if exit_flag (attr (node st)) = 1 \<or> counter (attr (node st)) \<noteq> 0 then goto Rc_flag st else Blocked
      | Rc_flag \<Rightarrow>
          if exit_flag (attr (node st)) = 1 then goto (Rc_returned TRFS_EXIT_WAITING_QUEUE) st else goto Rc_counter st
      | Rc_counter \<Rightarrow>
          if counter (attr (node st)) = 0 then goto (Rc_returned TRFS_FLUSH_TIMEOUT) st else goto Rc_lock st
      | Rc_lock \<Rightarrow> if q_lock st \<noteq> None then Blocked else goto Get_empty (st\<lparr>q_lock := Some Thread\<rparr>)
      | Rc_unlock \<Rightarrow> goto Rc_wait (st\<lparr>q_lock := None\<rparr>)
      | Rc_returned r \<Rightarrow> Blocked
      | _ \<Rightarrow> get_step st)"

fun agent_step :: "(nat \<Rightarrow> u32 \<Rightarrow> trfsMqMsg) \<Rightarrow> agent \<Rightarrow> shared \<Rightarrow> outcome" where
  "agent_step mk (Caller t) st = caller_step mk t st"
| "agent_step mk Thread st = reader_step st"

text \<open>All interleavings.\<close>

inductive runs :: "(nat \<Rightarrow> u32 \<Rightarrow> trfsMqMsg) \<Rightarrow> shared \<Rightarrow> shared \<Rightarrow> bool" for mk s0 where
  start: "runs mk s0 s0"
| step: "runs mk s0 s \<Longrightarrow> agent_step mk a s = Goes s' \<Longrightarrow> runs mk s0 s'"

text \<open>The state before the first call: nobody holds a lock, the queue \<open>q\<close> is the one of the log.\<close>

definition idle :: "u32 \<Rightarrow> trfs_mq_info \<Rightarrow> shared" where
  "idle n q = \<lparr>rec_id = n, id_lock = None, q_lock = None, node = q, callers = (\<lambda>_. Id_lock), reader = Rc_wait,
     sent = content q, received = [], increments = 0\<rparr>"

subsection \<open>Specification vocabulary\<close>

fun in_id :: "cpc \<Rightarrow> bool" where
  "in_id Id_load = True"
| "in_id (Id_store v) = True"
| "in_id Id_unlock = True"
| "in_id _ = False"

fun in_q :: "cpc \<Rightarrow> bool" where
  "in_q (Put_full n) = True"
| "in_q (Put_index n) = True"
| "in_q (Put_advance n w) = True"
| "in_q (Put_msg n w) = True"
| "in_q (Put_load n) = True"
| "in_q (Put_store n v) = True"
| "in_q Put_wake = True"
| "in_q Q_unlock = True"
| "in_q _ = False"

fun reads :: "rpc \<Rightarrow> bool" where
  "reads Get_empty = True"
| "reads Get_msg = True"
| "reads (Get_load m) = True"
| "reads (Get_store m v) = True"
| "reads (Get_advance m) = True"
| "reads Rc_unlock = True"
| "reads _ = False"

text \<open>Having seen a message, the thread has not removed it yet.\<close>

fun sees :: "rpc \<Rightarrow> bool" where
  "sees Rc_flag = True"
| "sees Rc_counter = True"
| "sees Rc_lock = True"
| "sees Get_empty = True"
| "sees Get_msg = True"
| "sees (Get_load m) = True"
| "sees (Get_store m v) = True"
| "sees (Get_advance m) = True"
| "sees _ = False"

text \<open>
  The node when the holder of the lock is at \<open>p\<close>, in terms of the node \<open>q\<close> it found, and what
  its local variables hold.
\<close>

fun put_upto :: "(u32 \<Rightarrow> trfsMqMsg) \<Rightarrow> cpc \<Rightarrow> trfs_mq_info \<Rightarrow> trfs_mq_info" where
  "put_upto mk (Put_msg n w) q = q\<lparr>writeIndex := (writeIndex q + 1) mod maxMsgs (attr q)\<rparr>"
| "put_upto mk (Put_load n) q =
     q\<lparr>writeIndex := (writeIndex q + 1) mod maxMsgs (attr q), msgs := (msgs q)[nat (writeIndex q) := mk n]\<rparr>"
| "put_upto mk (Put_store n v) q =
     q\<lparr>writeIndex := (writeIndex q + 1) mod maxMsgs (attr q), msgs := (msgs q)[nat (writeIndex q) := mk n]\<rparr>"
| "put_upto mk _ q = q"

fun put_locals :: "cpc \<Rightarrow> trfs_mq_info \<Rightarrow> bool" where
  "put_locals (Put_index n) q \<longleftrightarrow> counter (attr q) < maxMsgs (attr q)"
| "put_locals (Put_advance n w) q \<longleftrightarrow> counter (attr q) < maxMsgs (attr q) \<and> w = writeIndex q"
| "put_locals (Put_msg n w) q \<longleftrightarrow> counter (attr q) < maxMsgs (attr q) \<and> w = writeIndex q"
| "put_locals (Put_load n) q \<longleftrightarrow> counter (attr q) < maxMsgs (attr q)"
| "put_locals (Put_store n v) q \<longleftrightarrow> counter (attr q) < maxMsgs (attr q) \<and> v = counter (attr q)"
| "put_locals _ q \<longleftrightarrow> True"

fun get_upto :: "rpc \<Rightarrow> trfs_mq_info \<Rightarrow> trfs_mq_info" where
  "get_upto (Get_advance m) q = set_counter (counter (attr q) - 1) q"
| "get_upto _ q = q"

fun get_locals :: "rpc \<Rightarrow> trfs_mq_info \<Rightarrow> bool" where
  "get_locals (Get_load m) q \<longleftrightarrow> m = msgs q ! nat (readIndex q)"
| "get_locals (Get_store m v) q \<longleftrightarrow> m = msgs q ! nat (readIndex q) \<and> v = counter (attr q)"
| "get_locals (Get_advance m) q \<longleftrightarrow> m = msgs q ! nat (readIndex q)"
| "get_locals _ q \<longleftrightarrow> True"

fun half_done :: "(nat \<Rightarrow> u32 \<Rightarrow> trfsMqMsg) \<Rightarrow> agent option \<Rightarrow> shared \<Rightarrow> trfs_mq_info \<Rightarrow> bool" where
  "half_done mk None st q \<longleftrightarrow> node st = q"
| "half_done mk (Some (Caller t)) st q \<longleftrightarrow> node st = put_upto (mk t) (callers st t) q \<and> put_locals (callers st t) q"
| "half_done mk (Some Thread) st q \<longleftrightarrow> node st = get_upto (reader st) q \<and> get_locals (reader st) q"

definition locked :: "shared \<Rightarrow> bool" where
  "locked st \<longleftrightarrow> (\<forall>t. id_lock st = Some t \<longleftrightarrow> in_id (callers st t)) \<and>
     (\<forall>t. q_lock st = Some (Caller t) \<longleftrightarrow> in_q (callers st t)) \<and> (q_lock st = Some Thread \<longleftrightarrow> reads (reader st))"

definition counted :: "u32 \<Rightarrow> shared \<Rightarrow> bool" where
  "counted n st \<longleftrightarrow> rec_id st = n + of_nat (increments st) \<and> (\<forall>t v. callers st t = Id_store v \<longrightarrow> v = rec_id st)"

definition in_order :: "(nat \<Rightarrow> u32 \<Rightarrow> trfsMqMsg) \<Rightarrow> shared \<Rightarrow> trfs_mq_info \<Rightarrow> bool" where
  "in_order mk st q \<longleftrightarrow> node_inv q \<and> exit_flag (attr q) \<noteq> 1 \<and> sent st = received st @ content q \<and>
     half_done mk (q_lock st) st q \<and> (sees (reader st) \<longrightarrow> 0 < counter (attr q)) \<and> (\<forall>r. reader st \<noteq> Rc_returned r)"


section \<open>Lemmas\<close>

subsection \<open>The locks and the numbers\<close>

lemmas step_defs = caller_step_def number_step_def send_step_def put_step_def reader_step_def get_step_def
  at_def goto_def on_node_def

lemma lockedD:
  assumes "locked s"
  shows "id_lock s = Some t \<longleftrightarrow> in_id (callers s t)" "q_lock s = Some (Caller t) \<longleftrightarrow> in_q (callers s t)"
    "q_lock s = Some Thread \<longleftrightarrow> reads (reader s)"
  using assms by (simp_all add: locked_def)

lemma locked_step:
  assumes "locked s" and "agent_step mk a s = Goes s'"
  shows "locked s'"
proof (cases a)
  case (Caller t)
  note idl = lockedD(1) [OF assms(1)] and ql = lockedD(2) [OF assms(1)] and rl = lockedD(3) [OF assms(1)]
  have "id_lock s' = Some u \<longleftrightarrow> in_id (callers s' u)" for u
    using assms(2) Caller idl [of t] idl [of u]
    by (cases "callers s t"; cases "u = t") (simp_all add: step_defs split: if_splits, auto)
  moreover have "q_lock s' = Some (Caller u) \<longleftrightarrow> in_q (callers s' u)" for u
    using assms(2) Caller ql [of t] ql [of u]
    by (cases "callers s t"; cases "u = t") (simp_all add: step_defs split: if_splits, auto)
  moreover have "q_lock s' = Some Thread \<longleftrightarrow> reads (reader s')"
    using assms(2) Caller ql [of t] rl
    by (cases "callers s t") (simp_all add: step_defs split: if_splits, auto)
  ultimately show ?thesis by (simp add: locked_def)
next
  case Thread
  then show ?thesis using assms by (cases "reader s") (auto simp: locked_def step_defs split: if_splits)
qed

text \<open>No increment is lost.\<close>

lemma counted_step:
  assumes "locked s" and "counted n s" and "agent_step mk a s = Goes s'"
  shows "counted n s'"
proof (cases a)
  case (Caller t)
  have alone: "u = t" if "in_id (callers s t)" "in_id (callers s u)" for u
    using that assms(1) by (metis locked_def option.inject)
  show ?thesis
  proof (cases "callers s t")
    case (Id_store v)
    have "callers s u \<noteq> Id_store x" if "u \<noteq> t" for u x using alone [of u] that Id_store by auto
    then show ?thesis using assms(2,3) Caller Id_store by (auto simp: counted_def step_defs split: if_splits)
  qed (use assms(2,3) Caller in \<open>auto simp: counted_def step_defs split: if_splits\<close>)
next
  case Thread
  then show ?thesis using assms(2,3) by (cases "reader s") (auto simp: counted_def step_defs split: if_splits)
qed

subsection \<open>The queue\<close>

lemma wake_irrelevant: "node_inv (q\<lparr>wq := x\<rparr>) = node_inv q" "content (q\<lparr>wq := x\<rparr>) = content q"
  by (simp_all add: node_inv_def content_def)

lemma put_done:
  assumes "node_inv q" and "counter (attr q) < maxMsgs (attr q)"
  shows "node_inv (set_counter (counter (attr q) + 1) (put_upto mk (Put_load n) q))" (is "node_inv ?q")
    and "content (set_counter (counter (attr q) + 1) (put_upto mk (Put_load n) q)) = content q @ [mk n]"
proof -
  obtain q' where q': "trfsMqPutMsg (mk n) q = Some (0, q')" "node_inv q'" "content q' = content q @ [mk n]"
    using put_room_content [OF assms(1), of "mk n"] assms(2) by auto
  have "0 \<le> writeIndex q" "writeIndex q < maxMsgs (attr q)" "maxMsgs (attr q) \<le> int (length (msgs q))" "0 \<le> counter (attr q)"
    using assms(1) by (auto simp: node_inv_def)
  then have "q' = ?q\<lparr>wq := Suc (wq q)\<rparr>"
    using q'(1) assms(2) by (auto simp: trfsMqPutMsg_def set_counter_def Let_def)
  with q'(2,3) show "node_inv ?q" "content ?q = content q @ [mk n]" by (simp_all only: wake_irrelevant)
qed

lemma get_done:
  assumes "node_inv q" and "0 < counter (attr q)"
  shows "node_inv (set_counter (counter (attr q) - 1) q\<lparr>readIndex := (readIndex q + 1) mod maxMsgs (attr q)\<rparr>)"
    (is "node_inv ?q")
    and "content q = msgs q ! nat (readIndex q) # content (set_counter (counter (attr q) - 1) q
      \<lparr>readIndex := (readIndex q + 1) mod maxMsgs (attr q)\<rparr>)"
proof -
  obtain m ms where ms: "content q = m # ms"
    using content_nil_iff [OF assms(1)] assms(2) by (cases "content q") auto
  obtain q' where q': "trfsMqGetMsg False q = Some (0, Some m, q')" "node_inv q'" "content q' = ms"
    using get_next_content [OF assms(1) ms] by auto
  have "0 \<le> readIndex q" "readIndex q < maxMsgs (attr q)" "maxMsgs (attr q) \<le> int (length (msgs q))"
    using assms(1) by (auto simp: node_inv_def)
  then have "q' = ?q" "m = msgs q ! nat (readIndex q)"
    using q'(1) assms(2) by (auto simp: trfsMqGetMsg_def set_counter_def Let_def)
  with q'(2,3) ms show "node_inv ?q" "content q = msgs q ! nat (readIndex q) # content ?q" by simp_all
qed


lemma half_done_frame:
  assumes "half_done mk h s q" and "node s' = node s"
    and "\<And>u. h = Some (Caller u) \<Longrightarrow> callers s' u = callers s u" and "h = Some Thread \<Longrightarrow> reader s' = reader s"
  shows "half_done mk h s' q"
  using assms by (cases "(mk, h, s, q)" rule: half_done.cases) auto


text \<open>Inside the critical section: the step goes on with the insertion, or completes it.\<close>

lemma caller_in_order:
  assumes q: "in_order mk s q" and lk: "q_lock s = Some (Caller t)" "in_q (callers s t)"
    and step: "caller_step mk t s = Goes s'"
  shows "\<exists>q'. in_order mk s' q'"
proof -
  have inv: "node_inv q" "exit_flag (attr q) \<noteq> 1" "sent s = received s @ content q"
    "sees (reader s) \<longrightarrow> 0 < counter (attr q)" "\<forall>r. reader s \<noteq> Rc_returned r"
    and h: "node s = put_upto (mk t) (callers s t) q" "put_locals (callers s t) q"
    using q lk(1) by (simp_all add: in_order_def)
  have room: "counter (attr q) < maxMsgs (attr q)" if "counter (attr q) \<noteq> maxMsgs (attr q)"
    using inv(1) that by (simp add: node_inv_def)
  have same: "in_order mk s' q" if "node s' = put_upto (mk t) (callers s' t) q" "put_locals (callers s' t) q"
    "q_lock s' = Some (Caller t)" "sent s' = sent s" "received s' = received s" "reader s' = reader s"
    using that inv by (simp add: in_order_def)
  show ?thesis
  proof (cases "callers s t")
    case (Put_full n)
    then have "in_order mk s' q"
      using step h room lk(1) by (intro same) (auto simp: step_defs split: if_splits)
    then show ?thesis ..
  next
    case (Put_index n)
    then have "in_order mk s' q" using step h lk(1) by (intro same) (auto simp: step_defs)
    then show ?thesis ..
  next
    case (Put_advance n w)
    then have "in_order mk s' q" using step h lk(1) by (intro same) (auto simp: step_defs split: if_splits)
    then show ?thesis ..
  next
    case (Put_msg n w)
    then have "in_order mk s' q" using step h lk(1) by (intro same) (auto simp: step_defs split: if_splits)
    then show ?thesis ..
  next
    case (Put_load n)
    then have "in_order mk s' q" using step h lk(1) by (intro same) (auto simp: step_defs)
    then show ?thesis ..
  next
    case (Put_store n v)
    let ?q = "set_counter (counter (attr q) + 1) (put_upto (mk t) (Put_load n) q)"
    have "counter (attr q) < maxMsgs (attr q)" "v = counter (attr q)" using h Put_store by simp_all
    then have "in_order mk s' ?q"
      using step h lk(1) Put_store inv put_done [OF inv(1), of "mk t" n]
      by (auto simp: step_defs in_order_def set_counter_def)
    then show ?thesis ..
  next
    case Put_wake
    then have "in_order mk s' (q\<lparr>wq := Suc (wq q)\<rparr>) \<or> in_order mk s' q"
      using step h lk(1) inv by (auto simp: step_defs in_order_def wake_irrelevant split: if_splits)
    then show ?thesis by blast
  next
    case Q_unlock
    then have "in_order mk s' q" using step h lk(1) inv by (auto simp: step_defs in_order_def)
    then show ?thesis ..
  qed (use lk in simp_all)
qed

lemma caller_outside:
  assumes lk: "locked s" and q: "in_order mk s q" and out: "\<not> in_q (callers s t)"
    and step: "caller_step mk t s = Goes s'"
  shows "in_order mk s' q"
proof -
  have notme: "q_lock s \<noteq> Some (Caller t)" using lk out by (simp add: locked_def)
  have frame: "in_order mk s' q" if "node s' = node s" "q_lock s' = q_lock s" "\<And>u. u \<noteq> t \<Longrightarrow> callers s' u = callers s u"
    "sent s' = sent s" "received s' = received s" "reader s' = reader s"
  proof -
    have "half_done mk (q_lock s) s' q"
      by (rule half_done_frame) (use q that notme in \<open>auto simp: in_order_def\<close>)
    then show ?thesis using q that by (simp add: in_order_def)
  qed
  show ?thesis
  proof (cases "callers s t")
    case (Q_lock n)
    then have "q_lock s = None" "s' = s\<lparr>q_lock := Some (Caller t), callers := (callers s)(t := Put_full n)\<rparr>"
      using step by (auto simp: step_defs split: if_splits)
    then show ?thesis using q by (auto simp: in_order_def)
  qed (rule frame; use step out in \<open>auto simp: step_defs split: if_splits\<close>)+
qed

text \<open>What the thread reads without the lock is what the last complete insertion or removal left.\<close>

lemma attr_seen:
  assumes "half_done mk h s q" and "h \<noteq> Some Thread"
  shows "attr (node s) = attr q"
proof -
  have "attr (put_upto f p q) = attr q" for f p by (cases p) simp_all
  with assms show ?thesis by (cases "(mk, h, s, q)" rule: half_done.cases) auto
qed

lemma reader_outside:
  assumes lk: "locked s" and q: "in_order mk s q" and out: "\<not> reads (reader s)" and step: "reader_step s = Goes s'"
  shows "in_order mk s' q"
proof -
  have free: "q_lock s \<noteq> Some Thread" using lk out by (simp add: locked_def)
  have half: "half_done mk (q_lock s) s q" and inv: "node_inv q" using q by (simp_all add: in_order_def)
  have a: "attr (node s) = attr q" using half free by (rule attr_seen)
  have pos: "0 \<le> counter (attr q)" using inv by (simp add: node_inv_def)
  have frame: "half_done mk (q_lock s) (s\<lparr>reader := p\<rparr>) q" for p
    using half by (rule half_done_frame) (use free in simp_all)
  show ?thesis
  proof (cases "reader s")
    case Rc_lock
    then have "q_lock s = None" "s' = s\<lparr>q_lock := Some Thread, reader := Get_empty\<rparr>"
      using step by (auto simp: step_defs split: if_splits)
    then show ?thesis using q Rc_lock by (auto simp: in_order_def)
  qed (use step out q a pos frame in \<open>auto simp: step_defs in_order_def split: if_splits\<close>)
qed

lemma reader_inside:
  assumes lk: "locked s" and q: "in_order mk s q" and ins: "reads (reader s)" and step: "reader_step s = Goes s'"
  shows "\<exists>q'. in_order mk s' q'"
proof -
  have th: "q_lock s = Some Thread" using lk ins by (simp add: locked_def)
  have h: "node s = get_upto (reader s) q" "get_locals (reader s) q" and inv: "node_inv q"
    and seen: "sees (reader s) \<Longrightarrow> 0 < counter (attr q)"
    using q th by (simp_all add: in_order_def)
  show ?thesis
  proof (cases "reader s")
    case (Get_advance m)
    then have "in_order mk s' (set_counter (counter (attr q) - 1) q\<lparr>readIndex := (readIndex q + 1) mod maxMsgs (attr q)\<rparr>)"
      using step q h th seen get_done [OF inv]
      by (auto simp: step_defs in_order_def set_counter_def split: if_splits)
    then show ?thesis ..
  next
    case (Get_store m v)
    then have "in_order mk s' q" using step q h th seen by (auto simp: step_defs in_order_def)
    then show ?thesis ..
  next
    case Rc_unlock
    then have "in_order mk s' q" using step q h th by (auto simp: step_defs in_order_def)
    then show ?thesis ..
  next
    case Get_empty
    then have "in_order mk s' q" using step q h th seen by (auto simp: step_defs in_order_def split: if_splits)
    then show ?thesis ..
  next
    case Get_msg
    then have "in_order mk s' q" using step q h th seen by (auto simp: step_defs in_order_def split: if_splits)
    then show ?thesis ..
  next
    case (Get_load m)
    then have "in_order mk s' q" using step q h th seen by (auto simp: step_defs in_order_def)
    then show ?thesis ..
  qed (use ins in simp_all)
qed

subsection \<open>Every interleaving\<close>

lemma runs_inv:
  assumes "runs mk (idle n q0) s" and "node_inv q0" and "exit_flag (attr q0) \<noteq> 1"
  shows "locked s \<and> counted n s \<and> (\<exists>q. in_order mk s q)"
  using assms(1)
proof (induction rule: runs.induct)
  case start
  have "in_order mk (idle n q0) q0" using assms(2,3) by (simp add: in_order_def idle_def)
  then show ?case by (auto simp: locked_def counted_def idle_def)
next
  case (step s a s')
  then obtain q where lk: "locked s" and c: "counted n s" and q: "in_order mk s q" by blast
  have "\<exists>q'. in_order mk s' q'"
  proof (cases a)
    case (Caller t)
    then have "caller_step mk t s = Goes s'" using step.hyps(2) by simp
    moreover have "in_q (callers s t) \<Longrightarrow> q_lock s = Some (Caller t)" using lk by (simp add: locked_def)
    ultimately show ?thesis using caller_in_order [OF q] caller_outside [OF lk q] by blast
  next
    case Thread
    then have "reader_step s = Goes s'" using step.hyps(2) by simp
    then show ?thesis using reader_inside [OF lk q] reader_outside [OF lk q] by blast
  qed
  then show ?case using locked_step [OF lk step.hyps(2)] counted_step [OF lk c step.hyps(2)] by simp
qed


lemma step_safe:
  assumes "locked s" and "in_order mk s q"
  shows "agent_step mk a s \<noteq> Faults"
proof (cases a)
  case (Caller t)
  have h: "in_q (callers s t) \<Longrightarrow> node s = put_upto (mk t) (callers s t) q \<and> put_locals (callers s t) q"
    using assms(2) lockedD(2) [OF assms(1), of t] by (simp add: in_order_def)
  have "node_inv q" using assms(2) by (simp add: in_order_def)
  then have "0 < maxMsgs (attr q)" "0 \<le> writeIndex q" "writeIndex q < int (length (msgs q))"
    by (auto simp: node_inv_def intro: less_le_trans [OF pos_mod_bound])
  then show ?thesis using h Caller by (cases "callers s t") (auto simp: step_defs)
next
  case Thread
  have h: "reads (reader s) \<Longrightarrow> node s = get_upto (reader s) q \<and> get_locals (reader s) q"
    using assms(2) lockedD(3) [OF assms(1)] by (simp add: in_order_def)
  have "node_inv q" using assms(2) by (simp add: in_order_def)
  then show ?thesis
    using h Thread by (cases "reader s") (auto simp: step_defs node_inv_def set_counter_def)
qed

lemma step_possible:
  assumes "locked s"
  shows "\<exists>a. agent_step mk a s \<noteq> Blocked"
proof (cases "id_lock s")
  case (Some t)
  then have "in_id (callers s t)" using lockedD(1) [OF assms] by simp
  then have "agent_step mk (Caller t) s \<noteq> Blocked" by (cases "callers s t") (auto simp: step_defs)
  then show ?thesis ..
next
  case id: None
  show ?thesis
  proof (cases "q_lock s")
    case None
    then have "agent_step mk (Caller 0) s \<noteq> Blocked" using id by (cases "callers s 0") (auto simp: step_defs)
    then show ?thesis ..
  next
    case (Some a)
    have "agent_step mk a s \<noteq> Blocked"
    proof (cases a)
      case (Caller t)
      then have "in_q (callers s t)" using Some lockedD(2) [OF assms] by simp
      then show ?thesis using Caller by (cases "callers s t") (auto simp: step_defs)
    next
      case Thread
      then have "reads (reader s)" using Some lockedD(3) [OF assms] by simp
      then show ?thesis using Thread by (cases "reader s") (auto simp: step_defs)
    qed
    then show ?thesis ..
  qed
qed

text \<open>A caller that is not disturbed up to the end of its critical section.\<close>

lemma number_counted:
  assumes "runs mk s0 s" and "callers s t = Id_lock" and "id_lock s = None"
  shows "runs mk s0 (s\<lparr>rec_id := rec_id s + 1, increments := Suc (increments s), callers := (callers s)(t := Id_return)\<rparr>)"
proof -
  have "runs mk s0 (s\<lparr>id_lock := Some t, callers := (callers s)(t := Id_load)\<rparr>)"
    by (rule runs.step [OF assms(1), of "Caller t"]) (simp add: step_defs assms)
  then have "runs mk s0 (s\<lparr>id_lock := Some t, callers := (callers s)(t := Id_store (rec_id s))\<rparr>)"
    by (rule runs.step [of _ _ _ "Caller t"]) (simp add: step_defs)
  then have "runs mk s0 (s\<lparr>rec_id := rec_id s + 1, id_lock := Some t, callers := (callers s)(t := Id_unlock),
      increments := Suc (increments s)\<rparr>)"
    by (rule runs.step [of _ _ _ "Caller t"]) (simp add: step_defs)
  then show ?thesis
    by (rule runs.step [of _ _ _ "Caller t"]) (simp add: step_defs assms)
qed

text \<open>An undisturbed critical section is a call of the function of the theory \<open>Msgq\<close>.\<close>

fun alone :: "(nat \<Rightarrow> u32 \<Rightarrow> trfsMqMsg) \<Rightarrow> agent \<Rightarrow> nat \<Rightarrow> shared \<Rightarrow> outcome" where
  "alone mk a 0 st = Goes st"
| "alone mk a (Suc k) st = (case agent_step mk a st of Goes st' \<Rightarrow> alone mk a k st' | r \<Rightarrow> r)"

lemma put_section:
  assumes "callers s t = Q_lock n" and "q_lock s = None" and "node_inv (node s)"
  shows "\<exists>r q. trfsMqPutMsg (mk t n) (node s) = Some (r, q) \<and>
    alone mk (Caller t) (if r = 0 then 9 else 3) s =
      Goes (s\<lparr>callers := (callers s)(t := Id_lock), node := q, sent := sent s @ (if r = 0 then [mk t n] else [])\<rparr>)"
proof -
  let ?q = "node s"
  have w: "0 < maxMsgs (attr ?q)" "0 \<le> writeIndex ?q" "writeIndex ?q < int (length (msgs ?q))" "0 \<le> counter (attr ?q)"
    using assms(3) by (auto simp: node_inv_def intro: less_le_trans [OF pos_mod_bound])
  show ?thesis
    using assms(1,2) w
    by (auto simp: trfsMqPutMsg_def step_defs set_counter_def Let_def numeral_eq_Suc)
qed

lemma get_section:
  assumes "reader s = Rc_lock" and "q_lock s = None" and "node_inv (node s)" and "counter (attr (node s)) \<noteq> 0"
  shows "\<exists>m q. trfsMqGetMsg False (node s) = Some (0, Some m, q) \<and>
    alone mk Thread 7 s = Goes (s\<lparr>reader := Rc_wait, node := q, received := received s @ [m]\<rparr>)"
proof -
  let ?q = "node s"
  have w: "0 < maxMsgs (attr ?q)" "0 \<le> readIndex ?q" "readIndex ?q < int (length (msgs ?q))"
    using assms(3) by (auto simp: node_inv_def)
  show ?thesis
    using assms(1,2,4) w
    by (auto simp: trfsMqGetMsg_def step_defs set_counter_def Let_def numeral_eq_Suc)
qed

text \<open>The queue of the log, after the queues have been created.\<close>

lemma log_node: "\<exists>q. node_inv q \<and> exit_flag (attr q) \<noteq> 1"
  using log_queue_created queue_of_inv by (fastforce simp: log_q_ready_def)

section \<open>Properties\<close>



text \<open>C15: Record numbers are counted without loss but need not be different. The static variable is always
  its first value plus the number of increments. But the number is read after the lock has been
  released: for any two callers there is an interleaving in which both get the second of the two
  numbers, and the first is used by nobody.\<close>

theorem record_numbers_repeat:
  assumes "node_inv q0" and "exit_flag (attr q0) \<noteq> 1" and "t \<noteq> u"
  shows "(\<forall>s. runs mk (idle n q0) s \<longrightarrow> rec_id s = n + of_nat (increments s)) \<and>
    (\<exists>s. runs mk (idle n q0) s \<and> increments s = 2 \<and> callers s t = Q_lock (n + 2) \<and> callers s u = Q_lock (n + 2))"
proof -
  let ?s1 = "(idle n q0)\<lparr>rec_id := n + 1, increments := 1, callers := (\<lambda>_. Id_lock)(t := Id_return)\<rparr>"
  let ?s2 = "?s1\<lparr>rec_id := n + 2, increments := 2, callers := (\<lambda>_. Id_lock)(t := Id_return, u := Id_return)\<rparr>"
  have "runs mk (idle n q0) ?s1"
    using number_counted [OF runs.start, of "idle n q0" t mk] by (simp add: idle_def)
  from number_counted [OF this, of u] assms(3) have "runs mk (idle n q0) ?s2"
    by (simp add: idle_def numeral_2_eq_2 add.assoc)
  then have "runs mk (idle n q0) (?s2\<lparr>callers := (callers ?s2)(t := Q_lock (n + 2))\<rparr>)"
    by (rule runs.step [of _ _ _ "Caller t"]) (use assms(3) in \<open>simp add: step_defs\<close>)
  then have "runs mk (idle n q0) (?s2\<lparr>callers := (callers ?s2)(t := Q_lock (n + 2), u := Q_lock (n + 2))\<rparr>)"
    by (rule runs.step [of _ _ _ "Caller u"]) (use assms(3) in \<open>simp add: step_defs\<close>)
  moreover have "rec_id s = n + of_nat (increments s)" if "runs mk (idle n q0) s" for s
    using runs_inv [OF that assms(1,2)] by (simp add: counted_def)
  ultimately show ?thesis
    using assms(3) by (intro conjI allI impI exI [of _ "?s2\<lparr>callers := (callers ?s2)(t := Q_lock (n + 2), u := Q_lock (n + 2))\<rparr>"])
      simp_all
qed


theorem record_numbers_repeat_witness:
  "\<exists>q0 s. node_inv q0 \<and> runs (\<lambda>t n. \<lparr>msg_pri = 0, msg_len = 4, msg_data = t\<rparr>) (idle 1 q0) s \<and>
     callers s 7 = Q_lock 3 \<and> callers s 8 = Q_lock 3"
proof -
  obtain q0 where q0: "node_inv q0" "exit_flag (attr q0) \<noteq> 1" using log_node by blast
  have "7 \<noteq> (8 :: nat)" by simp
  from record_numbers_repeat [OF q0 this, where n = 1 and mk = "\<lambda>t n. \<lparr>msg_pri = 0, msg_len = 4, msg_data = t\<rparr>"] q0(1)
  show ?thesis by auto
qed


text \<open>C16: Statement by statement or call by call: a caller that takes the lock of the queue and is not
  disturbed does to the queue what \<open>trfsMqPutMsg\<close> does, in nine steps, or in three when the queue
  is full; the thread does what \<open>trfsMqGetMsg\<close> does, in seven.\<close>

theorem critical_sections_are_calls:
  assumes "q_lock s = None" and "node_inv (node s)"
  shows "(callers s t = Q_lock n \<longrightarrow> (\<exists>r q. trfsMqPutMsg (mk t n) (node s) = Some (r, q) \<and>
      alone mk (Caller t) (if r = 0 then 9 else 3) s =
        Goes (s\<lparr>callers := (callers s)(t := Id_lock), node := q, sent := sent s @ (if r = 0 then [mk t n] else [])\<rparr>))) \<and>
    (reader s = Rc_lock \<and> counter (attr (node s)) \<noteq> 0 \<longrightarrow>
      (\<exists>m q. trfsMqGetMsg False (node s) = Some (0, Some m, q) \<and>
        alone mk Thread 7 s = Goes (s\<lparr>reader := Rc_wait, node := q, received := received s @ [m]\<rparr>)))"
  using put_section [OF _ assms] get_section [OF _ assms] by blast

theorem critical_sections_are_calls_witness:
  "\<exists>q0 r q. node_inv q0 \<and> trfsMqPutMsg \<lparr>msg_pri = 0, msg_len = 4, msg_data = 7\<rparr> q0 = Some (r, q) \<and>
     alone (\<lambda>t n. \<lparr>msg_pri = 0, msg_len = 4, msg_data = t\<rparr>) (Caller 7) (if r = 0 then 9 else 3)
       ((idle 1 q0)\<lparr>callers := (\<lambda>_. Id_lock)(7 := Q_lock 5)\<rparr>) =
     Goes ((idle 1 q0)\<lparr>callers := (\<lambda>_. Id_lock), node := q,
       sent := content q0 @ (if r = 0 then [\<lparr>msg_pri = 0, msg_len = 4, msg_data = 7\<rparr>] else [])\<rparr>)"
proof -
  obtain q0 where q0: "node_inv q0" using log_node by blast
  let ?s = "(idle 1 q0)\<lparr>callers := (\<lambda>_. Id_lock)(7 := Q_lock 5)\<rparr>"
  let ?mk = "\<lambda>t n. \<lparr>msg_pri = 0, msg_len = 4, msg_data = t\<rparr> :: trfsMqMsg"
  have "q_lock ?s = None" "node_inv (node ?s)" using q0 by (simp_all add: idle_def)
  from critical_sections_are_calls [OF this, of 7 5 ?mk]
  have "\<exists>r q. trfsMqPutMsg (?mk 7 5) q0 = Some (r, q) \<and> alone ?mk (Caller 7) (if r = 0 then 9 else 3) ?s =
      Goes (?s\<lparr>callers := (callers ?s)(7 := Id_lock), node := q, sent := sent ?s @ (if r = 0 then [?mk 7 5] else [])\<rparr>)"
    by (simp only: idle_def shared.simps fun_upd_same simp_thms)
  then obtain r q where "trfsMqPutMsg (?mk 7 5) q0 = Some (r, q)"
    "alone ?mk (Caller 7) (if r = 0 then 9 else 3) ?s =
      Goes (?s\<lparr>callers := (callers ?s)(7 := Id_lock), node := q, sent := sent ?s @ (if r = 0 then [?mk 7 5] else [])\<rparr>)"
    by blast
  moreover have "?s\<lparr>callers := (callers ?s)(7 := Id_lock), node := q, sent := sent ?s @ (if r = 0 then [?mk 7 5] else [])\<rparr> =
      (idle 1 q0)\<lparr>callers := (\<lambda>_. Id_lock), node := q, sent := content q0 @ (if r = 0 then [?mk 7 5] else [])\<rparr>"
    by (simp add: idle_def fun_upd_idem)
  ultimately show ?thesis using q0 by (intro exI [of _ q0] exI [of _ r] exI [of _ q]) (simp only: simp_thms)
qed

end
