(* ===== verification/Omap.thy ===== *)
theory Omap
  imports Prelude
begin

section \<open>The map of open files (Userland/trfs_ops.c)\<close>

text \<open>
  The replayer keeps, for every file the trace has opened and not yet closed, which descriptor
  the replayed \<open>open\<close> returned. The map is a singly linked list: its nodes are cells of memory,
  linked by pointers, reached from the global \<open>omap\<close>. The operations here follow the pointers
  the way the C code does; a null or freed pointer is a memory fault (\<open>None\<close>).

  Loops over the list carry fuel. The fuel is the number of allocations made so far plus one;
  a list without cycles has no more nodes than that (\<open>chain_short\<close>), so it is always enough,
  and the lemmas are about results, never about runs that ended for lack of fuel.

  The contract that the replay handlers rely on is the locale \<open>fd_table\<close>; the linked list is
  shown to satisfy it by an interpretation.
\<close>

subsection \<open>Data\<close>

record trfs_omap_list =
  o_fd :: int
  o_addr :: nat
  o_pid :: int
  o_next :: ptr

record omem =
  omap :: ptr
  cells :: "ptr \<rightharpoonup> trfs_omap_list"
  mallocs :: nat

definition set_next :: "ptr \<Rightarrow> ptr \<Rightarrow> (ptr \<rightharpoonup> trfs_omap_list) \<Rightarrow> (ptr \<rightharpoonup> trfs_omap_list) option" where
  "set_next p q c = (case c p of None \<Rightarrow> None | Some n \<Rightarrow> Some (c(p \<mapsto> n\<lparr>o_next := q\<rparr>)))"

subsection \<open>Operations\<close>

text \<open>The loop of \<open>trfs_omap_add_op\<close>: the last node reachable from \<open>temp\<close>.\<close>

fun omap_last :: "nat \<Rightarrow> (ptr \<rightharpoonup> trfs_omap_list) \<Rightarrow> ptr \<Rightarrow> ptr option" where
  "omap_last 0 c temp = None"
| "omap_last (Suc k) c temp =
     (case c temp of
        None \<Rightarrow> None
      | Some n \<Rightarrow> if o_next n \<noteq> NULL then omap_last k c (o_next n) else Some temp)"

definition trfs_omap_add_op :: "ptr \<Rightarrow> omem \<Rightarrow> omem option" where
  "trfs_omap_add_op node m =
     (if omap m = NULL then
        (case set_next node NULL (cells m) of
           None \<Rightarrow> None
         | Some c \<Rightarrow> Some (m\<lparr>omap := node, cells := c\<rparr>))
      else
        case omap_last (Suc (mallocs m)) (cells m) (omap m) of
          None \<Rightarrow> None
        | Some temp \<Rightarrow>
            (case set_next temp node (cells m) of
               None \<Rightarrow> None
             | Some c \<Rightarrow>
                 (case set_next node NULL c of
                    None \<Rightarrow> None
                  | Some c' \<Rightarrow> Some (m\<lparr>cells := c'\<rparr>))))"

text \<open>\<open>free\<close> of a node.\<close>

definition free_node :: "ptr \<Rightarrow> (ptr \<rightharpoonup> trfs_omap_list) \<Rightarrow> (ptr \<rightharpoonup> trfs_omap_list) option" where
  "free_node p c = (if p = NULL then Some c else if c p = None then None else Some (c(p := None)))"

text \<open>The loop of \<open>trfs_omap_delete_op\<close>; \<open>prev\<close> is not initialised when it starts.\<close>

fun omap_unlink ::
  "nat \<Rightarrow> nat \<Rightarrow> int \<Rightarrow> (ptr \<rightharpoonup> trfs_omap_list) \<Rightarrow> ptr option \<Rightarrow> ptr \<Rightarrow> (ptr \<rightharpoonup> trfs_omap_list) option" where
  "omap_unlink 0 addr pid c prev temp = None"
| "omap_unlink (Suc k) addr pid c prev temp =
     (if temp = NULL then Some c
      else case c temp of
             None \<Rightarrow> None
           | Some n \<Rightarrow>
               if o_addr n = addr \<and> o_pid n = pid then
                 (case prev of
                    None \<Rightarrow> None
                  | Some p \<Rightarrow>
                      (case set_next p (o_next n) c of
                         None \<Rightarrow> None
                       | Some c' \<Rightarrow> free_node temp c'))
               else omap_unlink k addr pid c (Some temp) (o_next n))"

definition trfs_omap_delete_op :: "nat \<Rightarrow> int \<Rightarrow> omem \<Rightarrow> omem option" where
  "trfs_omap_delete_op addr pid m =
     (if omap m = NULL then Some m
      else case cells m (omap m) of
             None \<Rightarrow> None
           | Some n \<Rightarrow>
               if o_addr n = addr \<and> o_pid n = pid then
                 (case free_node (omap m) (cells m) of
                    None \<Rightarrow> None
                  | Some c \<Rightarrow> Some (m\<lparr>omap := o_next n, cells := c\<rparr>))
               else
                 (case omap_unlink (Suc (mallocs m)) addr pid (cells m) None (omap m) of
                    None \<Rightarrow> None
                  | Some c \<Rightarrow> Some (m\<lparr>cells := c\<rparr>)))"

text \<open>Destroying the list frees its nodes; the global \<open>omap\<close> keeps its value.\<close>

fun omap_destroy :: "nat \<Rightarrow> (ptr \<rightharpoonup> trfs_omap_list) \<Rightarrow> ptr \<Rightarrow> (ptr \<rightharpoonup> trfs_omap_list) option" where
  "omap_destroy 0 c temp = None"
| "omap_destroy (Suc k) c temp =
     (if temp = NULL then Some c
      else case c temp of
             None \<Rightarrow> None
           | Some n \<Rightarrow>
               (case free_node temp c of None \<Rightarrow> None | Some c' \<Rightarrow> omap_destroy k c' (o_next n)))"

definition trfs_omap_destroy_list :: "omem \<Rightarrow> omem option" where
  "trfs_omap_destroy_list m =
     (case omap_destroy (Suc (mallocs m)) (cells m) (omap m) of
        None \<Rightarrow> None
      | Some c \<Rightarrow> Some (m\<lparr>cells := c\<rparr>))"

fun omap_find :: "nat \<Rightarrow> nat \<Rightarrow> int \<Rightarrow> (ptr \<rightharpoonup> trfs_omap_list) \<Rightarrow> ptr \<Rightarrow> int option" where
  "omap_find 0 addr pid c temp = None"
| "omap_find (Suc k) addr pid c temp =
     (if temp = NULL then Some (-1)
      else case c temp of
             None \<Rightarrow> None
           | Some n \<Rightarrow>
               if o_addr n = addr \<and> o_pid n = pid then Some (o_fd n)
               else omap_find k addr pid c (o_next n))"

definition trfs_omap_getfd :: "nat \<Rightarrow> int \<Rightarrow> omem \<Rightarrow> int option" where
  "trfs_omap_getfd addr pid m = omap_find (Suc (mallocs m)) addr pid (cells m) (omap m)"

text \<open>
  The macro \<open>OMAP_OP\<close>: allocate a node, fill it in, append it. \<open>mok k\<close> says whether the
  \<open>k\<close>-th allocation succeeds; writing through the null pointer is a fault.
\<close>

definition OMAP_OP :: "(nat \<Rightarrow> bool) \<Rightarrow> int \<Rightarrow> nat \<Rightarrow> int \<Rightarrow> omem \<Rightarrow> omem option" where
  "OMAP_OP mok a b c m =
     (let node = Suc (mallocs m); m' = m\<lparr>mallocs := Suc (mallocs m)\<rparr> in
      if mok (mallocs m) then
        trfs_omap_add_op node
          (m'\<lparr>cells := (cells m)(node \<mapsto> \<lparr>o_fd = a, o_addr = b, o_pid = c, o_next = NULL\<rparr>)\<rparr>)
      else None)"

subsection \<open>Specification vocabulary\<close>

text \<open>A path of pointers from \<open>p\<close> to \<open>q\<close>.\<close>

fun chain :: "(ptr \<rightharpoonup> trfs_omap_list) \<Rightarrow> ptr \<Rightarrow> ptr list \<Rightarrow> ptr \<Rightarrow> bool" where
  "chain c p [] q = (p = q)"
| "chain c p (a # as) q =
     (p = a \<and> a \<noteq> NULL \<and> (case c a of None \<Rightarrow> False | Some n \<Rightarrow> chain c (o_next n) as q))"

type_synonym fd_entry = "(nat \<times> int) \<times> int"

definition entry_of :: "trfs_omap_list \<Rightarrow> fd_entry" where
  "entry_of n = ((o_addr n, o_pid n), o_fd n)"

definition omap_repr :: "omem \<Rightarrow> ptr list \<Rightarrow> fd_entry list \<Rightarrow> bool" where
  "omap_repr m ps es \<longleftrightarrow>
     chain (cells m) (omap m) ps NULL \<and> distinct ps \<and>
     (\<forall>p \<in> dom (cells m). 0 < p \<and> p \<le> mallocs m) \<and> map (\<lambda>p. map_option entry_of (cells m p)) ps = map Some es"

definition omap_abs :: "omem \<Rightarrow> fd_entry list \<Rightarrow> bool" where
  "omap_abs m es \<longleftrightarrow> (\<exists>ps. omap_repr m ps es)"

text \<open>The map as a list of entries: the first entry of a key counts, a missing key gives -1.\<close>

definition tab_get :: "nat \<Rightarrow> int \<Rightarrow> fd_entry list \<Rightarrow> int" where
  "tab_get a p es = (case map_of es (a, p) of Some fd \<Rightarrow> fd | None \<Rightarrow> - 1)"

fun tab_del :: "nat \<times> int \<Rightarrow> fd_entry list \<Rightarrow> fd_entry list" where
  "tab_del k [] = []"
| "tab_del k (e # es) = (if fst e = k then es else e # tab_del k es)"

lemma tab_del_map_of:
  "distinct (map fst es) \<Longrightarrow> map_of (tab_del k es) k' = (if k' = k then None else map_of es k')"
  by (induction es) (auto simp: map_of_eq_None_iff split: if_splits)

text \<open>The contract of a descriptor table.\<close>

locale fd_table =
  fixes rel :: "'m \<Rightarrow> fd_entry list \<Rightarrow> bool"
    and add :: "int \<Rightarrow> nat \<Rightarrow> int \<Rightarrow> 'm \<Rightarrow> 'm option"
    and del :: "nat \<Rightarrow> int \<Rightarrow> 'm \<Rightarrow> 'm option"
    and get :: "nat \<Rightarrow> int \<Rightarrow> 'm \<Rightarrow> int option"
  assumes add_rel: "rel m es \<Longrightarrow> \<exists>m'. add fd a p m = Some m' \<and> rel m' (es @ [((a, p), fd)])"
    and del_rel: "rel m es \<Longrightarrow> \<exists>m'. del a p m = Some m' \<and> rel m' (tab_del (a, p) es)"
    and get_rel: "rel m es \<Longrightarrow> get a p m = Some (tab_get a p es)"
begin

text \<open>A file that was not in the table has, once opened, the descriptor of that \<open>open\<close>.\<close>

lemma get_after_add:
  assumes "rel m es" and "(a, p) \<notin> fst ` set es"
  shows "\<exists>m'. add fd a p m = Some m' \<and> get a p m' = Some fd"
proof -
  obtain m' where "add fd a p m = Some m'" "rel m' (es @ [((a, p), fd)])"
    using add_rel [OF assms(1)] by blast
  moreover have "map_of es (a, p) = None" using assms(2) by (simp add: map_of_eq_None_iff)
  ultimately show ?thesis using get_rel by (auto simp: tab_get_def map_add_def)
qed

text \<open>Opening one file does not change the descriptor of another.\<close>

lemma get_other_add:
  assumes "rel m es" and "(a', p') \<noteq> (a, p)"
  shows "\<exists>m'. add fd a p m = Some m' \<and> get a' p' m' = get a' p' m"
proof -
  obtain m' where m': "add fd a p m = Some m'" "rel m' (es @ [((a, p), fd)])"
    using add_rel [OF assms(1)] by blast
  then show ?thesis
    using get_rel [OF m'(2), of a' p'] get_rel [OF assms(1), of a' p'] assms(2)
    by (auto simp: tab_get_def map_add_def split: option.splits)
qed

text \<open>Closing a file that was opened once removes it and leaves the others.\<close>

lemma get_after_del:
  assumes "rel m es" and "distinct (map fst es)"
  shows "\<exists>m'. del a p m = Some m' \<and> get a p m' = Some (- 1) \<and>
    (\<forall>a' p'. (a', p') \<noteq> (a, p) \<longrightarrow> get a' p' m' = get a' p' m)"
proof -
  obtain m' where m': "del a p m = Some m'" "rel m' (tab_del (a, p) es)"
    using del_rel [OF assms(1)] by blast
  have "get a p m' = Some (- 1)"
    using get_rel [OF m'(2)] tab_del_map_of [OF assms(2)] by (simp add: tab_get_def)
  moreover have "get a' p' m' = get a' p' m" if "(a', p') \<noteq> (a, p)" for a' p'
    using get_rel [OF m'(2), of a' p'] get_rel [OF assms(1), of a' p'] that
    unfolding tab_get_def tab_del_map_of [OF assms(2)] by auto
  ultimately show ?thesis using m'(1) by blast
qed

end

section \<open>Lemmas\<close>

subsection \<open>Paths\<close>

lemma chain_append: "chain c p (as @ bs) q \<longleftrightarrow> (\<exists>r. chain c p as r \<and> chain c r bs q)"
  by (induction as arbitrary: p) (auto split: option.splits)

lemma chain_null: "chain c NULL as NULL \<longleftrightarrow> as = []"
  by (cases as) auto

lemma chain_cong: "(\<And>a. a \<in> set as \<Longrightarrow> c' a = c a) \<Longrightarrow> chain c' p as q = chain c p as q"
  by (induction as arbitrary: p) (auto split: option.splits)

lemma chain_upd [simp]: "a \<notin> set as \<Longrightarrow> chain (c(a := v)) p as q = chain c p as q"
  by (rule chain_cong) auto

lemma chain_dom: "chain c p as q \<Longrightarrow> set as \<subseteq> dom c"
  by (induction as arbitrary: p) (auto split: option.splits)

lemma chain_short:
  assumes "chain c p as q" and "distinct as" and "\<forall>a \<in> dom c. 0 < a \<and> a \<le> n"
  shows "length as \<le> n"
proof -
  have "x \<in> {1..n}" if "x \<in> set as" for x
    using chain_dom [OF assms(1)] assms(3) that by (metis Suc_le_eq One_nat_def atLeastAtMost_iff subsetD)
  then have "set as \<subseteq> {1..n}" by blast
  then have "card (set as) \<le> card {1..n}" by (intro card_mono) simp_all
  then show ?thesis using assms(2) by (simp add: distinct_card)
qed

lemma omap_last_chain:
  "chain c p (as @ [a]) NULL \<Longrightarrow> length as < k \<Longrightarrow> omap_last k c p = Some a"
proof (induction as arbitrary: p k)
  case Nil
  then show ?case by (cases k) (auto split: option.splits)
next
  case (Cons b as)
  then obtain k' where k: "k = Suc k'" by (cases k) auto
  from Cons.prems obtain n where n: "p = b" "c b = Some n" "chain c (o_next n) (as @ [a]) NULL"
    by (auto split: option.splits)
  then have "o_next n \<noteq> NULL" by (cases as) auto
  with Cons.IH [OF n(3), of k'] Cons.prems(2) n k show ?case by simp
qed

lemma omap_find_chain:
  assumes "chain c p as NULL" and "map (\<lambda>p. map_option entry_of (c p)) as = map Some es" and "length as < k"
  shows "omap_find k a q c p = Some (tab_get a q es)"
  using assms
proof (induction as arbitrary: p k es)
  case Nil
  then show ?case by (cases k) (auto simp: tab_get_def)
next
  case (Cons b as)
  then obtain k' where k: "k = Suc k'" by (cases k) auto
  from Cons.prems obtain n e es' where n: "p = b" "b \<noteq> NULL" "c b = Some n" "chain c (o_next n) as NULL"
    "es = entry_of n # es'" "map (\<lambda>p. map_option entry_of (c p)) as = map Some es'"
    by (auto split: option.splits)
  with Cons.IH [OF n(4,6), of k'] Cons.prems(3) k show ?case
    by (auto simp: tab_get_def entry_of_def)
qed

subsection \<open>Appending a node\<close>

lemma map_upd_notin: "x \<notin> set as \<Longrightarrow> map (\<lambda>q. f ((c(x := v)) q)) as = map (\<lambda>q. f (c q)) as"
  by auto

lemma set_next_entries:
  "set_next p q c = Some c' \<Longrightarrow> map_option entry_of (c' x) = map_option entry_of (c x)"
  by (auto simp: set_next_def entry_of_def split: option.splits if_splits)

lemma set_next_Some: "c p = Some n \<Longrightarrow> set_next p q c = Some (c(p \<mapsto> n\<lparr>o_next := q\<rparr>))"
  by (simp add: set_next_def)

lemma add_repr:
  assumes "omap_repr m ps es" and "node = Suc (mallocs m)"
    and c: "c = (cells m)(node \<mapsto> \<lparr>o_fd = fd, o_addr = a, o_pid = p, o_next = NULL\<rparr>)"
  shows "\<exists>m'. trfs_omap_add_op node (m\<lparr>mallocs := Suc (mallocs m), cells := c\<rparr>) = Some m' \<and>
    omap_repr m' (ps @ [node]) (es @ [((a, p), fd)])"
proof -
  let ?new = "\<lparr>o_fd = fd, o_addr = a, o_pid = p, o_next = NULL\<rparr>"
  have ch: "chain (cells m) (omap m) ps NULL" "distinct ps" and
    dom: "\<forall>q \<in> dom (cells m). 0 < q \<and> q \<le> mallocs m" and
    es: "map (\<lambda>q. map_option entry_of (cells m q)) ps = map Some es"
    using assms(1) by (auto simp: omap_repr_def)
  have fresh: "node \<notin> set ps" "node \<noteq> NULL"
  proof -
    show "node \<notin> set ps"
      using chain_dom [OF ch(1)] dom assms(2) by (meson Suc_n_not_le_n subsetD)
  qed (simp add: assms(2))
  have chc: "chain c (omap m) ps NULL" using ch(1) fresh(1) by (simp add: c)
  have esc: "map (\<lambda>q. map_option entry_of (c q)) (ps @ [node]) = map Some (es @ [((a, p), fd)])"
    using es fresh(1) by (simp add: c map_upd_notin del: fun_upd_apply) (simp add: entry_of_def)
  have domc: "\<forall>q \<in> dom c. 0 < q \<and> q \<le> Suc (mallocs m)"
  proof
    fix q assume "q \<in> dom c"
    then have "q = node \<or> q \<in> dom (cells m)" by (auto simp: c split: if_splits)
    then show "0 < q \<and> q \<le> Suc (mallocs m)" using dom assms(2) le_SucI by blast
  qed
  show ?thesis
  proof (cases ps rule: rev_cases)
    case Nil
    with ch(1) have "omap m = NULL" by simp
    moreover have "set_next node NULL c = Some c" by (simp add: set_next_def c)
    ultimately show ?thesis using Nil fresh esc domc
      by (simp add: trfs_omap_add_op_def omap_repr_def c)
  next
    case (snoc qs z)
    then obtain n where n: "c z = Some n" "chain c (omap m) qs z" "z \<noteq> NULL"
      using chc by (auto simp: chain_append split: option.splits)
    have last: "omap_last (Suc (Suc (mallocs m))) c (omap m) = Some z"
      using chc chain_short [OF ch dom] snoc by (intro omap_last_chain) auto
    have nn: "omap m \<noteq> NULL" using n(2,3) by (cases qs) auto
    have zq: "z \<notin> set qs" "z \<noteq> node" using ch(2) snoc fresh by auto
    define c' where "c' = c(z \<mapsto> n\<lparr>o_next := node\<rparr>)"
    have s1: "set_next z node c = Some c'" by (simp add: set_next_def n(1) c'_def)
    have s2: "set_next node NULL c' = Some c'" using zq by (auto simp: set_next_def c'_def c)
    have "chain c' (omap m) (ps @ [node]) NULL"
      using n zq fresh snoc by (simp add: chain_append c'_def c)
    moreover have "map (\<lambda>q. map_option entry_of (c' q)) (ps @ [node]) = map Some (es @ [((a, p), fd)])"
      using esc set_next_entries [OF s1] by simp
    moreover have "dom c' = dom c" using n(1) by (auto simp: c'_def)
    ultimately show ?thesis
      using nn last s1 s2 domc ch(2) fresh(1) by (simp add: trfs_omap_add_op_def omap_repr_def)
  qed
qed

lemma OMAP_OP_abs:
  assumes "omap_abs m es" and "mok (mallocs m)"
  shows "\<exists>m'. OMAP_OP mok fd a p m = Some m' \<and> omap_abs m' (es @ [((a, p), fd)])"
proof -
  obtain ps where "omap_repr m ps es" using assms(1) by (auto simp: omap_abs_def)
  from add_repr [OF this refl refl] assms(2) show ?thesis
    by (fastforce simp: OMAP_OP_def omap_abs_def)
qed

subsection \<open>Deleting and destroying\<close>

lemma getfd_abs:
  assumes "omap_abs m es"
  shows "trfs_omap_getfd a p m = Some (tab_get a p es)"
proof -
  obtain ps where ps: "omap_repr m ps es" using assms by (auto simp: omap_abs_def)
  then have "length ps < Suc (mallocs m)"
    using chain_short [of "cells m" "omap m" ps NULL "mallocs m"] by (simp add: omap_repr_def)
  with ps show ?thesis
    unfolding trfs_omap_getfd_def by (intro omap_find_chain) (auto simp: omap_repr_def)
qed

text \<open>The loop unlinks the first matching node behind the nodes it has passed.\<close>

lemma unlink_chain:
  assumes "chain c p (qs @ [z] @ as) NULL" and "distinct (qs @ [z] @ as)"
    and "map (\<lambda>q. map_option entry_of (c q)) as = map Some es" and "length as < k" and "c z = Some nz"
  shows "\<exists>c' as'. omap_unlink k a i c (Some z) (o_next nz) = Some c' \<and>
    chain c' p (qs @ [z] @ as') NULL \<and> distinct (qs @ [z] @ as') \<and> set as' \<subseteq> set as \<and>
    dom c' \<subseteq> dom c \<and> (\<forall>x \<in> set (qs @ [z]). map_option entry_of (c' x) = map_option entry_of (c x)) \<and>
    map (\<lambda>q. map_option entry_of (c' q)) as' = map Some (tab_del (a, i) es)"
  using assms
proof (induction as arbitrary: qs z nz es k)
  case Nil
  then obtain k' where "k = Suc k'" by (cases k) auto
  with Nil show ?case
    by (intro exI [of _ c] exI [of _ "[]"]) (auto simp: chain_append)
next
  case (Cons b as)
  then obtain k' where k: "k = Suc k'" by (cases k) auto
  from Cons.prems obtain nb es' where nb: "o_next nz = b" "b \<noteq> NULL" "c b = Some nb"
    "chain c (o_next nb) as NULL" "es = entry_of nb # es'" "chain c p qs z" "z \<noteq> NULL"
    "map (\<lambda>q. map_option entry_of (c q)) as = map Some es'"
    by (auto simp: chain_append split: option.splits)
  have dist: "z \<notin> set qs" "b \<notin> set qs" "b \<noteq> z" "z \<notin> set as" "b \<notin> set as"
    using Cons.prems(2) by auto
  show ?case
  proof (cases "o_addr nb = a \<and> o_pid nb = i")
    case True
    define c' where "c' = c(z \<mapsto> nz\<lparr>o_next := o_next nb\<rparr>, b := None)"
    have "omap_unlink k a i c (Some z) (o_next nz) = Some c'"
      using True nb dist Cons.prems(5) by (simp add: k set_next_def free_node_def c'_def)
    moreover have "chain c' p (qs @ [z] @ as) NULL"
      using nb dist by (simp add: chain_append c'_def)
    moreover have "map (\<lambda>q. map_option entry_of (c' q)) as = map Some (tab_del (a, i) es)"
      using nb(5,8) dist True by (simp add: c'_def entry_of_def map_upd_notin del: fun_upd_apply)
    moreover have "\<forall>x \<in> set (qs @ [z]). map_option entry_of (c' x) = map_option entry_of (c x)"
      using dist Cons.prems(5) by (auto simp: c'_def entry_of_def)
    moreover have "dom c' \<subseteq> dom c" using Cons.prems(5) by (auto simp: c'_def split: if_splits)
    ultimately show ?thesis using Cons.prems(2) by (intro exI [of _ c'] exI [of _ as]) auto
  next
    case False
    obtain c' as' where IH: "omap_unlink k' a i c (Some b) (o_next nb) = Some c'"
      "chain c' p ((qs @ [z]) @ [b] @ as') NULL" "distinct ((qs @ [z]) @ [b] @ as')"
      "set as' \<subseteq> set as" "dom c' \<subseteq> dom c"
      "\<forall>x \<in> set ((qs @ [z]) @ [b]). map_option entry_of (c' x) = map_option entry_of (c x)"
      "map (\<lambda>q. map_option entry_of (c' q)) as' = map Some (tab_del (a, i) es')"
      using Cons.IH [of "qs @ [z]" b es' k' nb] Cons.prems nb(3,8) k by fastforce
    have "omap_unlink k a i c (Some z) (o_next nz) = Some c'" using False nb IH(1) k by auto
    moreover have "map (\<lambda>q. map_option entry_of (c' q)) (b # as') = map Some (tab_del (a, i) es)"
      using IH(6,7) False nb(3,5) by (auto simp: entry_of_def)
    ultimately show ?thesis using IH by (intro exI [of _ c'] exI [of _ "b # as'"]) auto
  qed
qed

lemma delete_abs:
  assumes "omap_abs m es"
  shows "\<exists>m'. trfs_omap_delete_op a i m = Some m' \<and> omap_abs m' (tab_del (a, i) es)"
proof -
  obtain ps where ch: "chain (cells m) (omap m) ps NULL" "distinct ps" and
    dom: "\<forall>q \<in> dom (cells m). 0 < q \<and> q \<le> mallocs m" and
    es: "map (\<lambda>q. map_option entry_of (cells m q)) ps = map Some es"
    using assms by (auto simp: omap_abs_def omap_repr_def)
  show ?thesis
  proof (cases ps)
    case Nil
    with assms ch es show ?thesis by (simp add: trfs_omap_delete_op_def)
  next
    case (Cons z as)
    then obtain n es' where n: "omap m = z" "z \<noteq> NULL" "cells m z = Some n"
      "chain (cells m) (o_next n) as NULL" "es = entry_of n # es'"
      "map (\<lambda>q. map_option entry_of (cells m q)) as = map Some es'"
      using ch(1) es by (auto split: option.splits)
    have z: "z \<notin> set as" using ch(2) Cons by simp
    show ?thesis
    proof (cases "o_addr n = a \<and> o_pid n = i")
      case True
      define m' where "m' = m\<lparr>omap := o_next n, cells := (cells m)(z := None)\<rparr>"
      have "trfs_omap_delete_op a i m = Some m'"
        using True n by (simp add: trfs_omap_delete_op_def free_node_def m'_def)
      moreover have "omap_repr m' as es'"
        using n z ch(2) dom Cons
        by (simp add: m'_def omap_repr_def map_upd_notin del: fun_upd_apply)
      ultimately show ?thesis using True n(5) by (auto simp: omap_abs_def entry_of_def)
    next
      case False
      obtain k' where k': "Suc (mallocs m) = Suc k'" "length as < k'"
        using chain_short [OF ch dom] Cons by auto
      obtain c' as' where c': "omap_unlink k' a i (cells m) (Some z) (o_next n) = Some c'"
        "chain c' z ([z] @ as') NULL" "distinct ([z] @ as')" "dom c' \<subseteq> dom (cells m)"
        "map_option entry_of (c' z) = map_option entry_of (cells m z)"
        "map (\<lambda>q. map_option entry_of (c' q)) as' = map Some (tab_del (a, i) es')"
        using unlink_chain [of "cells m" z "[]" z as es' k' n a i] ch n k'(2) Cons by auto
      have "trfs_omap_delete_op a i m = Some (m\<lparr>cells := c'\<rparr>)"
        using False n c'(1) k'(1) by (auto simp: trfs_omap_delete_op_def)
      moreover have "omap_repr (m\<lparr>cells := c'\<rparr>) (z # as') (tab_del (a, i) es)"
        using c' n dom False by (auto simp: omap_repr_def entry_of_def)
      ultimately show ?thesis by (auto simp: omap_abs_def)
    qed
  qed
qed

text \<open>Destroying a list frees exactly its nodes.\<close>

lemma destroy_chain:
  assumes "chain c p as NULL" and "distinct as" and "length as < k"
  shows "\<exists>c'. omap_destroy k c p = Some c' \<and> dom c' = dom c - set as"
  using assms
proof (induction as arbitrary: c p k)
  case Nil
  then show ?case by (cases k) auto
next
  case (Cons b as)
  then obtain k' n where k: "k = Suc k'" and n: "p = b" "b \<noteq> NULL" "c b = Some n"
    "chain c (o_next n) as NULL" by (cases k) (auto split: option.splits)
  have "chain (c(b := None)) (o_next n) as NULL" using n(4) Cons.prems(2) by (simp del: fun_upd_apply)
  moreover have "distinct as" "length as < k'" using Cons.prems(2,3) k by simp_all
  ultimately obtain c' where
    "omap_destroy k' (c(b := None)) (o_next n) = Some c'" "dom c' = dom (c(b := None)) - set as"
    using Cons.IH by blast
  with n k show ?case by (auto simp: free_node_def)
qed

lemma destroy_abs:
  assumes "omap_repr m ps es"
  shows "\<exists>m'. trfs_omap_destroy_list m = Some m' \<and> dom (cells m') = dom (cells m) - set ps"
proof -
  have ch: "chain (cells m) (omap m) ps NULL" "distinct ps"
    and dom: "\<forall>q \<in> dom (cells m). 0 < q \<and> q \<le> mallocs m" using assms by (auto simp: omap_repr_def)
  have "length ps < Suc (mallocs m)" using chain_short [OF ch dom] by simp
  from destroy_chain [OF ch this] show ?thesis by (auto simp: trfs_omap_destroy_list_def)
qed

text \<open>The linked list is a descriptor table, as long as memory lasts.\<close>

interpretation omap_table: fd_table omap_abs "OMAP_OP (\<lambda>_. True)" trfs_omap_delete_op trfs_omap_getfd
  by unfold_locales (simp_all add: OMAP_OP_abs delete_abs getfd_abs)

section \<open>Properties\<close>

text \<open>The empty map.\<close>

definition empty_omem :: omem where
  "empty_omem = \<lparr>omap = NULL, cells = Map.empty, mallocs = 0\<rparr>"

lemma empty_omem_abs: "omap_abs empty_omem []"
  by (auto simp: omap_abs_def omap_repr_def empty_omem_def intro: exI [of _ "[]"])

text \<open>C28: The linked list of open files implements a list of entries: adding appends an entry, deleting
  removes the first entry of the file, looking up finds the first entry of the file or gives -1,
  and none of them meets a null or freed pointer.\<close>

theorem file_map_refines_list:
  assumes "omap_abs m es"
  shows "(\<exists>m'. OMAP_OP (\<lambda>_. True) fd a p m = Some m' \<and> omap_abs m' (es @ [((a, p), fd)])) \<and>
    (\<exists>m'. trfs_omap_delete_op a p m = Some m' \<and> omap_abs m' (tab_del (a, p) es)) \<and>
    trfs_omap_getfd a p m = Some (tab_get a p es)"
  using omap_table.add_rel [OF assms] omap_table.del_rel [OF assms] omap_table.get_rel [OF assms] by blast

theorem file_map_refines_list_witness:
  "\<exists>m. OMAP_OP (\<lambda>_. True) 3 1000 7 empty_omem = Some m \<and> omap_abs m [((1000, 7), 3)]"
  using file_map_refines_list [OF empty_omem_abs, of 3 1000 7] by simp

text \<open>C29: A file that was not open is found under the descriptor of its \<open>open\<close>; after the
  \<open>close\<close> it is not found any more; other files keep their descriptors throughout.\<close>

theorem descriptor_lives_from_open_to_close:
  assumes "omap_abs m es" and "distinct (map fst es)" and "(a, p) \<notin> fst ` set es"
  shows "\<exists>m1 m2. OMAP_OP (\<lambda>_. True) fd a p m = Some m1 \<and> trfs_omap_getfd a p m1 = Some fd \<and>
    trfs_omap_delete_op a p m1 = Some m2 \<and> trfs_omap_getfd a p m2 = Some (- 1) \<and>
    (\<forall>a' p'. (a', p') \<noteq> (a, p) \<longrightarrow>
       trfs_omap_getfd a' p' m1 = trfs_omap_getfd a' p' m \<and> trfs_omap_getfd a' p' m2 = trfs_omap_getfd a' p' m)"
proof -
  obtain m1 where m1: "OMAP_OP (\<lambda>_. True) fd a p m = Some m1" "omap_abs m1 (es @ [((a, p), fd)])"
    using omap_table.add_rel [OF assms(1)] by blast
  have "distinct (map fst (es @ [((a, p), fd)]))" using assms(2,3) by auto
  from omap_table.get_after_del [OF m1(2) this, of a p] obtain m2 where
    m2: "trfs_omap_delete_op a p m1 = Some m2" "trfs_omap_getfd a p m2 = Some (- 1)"
    "\<And>a' p'. (a', p') \<noteq> (a, p) \<Longrightarrow> trfs_omap_getfd a' p' m2 = trfs_omap_getfd a' p' m1" by blast
  have "trfs_omap_getfd a p m1 = Some fd"
    using omap_table.get_after_add [OF assms(1,3), of fd] m1(1) by simp
  moreover have "trfs_omap_getfd a' p' m1 = trfs_omap_getfd a' p' m" if "(a', p') \<noteq> (a, p)" for a' p'
    using omap_table.get_other_add [OF assms(1) that, of fd] m1(1) by simp
  ultimately show ?thesis using m1(1) m2 by metis
qed

theorem descriptor_lives_from_open_to_close_witness:
  "\<exists>m1 m2. OMAP_OP (\<lambda>_. True) 3 1000 7 empty_omem = Some m1 \<and> trfs_omap_getfd 1000 7 m1 = Some 3 \<and>
     trfs_omap_delete_op 1000 7 m1 = Some m2 \<and> trfs_omap_getfd 1000 7 m2 = Some (- 1)"
  using descriptor_lives_from_open_to_close [OF empty_omem_abs, of 1000 7 3] by auto

text \<open>C30: Destroying the map at the end of a replay frees every node of the list exactly once and
  nothing else.\<close>

theorem destroy_frees_the_list:
  assumes "omap_repr m ps es"
  shows "\<exists>m'. trfs_omap_destroy_list m = Some m' \<and> dom (cells m') = dom (cells m) - set ps"
  using assms by (rule destroy_abs)

theorem destroy_frees_the_list_witness:
  "\<exists>m m'. OMAP_OP (\<lambda>_. True) 3 1000 7 empty_omem = Some m \<and> trfs_omap_destroy_list m = Some m' \<and>
     cells m' = Map.empty"
proof -
  have "omap_repr empty_omem [] []" by (simp add: omap_repr_def empty_omem_def)
  from add_repr [OF this refl refl, of 3 1000 7] obtain m where
    m: "OMAP_OP (\<lambda>_. True) 3 1000 7 empty_omem = Some m" "omap_repr m [1] [((1000, 7), 3)]"
    by (auto simp: OMAP_OP_def empty_omem_def)
  from m(1) have "dom (cells m) = {1}"
    by (auto simp: OMAP_OP_def empty_omem_def trfs_omap_add_op_def set_next_def split: if_splits)
  with destroy_frees_the_list [OF m(2)] m(1) show ?thesis by auto
qed

end
