(* ===== verification/Replay_Ops.thy ===== *)
theory Replay_Ops
  imports Omap Structs
begin

section \<open>The replay handlers (Userland/trfs_ops.c, Userland/trfs_ops.h)\<close>

text \<open>
  For each type of record the replayer has a handler that reads the fields of the record and
  makes the system call. A handler gets the memory from the start of the record to the end of the
  page buffer, because it is given a pointer into that buffer: a string that is not terminated
  inside the buffer, a field that is outside of it and a copy that overruns a local array are
  memory faults.

  The operating system is a parameter: \<open>kern s c\<close> is the return value of the system call
  \<open>c\<close> in the state \<open>s\<close> of the system, and the state afterwards. So is what the stack holds
  where a local array is not initialised: \<open>stk k\<close> in the \<open>k\<close>-th handler call.
\<close>

subsection \<open>System calls and the state of the replayer\<close>

datatype syscall =
    Sys_mkdir bytes nat
  | Sys_rmdir bytes
  | Sys_link bytes bytes
  | Sys_symlink bytes bytes
  | Sys_unlink bytes
  | Sys_rename bytes bytes
  | Sys_open bytes int nat
  | Sys_read int nat
  | Sys_write int bytes
  | Sys_close int

type_synonym 's kern = "'s \<Rightarrow> syscall \<Rightarrow> int \<times> 's"

text \<open>
  \<open>verdicts\<close> collects what \<open>MAP_RETVAL\<close> printed: \<open>True\<close> for \<open>Success\<close>, \<open>False\<close> for
  \<open>Failure\<close>.
\<close>

record 's rstate =
  om :: omem
  gflags :: int
  os :: 's
  verdicts :: "bool list"

text \<open>A run ends with a memory fault, with \<open>exit(0)\<close>, or normally.\<close>

datatype 'a res = Fault | Exits 'a | Done 'a

definition sys :: "'s kern \<Rightarrow> syscall \<Rightarrow> 's rstate \<Rightarrow> int \<times> 's rstate" where
  "sys kern c st = (let (r, s) = kern (os st) c in (int32 r, st\<lparr>os := s\<rparr>))"

text \<open>The macro \<open>MAP_RETVAL\<close>, followed by the rest \<open>k\<close> of the handler.\<close>

definition MAP_RETVAL :: "bool \<Rightarrow> ('s rstate \<Rightarrow> 's rstate res) \<Rightarrow> 's rstate \<Rightarrow> 's rstate res" where
  "MAP_RETVAL same k st =
     (let st = st\<lparr>verdicts := verdicts st @ [same]\<rparr> in
      if same then (if gflags st = 1 then Done st else k st)
      else (if gflags st = 2 then Exits st else k st))"

subsection \<open>Reading a record\<close>

definition get_nat :: "cstruct \<Rightarrow> field \<Rightarrow> bytes \<Rightarrow> nat option" where
  "get_nat S f blk = map_option le_dec (load (offsetof S f) (fieldsize S f) blk)"

definition get_int :: "cstruct \<Rightarrow> field \<Rightarrow> bytes \<Rightarrow> int option" where
  "get_int S f blk = map_option sle_dec (load (offsetof S f) (fieldsize S f) blk)"

text \<open>A string that starts at an offset: it must end inside the memory.\<close>

definition cstring :: "nat \<Rightarrow> bytes \<Rightarrow> bytes option" where
  "cstring off blk = (if 0 \<in> set (drop off blk) then Some (cstr (drop off blk)) else None)"

text \<open>
  \<open>memcpy\<close> of \<open>n\<close> bytes into a local array of 256 bytes, and the string the array then
  holds: with a terminating zero written behind the bytes, or with what was on the stack there.
\<close>

definition local_terminated :: "nat \<Rightarrow> nat \<Rightarrow> bytes \<Rightarrow> bytes option" where
  "local_terminated off n blk =
     (if n < 256 then map_option cstr (load off n blk) else None)"

definition local_open :: "bytes \<Rightarrow> nat \<Rightarrow> nat \<Rightarrow> bytes \<Rightarrow> bytes option" where
  "local_open stack off n blk =
     (if n \<le> 256 then
        (case load off n blk of None \<Rightarrow> None | Some d \<Rightarrow> cstring 0 (d @ drop n (take 256 stack)))
      else None)"

subsection \<open>The handlers\<close>

definition trfs_run_mkdir_op :: "'s kern \<Rightarrow> bytes \<Rightarrow> 's rstate \<Rightarrow> 's rstate res" where
  "trfs_run_mkdir_op kern op st =
     (case (cstring (offsetof u_trfs_mkdir_op F_pathname) op, get_nat u_trfs_mkdir_op F_mode op,
            get_int u_trfs_mkdir_op F_ret op) of
        (Some pathname, Some mode, Some oret) \<Rightarrow>
          let (ret, st) = sys kern (Sys_mkdir pathname mode) st in
          MAP_RETVAL (ret = oret) Done st
      | _ \<Rightarrow> Fault)"

definition trfs_run_rmdir_op :: "'s kern \<Rightarrow> bytes \<Rightarrow> 's rstate \<Rightarrow> 's rstate res" where
  "trfs_run_rmdir_op kern op st =
     (case (cstring (offsetof u_trfs_rmdir_op F_pathname) op, get_int u_trfs_rmdir_op F_ret op) of
        (Some pathname, Some oret) \<Rightarrow>
          let (ret, st) = sys kern (Sys_rmdir pathname) st in
          MAP_RETVAL (ret = oret) Done st
      | _ \<Rightarrow> Fault)"

definition trfs_run_link_op :: "'s kern \<Rightarrow> bytes \<Rightarrow> 's rstate \<Rightarrow> 's rstate res" where
  "trfs_run_link_op kern op st =
     (case (get_nat u_trfs_link_op F_plen op, get_nat u_trfs_link_op F_hlen op,
            get_int u_trfs_link_op F_ret op) of
        (Some plen, Some hlen, Some oret) \<Rightarrow>
          (let path = offsetof u_trfs_link_op F_pathname in
           case (local_terminated path plen op, local_terminated (path + plen) hlen op) of
             (Some p1, Some p2) \<Rightarrow>
               let (ret, st) = sys kern (Sys_link p1 p2) st in
               MAP_RETVAL (ret = oret) Done st
           | _ \<Rightarrow> Fault)
      | _ \<Rightarrow> Fault)"

definition trfs_run_symlink_op :: "'s kern \<Rightarrow> bytes \<Rightarrow> 's rstate \<Rightarrow> 's rstate res" where
  "trfs_run_symlink_op kern op st =
     (case (get_nat u_trfs_symlink_op F_plen op, get_nat u_trfs_symlink_op F_slen op,
            get_int u_trfs_symlink_op F_ret op) of
        (Some plen, Some slen, Some oret) \<Rightarrow>
          (let path = offsetof u_trfs_symlink_op F_pathname in
           case (local_terminated path plen op, local_terminated (path + plen) slen op) of
             (Some p1, Some p2) \<Rightarrow>
               let (ret, st) = sys kern (Sys_symlink p2 p1) st in
               MAP_RETVAL (ret = oret) Done st
           | _ \<Rightarrow> Fault)
      | _ \<Rightarrow> Fault)"

definition trfs_run_unlink_op :: "'s kern \<Rightarrow> bytes \<Rightarrow> 's rstate \<Rightarrow> 's rstate res" where
  "trfs_run_unlink_op kern op st =
     (case (cstring (offsetof u_trfs_unlink_op F_pathname) op, get_int u_trfs_unlink_op F_ret op) of
        (Some pathname, Some oret) \<Rightarrow>
          let (ret, st) = sys kern (Sys_unlink pathname) st in
          MAP_RETVAL (ret = oret) Done st
      | _ \<Rightarrow> Fault)"

definition trfs_run_trunct_op :: "bytes \<Rightarrow> 's rstate \<Rightarrow> 's rstate res" where
  "trfs_run_trunct_op op st = Done st"

text \<open>The first array is not terminated.\<close>

definition trfs_run_rename_op ::
  "'s kern \<Rightarrow> (nat \<Rightarrow> bytes) \<Rightarrow> bytes \<Rightarrow> 's rstate \<Rightarrow> 's rstate res" where
  "trfs_run_rename_op kern stk op st =
     (case (get_nat u_trfs_rename_op F_len1 op, get_nat u_trfs_rename_op F_len2 op,
            get_int u_trfs_rename_op F_ret op) of
        (Some len1, Some len2, Some oret) \<Rightarrow>
          (let path = offsetof u_trfs_rename_op F_pathname1 in
           case (local_open (stk (length (verdicts st))) path len1 op,
                 local_terminated (path + len1) len2 op) of
             (Some p1, Some p2) \<Rightarrow>
               let (ret, st) = sys kern (Sys_rename p1 p2) st in
               MAP_RETVAL (ret = oret) Done st
           | _ \<Rightarrow> Fault)
      | _ \<Rightarrow> Fault)"

text \<open>The \<open>printf\<close> of a path name at the end of a handler reads the name to its end.\<close>

definition print_name :: "nat \<Rightarrow> bytes \<Rightarrow> 's rstate \<Rightarrow> 's rstate res" where
  "print_name off op st = (case cstring off op of None \<Rightarrow> Fault | Some _ \<Rightarrow> Done st)"

definition trfs_run_open_op ::
  "'s kern \<Rightarrow> (nat \<Rightarrow> bool) \<Rightarrow> bytes \<Rightarrow> 's rstate \<Rightarrow> 's rstate res" where
  "trfs_run_open_op kern mok op st =
     (case (cstring (offsetof u_trfs_open_op F_pathname) op, get_int u_trfs_open_op F_flags op,
            get_nat u_trfs_open_op F_mode op, get_nat u_trfs_open_op F_addr op,
            get_int u_trfs_open_op F_pid op) of
        (Some pathname, Some flags, Some mode, Some addr, Some pid) \<Rightarrow>
          (let (ret, st) = sys kern (Sys_open pathname flags mode) st in
           case OMAP_OP mok ret addr pid (om st) of
             None \<Rightarrow> Fault
           | Some m \<Rightarrow> print_name (offsetof u_trfs_open_op F_pathname) op (st\<lparr>om := m\<rparr>))
      | _ \<Rightarrow> Fault)"

text \<open>\<open>read\<close> fills a local buffer of 4,096 bytes, whatever count the record asks for.\<close>

abbreviation (input) MAX_BYTES :: int where "MAX_BYTES \<equiv> 4096"

definition trfs_run_read_op :: "'s kern \<Rightarrow> bytes \<Rightarrow> 's rstate \<Rightarrow> 's rstate res" where
  "trfs_run_read_op kern op st =
     (case (get_nat u_trfs_read_op F_addr op, get_int u_trfs_read_op F_pid op,
            get_nat u_trfs_read_op F_count op, get_int u_trfs_read_op F_ret op) of
        (Some addr, Some pid, Some count, Some oret) \<Rightarrow>
          (case trfs_omap_getfd addr pid (om st) of
             None \<Rightarrow> Fault
           | Some fd \<Rightarrow>
               let (n, st) = sys kern (Sys_read fd count) st in
               if n > MAX_BYTES then Fault
               else MAP_RETVAL (n = oret) (print_name (offsetof u_trfs_read_op F_pathname) op) st)
      | _ \<Rightarrow> Fault)"

text \<open>The count is compared as a \<open>size_t\<close>.\<close>

definition trfs_run_write_op :: "'s kern \<Rightarrow> bytes \<Rightarrow> 's rstate \<Rightarrow> 's rstate res" where
  "trfs_run_write_op kern op st =
     (case (get_nat u_trfs_write_op F_addr op, get_int u_trfs_write_op F_pid op,
            get_nat u_trfs_write_op F_count op, get_nat u_trfs_write_op F_len op) of
        (Some addr, Some pid, Some count, Some len) \<Rightarrow>
          (case (trfs_omap_getfd addr pid (om st),
                 load (offsetof u_trfs_write_op F_pathname + len) count op) of
             (Some fd, Some d) \<Rightarrow>
               let (n, st) = sys kern (Sys_write fd d) st in
               MAP_RETVAL (size_t n = count) (print_name (offsetof u_trfs_write_op F_pathname) op) st
           | _ \<Rightarrow> Fault)
      | _ \<Rightarrow> Fault)"

definition trfs_run_close_op :: "'s kern \<Rightarrow> bytes \<Rightarrow> 's rstate \<Rightarrow> 's rstate res" where
  "trfs_run_close_op kern op st =
     (case (get_nat u_trfs_close_op F_addr op, get_int u_trfs_close_op F_pid op) of
        (Some addr, Some pid) \<Rightarrow>
          (case (trfs_omap_getfd addr pid (om st), trfs_omap_delete_op addr pid (om st)) of
             (Some fd, Some m) \<Rightarrow>
               let (r, st) = sys kern (Sys_close fd) (st\<lparr>om := m\<rparr>) in
               print_name (offsetof u_trfs_close_op F_pathname) op st
           | _ \<Rightarrow> Fault)
      | _ \<Rightarrow> Fault)"

text \<open>The handlers for extended attributes make no system call; the dispatcher never calls them.\<close>

definition run_xattr :: "cstruct \<Rightarrow> bytes \<Rightarrow> 's rstate \<Rightarrow> 's rstate res" where
  "run_xattr S op st =
     (case get_int S F_ret op of None \<Rightarrow> Fault | Some oret \<Rightarrow> MAP_RETVAL (0 = oret) Done st)"

definition trfs_run_setxattr_op :: "bytes \<Rightarrow> 's rstate \<Rightarrow> 's rstate res" where
  "trfs_run_setxattr_op op st = run_xattr u_trfs_setxattr_op op st"

definition trfs_run_getxattr_op :: "bytes \<Rightarrow> 's rstate \<Rightarrow> 's rstate res" where
  "trfs_run_getxattr_op op st = run_xattr u_trfs_getxattr_op op st"

definition trfs_run_listxattr_op :: "bytes \<Rightarrow> 's rstate \<Rightarrow> 's rstate res" where
  "trfs_run_listxattr_op op st = run_xattr u_trfs_listxattr_op op st"

definition trfs_run_removexattr_op :: "bytes \<Rightarrow> 's rstate \<Rightarrow> 's rstate res" where
  "trfs_run_removexattr_op op st = run_xattr u_trfs_removexattr_op op st"

subsection \<open>Start and end of a replay\<close>

text \<open>
  \<open>trfs_rpd_init\<close> empties the map; whether the structure with the handler table could be
  allocated is \<open>ok\<close>. \<open>trfs_rpd_exit\<close> frees the nodes of the map.
\<close>

definition trfs_rpd_init :: "bool \<Rightarrow> omem \<Rightarrow> bool \<times> omem" where
  "trfs_rpd_init ok m = (ok, m\<lparr>omap := NULL\<rparr>)"

definition trfs_rpd_exit :: "omem \<Rightarrow> omem option" where
  "trfs_rpd_exit m = trfs_omap_destroy_list m"

end
