(* ===== verification/Treplay.thy ===== *)
theory Treplay
  imports Replay_Ops
begin

section \<open>The replayer (Userland/treplay.c)\<close>

text \<open>
  The main program reads the trace file page by page, cuts each page into records and calls the
  handler of each record. A record that is cut off by the end of the page is meant to be read
  again with the next page; the lemmas show that the program returns to the start of the
  record only when that record is as long as what is left of the page, and that a trace that fits
  into one page is replayed record by record.

  The loop over the records terminates: a record whose recorded size is smaller than seven is a
  memory fault, because the type is read from a copy of the record of that size. The loop
  over the pages need not terminate and carries fuel; \<open>None\<close> means that the fuel ran out.
\<close>

subsection \<open>Dispatching a record\<close>

text \<open>
  \<open>op\<close> is the memory from the start of the record; a type without a case is skipped.
\<close>

definition replay_record ::
  "'s kern \<Rightarrow> (nat \<Rightarrow> bool) \<Rightarrow> (nat \<Rightarrow> bytes) \<Rightarrow> nat \<Rightarrow> bytes \<Rightarrow> 's rstate \<Rightarrow> 's rstate res" where
  "replay_record kern mok stk rtype op st =
     (if rtype = 6 then trfs_run_mkdir_op kern op st
      else if rtype = 7 then trfs_run_rmdir_op kern op st
      else if rtype = 3 then trfs_run_link_op kern op st
      else if rtype = 5 then trfs_run_symlink_op kern op st
      else if rtype = 4 then trfs_run_unlink_op kern op st
      else if rtype = 9 then trfs_run_trunct_op op st
      else if rtype = 10 then trfs_run_rename_op kern stk op st
      else if rtype = 23 then trfs_run_open_op kern mok op st
      else if rtype = 20 then trfs_run_read_op kern op st
      else if rtype = 21 then trfs_run_write_op kern op st
      else if rtype = 24 then trfs_run_close_op kern op st
      else Done st)"

subsection \<open>The records of a page\<close>

text \<open>
  \<open>trfs_read_tfile_buf\<close>: \<open>page\<close> is the whole buffer, \<open>pos\<close> and \<open>len\<close> the rest of it
  that is still to be cut. The result is the number of bytes the caller is to go back.
  \<open>rmok\<close> tells whether the copy of the record can be allocated.
\<close>

function trfs_read_tfile_buf ::
  "'s kern \<Rightarrow> (nat \<Rightarrow> bool) \<Rightarrow> (nat \<Rightarrow> bytes) \<Rightarrow> (nat \<Rightarrow> bool) \<Rightarrow> bytes \<Rightarrow> nat \<Rightarrow> nat \<Rightarrow> 's rstate \<Rightarrow>
   (nat \<times> 's rstate) res" where
  "trfs_read_tfile_buf kern mok stk rmok page pos len st =
     (if 0 < len then
        (case load (pos + 4) 2 page of
           None \<Rightarrow> Fault
         | Some d \<Rightarrow>
             let rsize = le_dec d in
             if rsize > len then Done (rsize, st)
             else if \<not> rmok rsize then Fault
             else
               (case load pos rsize page of
                  None \<Rightarrow> Fault
                | Some rec \<Rightarrow>
                    (case load 6 1 rec of
                       None \<Rightarrow> Fault
                     | Some t \<Rightarrow>
                         (case replay_record kern mok stk (le_dec t) (drop pos page) st of
                            Fault \<Rightarrow> Fault
                          | Exits st' \<Rightarrow> Exits (0, st')
                          | Done st' \<Rightarrow>
                              trfs_read_tfile_buf kern mok stk rmok page (pos + rsize) (len - rsize) st'))))
      else Done (0, st))"
  by pat_completeness auto

termination
  by (relation "measure (\<lambda>(kern, mok, stk, rmok, page, pos, len, st). len)")
    (auto simp: load_def split: if_splits)

declare trfs_read_tfile_buf.simps [simp del]

subsection \<open>The pages of the file\<close>

abbreviation (input) PAGE_SIZE :: nat where "PAGE_SIZE \<equiv> 4096"

text \<open>
  The loop of \<open>main\<close> over the trace file \<open>tf\<close>: \<open>fsize\<close> is what it believes is left,
  \<open>fpos\<close> the position in the file, \<open>page\<close> the buffer. Going back before the start of the
  file fails and leaves the position where it is.
\<close>

primrec replay_pages ::
  "nat \<Rightarrow> 's kern \<Rightarrow> (nat \<Rightarrow> bool) \<Rightarrow> (nat \<Rightarrow> bytes) \<Rightarrow> (nat \<Rightarrow> bool) \<Rightarrow> bytes \<Rightarrow> bytes \<Rightarrow> int \<Rightarrow> nat \<Rightarrow>
   's rstate \<Rightarrow> 's rstate res option" where
  "replay_pages 0 kern mok stk rmok tf page fsize fpos st = None"
| "replay_pages (Suc k) kern mok stk rmok tf page fsize fpos st =
     (if fsize > 0 then
        let chunk = take PAGE_SIZE (drop fpos tf); n = length chunk in
        if n = 0 then Some (Done st)
        else
          let page = chunk @ drop n page; fpos = fpos + n in
          case trfs_read_tfile_buf kern mok stk rmok page 0 n st of
            Fault \<Rightarrow> Some Fault
          | Exits (_, st') \<Rightarrow> Some (Exits st')
          | Done (left_bytes, st') \<Rightarrow>
              replay_pages k kern mok stk rmok tf page (fsize - int n + int left_bytes)
                (if left_bytes \<le> fpos then fpos - left_bytes else fpos) st'
      else Some (Done st))"

subsection \<open>The command line\<close>

text \<open>
  \<open>getopt\<close> with the options \<open>n\<close> and \<open>s\<close>: arguments that start with a dash are groups of
  option letters, up to a lone double dash; the others are kept. \<open>None\<close> is an unknown letter.
\<close>

fun opt_letters :: "string \<Rightarrow> int \<Rightarrow> int option" where
  "opt_letters [] g = Some g"
| "opt_letters (ch # cs) g =
     (if ch = CHR ''n'' then opt_letters cs 1
      else if ch = CHR ''s'' then opt_letters cs 2
      else None)"

fun scan_args :: "string list \<Rightarrow> int \<Rightarrow> (int \<times> string list) option" where
  "scan_args [] g = Some (g, [])"
| "scan_args (a # as) g =
     (if a = ''--'' then Some (g, as)
      else if length a > 1 \<and> hd a = CHR ''-'' then
        (case opt_letters (tl a) g of None \<Rightarrow> None | Some g' \<Rightarrow> scan_args as g')
      else
        (case scan_args as g of None \<Rightarrow> None | Some (g', rest) \<Rightarrow> Some (g', a # rest)))"

text \<open>
  \<open>main\<close>: \<open>args\<close> are the arguments without the program's name, \<open>files\<close> gives the contents
  of the files that can be opened for reading, \<open>page0\<close> what the fresh buffer holds. The result is the exit
  status with the outcome of the replay, if it got so far; \<open>None\<close> when the fuel runs out.
\<close>

definition main ::
  "nat \<Rightarrow> 's kern \<Rightarrow> (nat \<Rightarrow> bool) \<Rightarrow> (nat \<Rightarrow> bytes) \<Rightarrow> (nat \<Rightarrow> bool) \<Rightarrow> (string \<Rightarrow> bytes option) \<Rightarrow>
   bytes \<Rightarrow> string list \<Rightarrow> 's rstate \<Rightarrow> (int \<times> 's rstate res) option" where
  "main k kern mok stk rmok files page0 args st =
     (let finish = (\<lambda>ret st. case trfs_rpd_exit (om st) of
                       None \<Rightarrow> Some (ret, Fault)
                     | Some m \<Rightarrow> Some (ret, Done (st\<lparr>om := m\<rparr>)))
      in if length args < 1 \<or> length args > 3 then finish 0 st
         else case scan_args args 0 of
                None \<Rightarrow> finish (- ENOENT) st
              | Some (g, rest) \<Rightarrow>
                  let st = st\<lparr>gflags := g\<rparr> in
                  (case rest of
                     [] \<Rightarrow> finish (- ENOENT) st
                   | tfile # _ \<Rightarrow>
                       if length tfile \<ge> 256 then Some (0, Fault)
                       else case files tfile of
                              None \<Rightarrow> finish (- ENOENT) st
                            | Some tf \<Rightarrow>
                                let st = st\<lparr>om := snd (trfs_rpd_init True (om st))\<rparr> in
                                (case replay_pages k kern mok stk rmok tf page0 (int32 (int (length tf))) 0 st of
                                   None \<Rightarrow> None
                                 | Some Fault \<Rightarrow> Some (0, Fault)
                                 | Some (Exits st') \<Rightarrow> Some (0, Exits st')
                                 | Some (Done st') \<Rightarrow> finish 0 st')))"

section \<open>Lemmas\<close>

subsection \<open>Cutting a page into records\<close>

text \<open>A record as the cutter sees it: its size in the header, large enough for the type.\<close>

definition cuttable :: "nat \<Rightarrow> bytes \<Rightarrow> bool" where
  "cuttable ty rec \<longleftrightarrow> headed (length rec) ty rec \<and> 7 \<le> length rec \<and> length rec < 65536 \<and> ty < 256"

text \<open>What the replay of a sequence of records amounts to.\<close>

fun replay_records ::
  "'s kern \<Rightarrow> (nat \<Rightarrow> bool) \<Rightarrow> (nat \<Rightarrow> bytes) \<Rightarrow> (nat \<times> bytes) list \<Rightarrow> bytes \<Rightarrow> 's rstate \<Rightarrow> 's rstate res" where
  "replay_records kern mok stk [] rest st = Done st"
| "replay_records kern mok stk ((ty, rec) # recs) rest st =
     (case replay_record kern mok stk ty (rec @ concat (map snd recs) @ rest) st of
        Fault \<Rightarrow> Fault
      | Exits st' \<Rightarrow> Exits st'
      | Done st' \<Rightarrow> replay_records kern mok stk recs rest st')"

lemma load_drop: "off \<le> length blk \<Longrightarrow> load p n (drop off blk) = load (off + p) n blk"
  by (auto simp: load_def add.commute add.left_commute)

text \<open>One round of the loop over the records.\<close>

lemma cut_one:
  assumes "cuttable ty rec" and "\<forall>n. rmok n"
  shows "trfs_read_tfile_buf kern mok stk rmok (pre @ rec @ rest) (length pre) (length rec + L) st =
    (case replay_record kern mok stk ty (rec @ rest) st of
       Fault \<Rightarrow> Fault
     | Exits st' \<Rightarrow> Exits (0, st')
     | Done st' \<Rightarrow>
         trfs_read_tfile_buf kern mok stk rmok (pre @ rec @ rest) (length pre + length rec) L st')"
proof -
  from assms(1) have rec: "length rec < 65536" "0 < length rec" "ty < 256"
    "load 4 2 rec = Some (le_enc 2 (length rec))" "load 6 1 rec = Some (le_enc 1 ty)" "6 \<le> length rec"
    by (auto simp: cuttable_def headed_def)
  define page where "page = pre @ rec @ rest"
  have op: "drop (length pre) page = rec @ rest" by (simp add: page_def)
  have ld: "load (length pre + p) n page = load p n rec" if "p + n \<le> length rec" for p n
    using that load_drop [of "length pre" page p n] load_prefix [of p n rec] op by (simp add: page_def)
  have sz: "load (length pre + 4) 2 page = Some (le_enc 2 (length rec))"
    using ld [of 4 2] rec by simp
  have whole: "load (length pre) (length rec) page = Some rec"
    using ld [of 0 "length rec"] by (simp add: load_def)
  have dec: "le_dec (le_enc 2 (length rec)) = length rec" "le_dec (le_enc 1 ty) = ty"
    by (rule le_dec_le_enc, use rec in simp)+
  have "0 < length rec + L" "\<not> length rec > length rec + L" using rec(2) by simp_all
  then show ?thesis
    unfolding page_def [symmetric]
    by (subst trfs_read_tfile_buf.simps)
      (simp only: sz whole dec rec(5) assms(2) op Let_def option.case if_True if_False simp_thms add_diff_cancel_left')
qed

lemma cut_page:
  assumes "list_all (\<lambda>(ty, rec). cuttable ty rec) recs" and "\<forall>n. rmok n"
  shows "trfs_read_tfile_buf kern mok stk rmok (pre @ concat (map snd recs) @ rest) (length pre)
      (length (concat (map snd recs))) st =
    (case replay_records kern mok stk recs rest st of
       Fault \<Rightarrow> Fault | Exits st' \<Rightarrow> Exits (0, st') | Done st' \<Rightarrow> Done (0, st'))"
  using assms(1)
proof (induction recs arbitrary: pre st)
  case Nil
  then show ?case by (simp add: trfs_read_tfile_buf.simps)
next
  case (Cons tr recs)
  obtain ty rec where tr: "tr = (ty, rec)" by (cases tr)
  have IH: "trfs_read_tfile_buf kern mok stk rmok (pre @ rec @ concat (map snd recs) @ rest)
      (length pre + length rec) (length (concat (map snd recs))) st' =
    (case replay_records kern mok stk recs rest st' of
       Fault \<Rightarrow> Fault | Exits st' \<Rightarrow> Exits (0, st') | Done st' \<Rightarrow> Done (0, st'))" for st'
    using Cons.IH [of "pre @ rec" st'] Cons.prems by simp
  from Cons.prems tr have "cuttable ty rec" by simp
  from cut_one [OF this assms(2), of kern mok stk pre "concat (map snd recs) @ rest"
      "length (concat (map snd recs))" st]
  show ?case by (simp add: tr IH split: res.split)
qed

subsection \<open>Going back to a cut-off record\<close>

text \<open>
  When the rest of a page holds \<open>n\<close> bytes of a record of size \<open>r > n\<close>, the program goes back
  \<open>r\<close> bytes and not \<open>n\<close>.
\<close>

lemma cut_off_record:
  assumes "list_all (\<lambda>(ty, rec). cuttable ty rec) recs" and "\<forall>n. rmok n"
    and "replay_records kern mok stk recs (part @ rest) st = Done st'"
    and "0 < length part" and "load 4 2 (part @ rest) = Some d" and "length part < le_dec d"
  shows "trfs_read_tfile_buf kern mok stk rmok (pre @ concat (map snd recs) @ part @ rest) (length pre)
      (length (concat (map snd recs)) + length part) st = Done (le_dec d, st')"
  using assms(1,3)
proof (induction recs arbitrary: pre st)
  case Nil
  have "load (length pre + 4) 2 (pre @ part @ rest) = Some d"
    using load_drop [of "length pre" "pre @ part @ rest" 4 2] assms(5) by simp
  then show ?case
    using Nil assms(4,6) by (subst trfs_read_tfile_buf.simps) simp
next
  case (Cons tr recs)
  obtain ty rec where tr: "tr = (ty, rec)" by (cases tr)
  from Cons.prems(2) tr obtain st1 where
    st1: "replay_record kern mok stk ty (rec @ concat (map snd recs) @ part @ rest) st = Done st1"
      "replay_records kern mok stk recs (part @ rest) st1 = Done st'"
    by (auto split: res.splits)
  have IH: "trfs_read_tfile_buf kern mok stk rmok (pre @ rec @ concat (map snd recs) @ part @ rest)
      (length pre + length rec) (length (concat (map snd recs)) + length part) st1 = Done (le_dec d, st')"
    using Cons.IH [of st1 "pre @ rec"] Cons.prems(1) st1(2) by simp
  from Cons.prems tr have "cuttable ty rec" by simp
  from cut_one [OF this assms(2), of kern mok stk pre "concat (map snd recs) @ part @ rest"
      "length (concat (map snd recs)) + length part" st]
  show ?case by (simp add: tr st1(1) IH add.assoc)
qed

subsection \<open>The loop over the pages\<close>

text \<open>The page after a read: the bytes read, then what the buffer held before.\<close>

lemma replay_pages_step:
  assumes recs: "list_all (\<lambda>(ty, rec). cuttable ty rec) recs" "\<forall>n. rmok n"
    and n: "n = length (concat (map snd recs))" "0 < n" "n = PAGE_SIZE \<or> n \<le> PAGE_SIZE \<and> post = []"
    and "0 < fsize"
  shows "replay_pages (Suc k) kern mok stk rmok (pre @ concat (map snd recs) @ post) page fsize (length pre) st =
    (case replay_records kern mok stk recs (drop n page) st of
       Fault \<Rightarrow> Some Fault
     | Exits st' \<Rightarrow> Some (Exits st')
     | Done st' \<Rightarrow> replay_pages k kern mok stk rmok (pre @ concat (map snd recs) @ post)
         (concat (map snd recs) @ drop n page) (fsize - int n) (length pre + n) st')"
proof -
  define bs where "bs = concat (map snd recs)"
  define tf where "tf = pre @ bs @ post"
  have chunk: "take PAGE_SIZE (drop (length pre) tf) = bs"
    using n(3) by (auto simp: tf_def n(1) bs_def [symmetric])
  have len: "length bs = n" "bs \<noteq> []" using n(1,2) by (auto simp: bs_def)
  have cut: "trfs_read_tfile_buf kern mok stk rmok (bs @ drop n page) 0 n st =
      (case replay_records kern mok stk recs (drop n page) st of
         Fault \<Rightarrow> Fault | Exits st' \<Rightarrow> Exits (0, st') | Done st' \<Rightarrow> Done (0, st'))"
    using cut_page [OF recs, of kern mok stk "[]" "drop n page" st]
    by (simp add: bs_def [symmetric] len)
  show ?thesis
    unfolding bs_def [symmetric] tf_def [symmetric]
    using assms(6) len by (simp add: chunk Let_def cut split: res.split)
qed

text \<open>Traces whose pages end where records end.\<close>

fun paged_trace :: "(nat \<times> bytes) list list \<Rightarrow> bool" where
  "paged_trace [] = True"
| "paged_trace (recs # css) =
     (list_all (\<lambda>(ty, rec). cuttable ty rec) recs \<and>
      (let n = length (concat (map snd recs)) in
       0 < n \<and> (n = PAGE_SIZE \<or> n \<le> PAGE_SIZE \<and> css = [])) \<and> paged_trace css)"

definition trace_bytes :: "(nat \<times> bytes) list list \<Rightarrow> bytes" where
  "trace_bytes css = concat (map (\<lambda>recs. concat (map snd recs)) css)"

text \<open>The replay of such a trace: page after page, each followed by the leftovers in the buffer.\<close>

fun replay_paged ::
  "'s kern \<Rightarrow> (nat \<Rightarrow> bool) \<Rightarrow> (nat \<Rightarrow> bytes) \<Rightarrow> (nat \<times> bytes) list list \<Rightarrow> bytes \<Rightarrow> 's rstate \<Rightarrow> 's rstate res" where
  "replay_paged kern mok stk [] page st = Done st"
| "replay_paged kern mok stk (recs # css) page st =
     (let bs = concat (map snd recs); rest = drop (length bs) page in
      case replay_records kern mok stk recs rest st of
        Fault \<Rightarrow> Fault
      | Exits st' \<Rightarrow> Exits st'
      | Done st' \<Rightarrow> replay_paged kern mok stk css (bs @ rest) st')"

lemma replay_paged_trace:
  assumes "paged_trace css" and "\<forall>n. rmok n" and "length css < k"
  shows "replay_pages k kern mok stk rmok (pre @ trace_bytes css) page (int (length (trace_bytes css)))
      (length pre) st = Some (replay_paged kern mok stk css page st)"
  using assms(1,3)
proof (induction css arbitrary: pre page k st)
  case Nil
  then show ?case by (cases k) (simp_all add: trace_bytes_def)
next
  case (Cons recs css)
  define bs where "bs = concat (map snd recs)"
  obtain k' where k: "k = Suc k'" "length css < k'" using Cons.prems(2) by (cases k) auto
  have tb: "trace_bytes (recs # css) = bs @ trace_bytes css" by (simp add: trace_bytes_def bs_def)
  have n: "0 < length bs" "length bs = PAGE_SIZE \<or> length bs \<le> PAGE_SIZE \<and> trace_bytes css = []"
    and recs: "list_all (\<lambda>(ty, rec). cuttable ty rec) recs" and css: "paged_trace css"
    using Cons.prems(1) by (auto simp: bs_def trace_bytes_def Let_def)
  have step: "replay_pages k kern mok stk rmok (pre @ bs @ trace_bytes css) page
      (int (length bs + length (trace_bytes css))) (length pre) st =
    (case replay_records kern mok stk recs (drop (length bs) page) st of
       Fault \<Rightarrow> Some Fault
     | Exits st' \<Rightarrow> Some (Exits st')
     | Done st' \<Rightarrow> replay_pages k' kern mok stk rmok (pre @ bs @ trace_bytes css)
         (bs @ drop (length bs) page) (int (length (trace_bytes css))) (length pre + length bs) st')"
    using replay_pages_step [of recs rmok "length bs" "trace_bytes css"
        "int (length bs + length (trace_bytes css))" k' kern mok stk pre page st] recs assms(2) n
    by (simp add: bs_def [symmetric] k(1) del: replay_pages.simps split: res.split)
  have IH: "replay_pages k' kern mok stk rmok (pre @ bs @ trace_bytes css)
      (bs @ drop (length bs) page) (int (length (trace_bytes css))) (length pre + length bs) st' =
    Some (replay_paged kern mok stk css (bs @ drop (length bs) page) st')" for st'
    using Cons.IH [OF css k(2), of "pre @ bs"] by simp
  show ?case
    using step by (simp add: tb IH bs_def [symmetric] Let_def split: res.split)
qed

section \<open>Properties\<close>

text \<open>A record of a type that is not replayed, of any size.\<close>

definition skipped_rec :: "nat \<Rightarrow> bytes" where
  "skipped_rec n = le_enc 4 1 @ le_enc 2 n @ le_enc 1 14 @ replicate (n - 7) 0"

lemma skipped_cuttable:
  assumes "8 \<le> n" and "n < 65536"
  shows "cuttable 14 (skipped_rec n)" "length (skipped_rec n) = n"
proof -
  show len: "length (skipped_rec n) = n" using assms by (simp add: skipped_rec_def)
  have "drop 4 (skipped_rec n) = le_enc 2 n @ le_enc 1 14 @ replicate (n - 7) 0"
    "drop 6 (skipped_rec n) = le_enc 1 14 @ replicate (n - 7) 0"
    by (simp_all add: skipped_rec_def del: le_enc.simps)
  then show "cuttable 14 (skipped_rec n)"
    using assms by (simp add: cuttable_def headed_def load_def len del: le_enc.simps)
qed

text \<open>C26: A trace in which no record crosses a page boundary is replayed completely and in order, and
  the replayer stops after one round for each page: the result is that of calling the handler of
  every record, one after the other, on the memory that starts at the record.\<close>

theorem paged_trace_is_replayed:
  assumes "paged_trace css" and "\<forall>n. rmok n"
  shows "replay_pages (Suc (length css)) kern mok stk rmok (trace_bytes css) page
      (int (length (trace_bytes css))) 0 st = Some (replay_paged kern mok stk css page st)"
  using replay_paged_trace [OF assms, of "Suc (length css)" kern mok stk "[]" page st] by simp

theorem paged_trace_is_replayed_witness:
  "replay_pages 3 (\<lambda>s c. (0, s)) (\<lambda>_. True) (\<lambda>_. []) (\<lambda>_. True)
     (skipped_rec 4000 @ skipped_rec 96 @ skipped_rec 8) (replicate 4096 0) 4104 0
     \<lparr>om = \<lparr>omap = NULL, cells = Map.empty, mallocs = 0\<rparr>, gflags = 0, os = (), verdicts = []\<rparr> =
   Some (Done \<lparr>om = \<lparr>omap = NULL, cells = Map.empty, mallocs = 0\<rparr>, gflags = 0, os = (), verdicts = []\<rparr>)"
proof -
  let ?css = "[[(14, skipped_rec 4000), (14, skipped_rec 96)], [(14, skipped_rec 8)]]"
  have "paged_trace ?css" by (simp add: skipped_cuttable Let_def)
  note run = paged_trace_is_replayed [OF this, where rmok = "\<lambda>_. True"]
  have "trace_bytes ?css = skipped_rec 4000 @ skipped_rec 96 @ skipped_rec 8"
    by (simp add: trace_bytes_def)
  with run show ?thesis
    by (simp add: skipped_cuttable replay_record_def numeral_3_eq_3 del: replay_pages.simps)
qed

text \<open>C27: When the first page ends in the middle of a record, the replayer does not return to the
  start of that record: it continues as many bytes before it as the page is short of the
  whole record, in the middle of what it has already replayed.\<close>

theorem cut_off_record_goes_back_too_far:
  assumes "list_all (\<lambda>(ty, rec). cuttable ty rec) recs" and "\<forall>n. rmok n"
    and "length (concat (map snd recs) @ part) = PAGE_SIZE" and "length page = PAGE_SIZE"
    and "load 4 2 part = Some d" and "length part < le_dec d" and "le_dec d \<le> PAGE_SIZE"
    and "replay_records kern mok stk recs part st = Done st'" and "0 < fsize"
  shows "replay_pages (Suc k) kern mok stk rmok (concat (map snd recs) @ part @ tail) page fsize 0 st =
    replay_pages k kern mok stk rmok (concat (map snd recs) @ part @ tail)
      (concat (map snd recs) @ part) (fsize - int PAGE_SIZE + int (le_dec d))
      (length (concat (map snd recs)) - (le_dec d - length part)) st'"
proof -
  define bs where "bs = concat (map snd recs)"
  have len: "length bs + length part = 4096" using assms(3) by (simp add: bs_def)
  then have ne: "bs \<noteq> [] \<or> part \<noteq> []" by auto
  have part: "0 < length part" using assms(5) by (auto simp: load_def split: if_splits)
  have chunk: "take 4096 (bs @ part @ tail) = bs @ part" using len by simp
  have seek: "4096 - le_dec d = length bs - (le_dec d - length part)" using len assms(6) by simp
  have cut: "trfs_read_tfile_buf kern mok stk rmok (bs @ part) 0 4096 st = Done (le_dec d, st')"
    using cut_off_record [OF assms(1,2), of kern mok stk part "[]" st st' d "[]"] assms(5,6,8) part len
    by (simp add: bs_def)
  show ?thesis
    unfolding bs_def [symmetric]
    using assms(4,7,9) len ne by (auto simp: chunk Let_def cut seek)
qed

theorem cut_off_record_goes_back_too_far_witness:
  "replay_pages 2 (\<lambda>s c. (0, s)) (\<lambda>_. True) (\<lambda>_. []) (\<lambda>_. True)
     (skipped_rec 4080 @ take 16 (skipped_rec 20) @ drop 16 (skipped_rec 20)) (replicate 4096 0) 4100 0
     \<lparr>om = \<lparr>omap = NULL, cells = Map.empty, mallocs = 0\<rparr>, gflags = 0, os = (), verdicts = []\<rparr> =
   replay_pages 1 (\<lambda>s c. (0, s)) (\<lambda>_. True) (\<lambda>_. []) (\<lambda>_. True)
     (skipped_rec 4080 @ take 16 (skipped_rec 20) @ drop 16 (skipped_rec 20))
     (skipped_rec 4080 @ take 16 (skipped_rec 20)) 24 4076
     \<lparr>om = \<lparr>omap = NULL, cells = Map.empty, mallocs = 0\<rparr>, gflags = 0, os = (), verdicts = []\<rparr>"
proof -
  let ?st = "\<lparr>om = \<lparr>omap = NULL, cells = Map.empty, mallocs = 0\<rparr>, gflags = 0, os = (), verdicts = []\<rparr>"
  have "load 4 2 (skipped_rec 20) = Some (le_enc 2 20)"
    using skipped_cuttable [of 20] by (simp add: cuttable_def headed_def del: le_enc.simps)
  then have ld: "load 4 2 (take 16 (skipped_rec 20)) = Some (le_enc 2 20)"
    using skipped_cuttable [of 20] by (auto simp: load_def drop_take)
  have dec: "le_dec (le_enc 2 20) = 20" by (rule le_dec_le_enc) simp
  have "replay_records (\<lambda>s c. (0, s)) (\<lambda>_. True) (\<lambda>_. []) [(14, skipped_rec 4080)] (take 16 (skipped_rec 20)) ?st =
      Done ?st" by (simp add: replay_record_def)
  from cut_off_record_goes_back_too_far [OF _ _ _ _ ld _ _ this, where rmok = "\<lambda>_. True" and
      page = "replicate 4096 0" and fsize = 4100 and k = 1 and tail = "drop 16 (skipped_rec 20)"]
  show ?thesis
    by (simp add: skipped_cuttable dec del: replay_pages.simps le_enc.simps append_take_drop_id One_nat_def)
qed

end
