(* ===== verification/Codes.thy ===== *)
theory Codes
  imports Log_Ops Treplay
begin

section \<open>The codes of the operations (trfs/trfs_ops.h, Userland/trfs_ops.h)\<close>

text \<open>
  Kernel and replayer agree on a record by the code of its operation, which both headers
  declare. The kernel writes the code into the record and uses it as the number of the bit in
  the bitmap; the replayer selects the handler by it, in a switch over the table of its
  operations. The theory compares the two declarations and follows the code of every traced
  call to the handler it selects.
\<close>

section \<open>Definitions\<close>

datatype trfs_ops =
    Op_create | Op_lookup | Op_link | Op_unlink | Op_symlink | Op_mkdir | Op_rmdir | Op_mknod | Op_truncate | Op_rename
  | Op_permission | Op_setattr | Op_getattr | Op_setxattr | Op_getxattr | Op_listxattr | Op_removexattr
  | Op_d_revalidate | Op_d_release | Op_read | Op_write | Op_mmap | Op_open | Op_close | Op_flush | Op_fsync | Op_fasync
  | Op_read_iter | Op_write_iter | Op_file_release

primrec op_code :: "trfs_ops \<Rightarrow> nat" where
  "op_code Op_create = 1" | "op_code Op_lookup = 2" | "op_code Op_link = 3" | "op_code Op_unlink = 4"
| "op_code Op_symlink = 5" | "op_code Op_mkdir = 6" | "op_code Op_rmdir = 7" | "op_code Op_mknod = 8"
| "op_code Op_truncate = 9" | "op_code Op_rename = 10" | "op_code Op_permission = 11" | "op_code Op_setattr = 12"
| "op_code Op_getattr = 13" | "op_code Op_setxattr = 14" | "op_code Op_getxattr = 15" | "op_code Op_listxattr = 16"
| "op_code Op_removexattr = 17" | "op_code Op_d_revalidate = 18" | "op_code Op_d_release = 19" | "op_code Op_read = 20"
| "op_code Op_write = 21" | "op_code Op_mmap = 22" | "op_code Op_open = 23" | "op_code Op_close = 24"
| "op_code Op_flush = 25" | "op_code Op_fsync = 26" | "op_code Op_fasync = 27" | "op_code Op_read_iter = 28"
| "op_code Op_write_iter = 29" | "op_code Op_file_release = 30"

primrec u_op_code :: "trfs_ops \<Rightarrow> nat" where
  "u_op_code Op_create = 1" | "u_op_code Op_lookup = 2" | "u_op_code Op_link = 3" | "u_op_code Op_unlink = 4"
| "u_op_code Op_symlink = 5" | "u_op_code Op_mkdir = 6" | "u_op_code Op_rmdir = 7" | "u_op_code Op_mknod = 8"
| "u_op_code Op_truncate = 9" | "u_op_code Op_rename = 10" | "u_op_code Op_permission = 11" | "u_op_code Op_setattr = 12"
| "u_op_code Op_getattr = 13" | "u_op_code Op_setxattr = 14" | "u_op_code Op_getxattr = 15" | "u_op_code Op_listxattr = 16"
| "u_op_code Op_removexattr = 17" | "u_op_code Op_d_revalidate = 18" | "u_op_code Op_d_release = 19" | "u_op_code Op_read = 20"
| "u_op_code Op_write = 21" | "u_op_code Op_mmap = 22" | "u_op_code Op_open = 23" | "u_op_code Op_close = 24"
| "u_op_code Op_flush = 25" | "u_op_code Op_fsync = 26" | "u_op_code Op_fasync = 27" | "u_op_code Op_read_iter = 28"
| "u_op_code Op_write_iter = 29" | "u_op_code Op_file_release = 30"

text \<open>The table \<open>log_ops\<close> of the replayer: the handler of each member, under the operation it is named after.\<close>

definition replay_ops ::
  "'s kern \<Rightarrow> (nat \<Rightarrow> bool) \<Rightarrow> (nat \<Rightarrow> bytes) \<Rightarrow> (trfs_ops \<times> (bytes \<Rightarrow> 's rstate \<Rightarrow> 's rstate res)) list" where
  "replay_ops kn mok stk =
     [(Op_open, trfs_run_open_op kn mok), (Op_read, trfs_run_read_op kn), (Op_write, trfs_run_write_op kn),
      (Op_close, trfs_run_close_op kn), (Op_mkdir, trfs_run_mkdir_op kn), (Op_rmdir, trfs_run_rmdir_op kn),
      (Op_link, trfs_run_link_op kn), (Op_truncate, trfs_run_trunct_op), (Op_symlink, trfs_run_symlink_op kn),
      (Op_unlink, trfs_run_unlink_op kn), (Op_rename, trfs_run_rename_op kn stk),
      (Op_setxattr, trfs_run_setxattr_op), (Op_getxattr, trfs_run_getxattr_op),
      (Op_listxattr, trfs_run_listxattr_op), (Op_removexattr, trfs_run_removexattr_op)]"

text \<open>The cases of the switch in \<open>trfs_read_tfile_buf\<close>.\<close>

definition switch_cases :: "trfs_ops list" where
  "switch_cases = [Op_mkdir, Op_rmdir, Op_link, Op_symlink, Op_unlink, Op_truncate, Op_rename, Op_open, Op_read,
     Op_write, Op_close]"

subsection \<open>Specification vocabulary\<close>

text \<open>The operation a traced call stands for.\<close>

fun call_op :: "trace_call \<Rightarrow> trfs_ops" where
  "call_op (T_open _ _) = Op_open"
| "call_op (T_read _ _ _ _) = Op_read"
| "call_op (T_write _ _ _ _ _) = Op_write"
| "call_op (T_close _ _) = Op_close"
| "call_op (T_mkdir _ _ _) = Op_mkdir"
| "call_op (T_rmdir _ _) = Op_rmdir"
| "call_op (T_unlink _ _) = Op_unlink"
| "call_op (T_link _ _ _) = Op_link"
| "call_op (T_symlink _ _ _) = Op_symlink"
| "call_op (T_mknod _ _ _ _) = Op_mknod"
| "call_op (T_rename _ _ _) = Op_rename"
| "call_op (T_setxattr _ _ _ _ _ _) = Op_setxattr"
| "call_op (T_getxattr _ _ _ _) = Op_getxattr"
| "call_op (T_listxattr _ _ _) = Op_listxattr"
| "call_op (T_removexattr _ _ _) = Op_removexattr"

text \<open>What the replayer does with the code of a record: the first case with that code, the member of the table.\<close>

definition selected ::
  "'s kern \<Rightarrow> (nat \<Rightarrow> bool) \<Rightarrow> (nat \<Rightarrow> bytes) \<Rightarrow> nat \<Rightarrow> bytes \<Rightarrow> 's rstate \<Rightarrow> 's rstate res" where
  "selected kn mok stk code op st =
     (case find (\<lambda>x. u_op_code x = code) switch_cases of
        None \<Rightarrow> Done st
      | Some x \<Rightarrow> (case map_of (replay_ops kn mok stk) x of None \<Rightarrow> Fault | Some h \<Rightarrow> h op st))"

section \<open>Lemmas\<close>

lemma codes_equal: "op_code x = u_op_code x"
  by (cases x) simp_all

lemma codes_different: "op_code x = op_code y \<Longrightarrow> x = y"
  by (cases x) (cases y; simp)+

lemma switch_uses_table: "replay_record kn mok stk code op st = selected kn mok stk code op st"
  by (simp add: replay_record_def selected_def switch_cases_def replay_ops_def)

lemma call_code: "call_bit c = op_code (if call_op c = Op_mknod then Op_close else call_op c)"
  by (cases c) simp_all

section \<open>Properties\<close>

text \<open>C17: Kernel and replayer speak the same codes. The two headers give every operation the same code, no
  two operations share one, and the switch of the replayer is a search in its table. So the
  record of every traced call reaches the handler of its own operation, or is skipped when the
  switch has no case for it (the four operations on extended attributes, for which the table
  has a handler) - all but \<open>mknod\<close>, whose record carries the code of \<open>close\<close> and is replayed as a
  close.\<close>

theorem records_reach_their_handler:
  "(\<forall>x. op_code x = u_op_code x) \<and> inj op_code \<and>
   call_bit c = op_code (if call_op c = Op_mknod then Op_close else call_op c) \<and>
   replay_record kn mok stk (call_bit c) op st =
     (if call_op c = Op_mknod then trfs_run_close_op kn op st
      else if call_op c \<in> set switch_cases then the (map_of (replay_ops kn mok stk) (call_op c)) op st
      else Done st)"
proof -
  have "inj op_code" using codes_different by (rule injI)
  moreover have "replay_record kn mok stk (call_bit c) op st =
     (if call_op c = Op_mknod then trfs_run_close_op kn op st
      else if call_op c \<in> set switch_cases then the (map_of (replay_ops kn mok stk) (call_op c)) op st
      else Done st)"
    unfolding switch_uses_table
    by (cases c) (simp_all add: selected_def switch_cases_def replay_ops_def)
  ultimately show ?thesis using codes_equal call_code by blast
qed

end
