(* ===== verification/Replay.thy ===== *)
theory Replay
  imports Log_Ops Treplay
begin

section \<open>Replaying what the kernel recorded\<close>

text \<open>
  The kernel side (theory \<open>Log_Ops\<close>) and the user side (theories \<open>Replay_Ops\<close>, \<open>Treplay\<close>)
  put together: for the record of each traced call, the handler that the replayer chooses makes
  the system call that \<open>replay_call\<close> names, with the arguments of the traced call. The records of
  \<open>link\<close>, \<open>symlink\<close>, \<open>rename\<close> and \<open>mknod\<close> have their own restrictions, which
  \<open>replay_call\<close> and \<open>replayable\<close> spell out.
\<close>

subsection \<open>What a record stands for\<close>

text \<open>
  The new name of a \<open>link\<close> is cut to the length of the old one; the target of a \<open>symlink\<close> must
  fit into a local array; the first name of a \<open>rename\<close> continues with what the stack holds.
\<close>

fun replay_call ::
  "'s kern \<Rightarrow> (nat \<Rightarrow> bool) \<Rightarrow> (nat \<Rightarrow> bytes) \<Rightarrow> int \<Rightarrow> trace_call \<Rightarrow> 's rstate \<Rightarrow> 's rstate res" where
  "replay_call kern mok stk pid (T_mkdir d m r) st =
     (let (ret, st) = sys kern (Sys_mkdir (qname d) (nat (m mod 2 ^ 32))) st in
      MAP_RETVAL (ret = int32 r) Done st)"
| "replay_call kern mok stk pid (T_rmdir d r) st =
     (let (ret, st) = sys kern (Sys_rmdir (qname d)) st in MAP_RETVAL (ret = int32 r) Done st)"
| "replay_call kern mok stk pid (T_unlink d r) st =
     (let (ret, st) = sys kern (Sys_unlink (qname d)) st in MAP_RETVAL (ret = int32 r) Done st)"
| "replay_call kern mok stk pid (T_link d e r) st =
     (let (ret, st) = sys kern (Sys_link (qname d) (take (qlen d) (qname e))) st in
      MAP_RETVAL (ret = int32 r) Done st)"
| "replay_call kern mok stk pid (T_symlink d t r) st =
     (if length (cstr t) < 256 then
        let (ret, st) = sys kern (Sys_symlink (cstr t) (qname d)) st in
        MAP_RETVAL (ret = int32 r) Done st
      else Fault)"
| "replay_call kern mok stk pid (T_rename d e r) st =
     (case cstring 0 (qname d @ drop (qlen d) (take 256 (stk (length (verdicts st))))) of
        None \<Rightarrow> Fault
      | Some p1 \<Rightarrow>
          let (ret, st) = sys kern (Sys_rename p1 (qname e)) st in
          MAP_RETVAL (ret = int32 r) Done st)"
| "replay_call kern mok stk pid (T_open f r) st =
     (let (ret, st) = sys kern (Sys_open (qname (fl_name f)) (sint (fl_flags f)) (unat (fl_mode f))) st in
      case OMAP_OP mok ret (fl_addr f) pid (om st) of
        None \<Rightarrow> Fault
      | Some m \<Rightarrow> Done (st\<lparr>om := m\<rparr>))"
| "replay_call kern mok stk pid (T_read f k pos r) st =
     (case trfs_omap_getfd (fl_addr f) pid (om st) of
        None \<Rightarrow> Fault
      | Some fd \<Rightarrow>
          let (n, st) = sys kern (Sys_read fd k) st in
          if n > MAX_BYTES then Fault else MAP_RETVAL (n = int32 r) Done st)"
| "replay_call kern mok stk pid (T_write f u k pos r) st =
     (case trfs_omap_getfd (fl_addr f) pid (om st) of
        None \<Rightarrow> Fault
      | Some fd \<Rightarrow>
          let (n, st) = sys kern (Sys_write fd (take k u)) st in
          MAP_RETVAL (size_t n = k) Done st)"
| "replay_call kern mok stk pid (T_close f r) st =
     (case (trfs_omap_getfd (fl_addr f) pid (om st), trfs_omap_delete_op (fl_addr f) pid (om st)) of
        (Some fd, Some m) \<Rightarrow> Done (snd (sys kern (Sys_close fd) (st\<lparr>om := m\<rparr>)))
      | _ \<Rightarrow> Fault)"
| "replay_call kern mok stk pid c st = Done st"

text \<open>
  The calls this covers: everything but \<open>mknod\<close>, whose record has the type of \<open>close\<close>, with
  addresses, counts and process numbers in the range of their types.
\<close>

fun replayable :: "trace_call \<Rightarrow> bool" where
  "replayable (T_mknod _ _ _ _) = False"
| "replayable (T_open f _) = (fl_addr f < 2 ^ 64)"
| "replayable (T_read f k _ _) = (fl_addr f < 2 ^ 64 \<and> k < 2 ^ 64)"
| "replayable (T_write f _ k _ _) = (fl_addr f < 2 ^ 64 \<and> k < 2 ^ 64)"
| "replayable (T_close f _) = (fl_addr f < 2 ^ 64)"
| "replayable (T_symlink _ t _) = (length (cstr t) < 2 ^ 16)"
| "replayable _ = True"

section \<open>Lemmas\<close>

subsection \<open>Reading fields back\<close>

lemma carried_load:
  assumes "carries pid c rec" and "(off, v) \<in> set (call_facts pid c)"
  shows "load off (length v) (rec @ rest) = Some v"
proof -
  have v: "load off (length v) rec = Some v" using assms by (auto simp: carries_def list_all_iff)
  then have "off + length v \<le> length rec" by (auto simp: load_def split: if_splits)
  with v load_prefix show ?thesis by metis
qed

lemma carried_nat:
  assumes "carries pid c rec" and "setf S f v \<in> set (call_facts pid c)"
    and "offsetof U f = offsetof S f" and "fieldsize U f = fieldsize S f"
  shows "get_nat U f (rec @ rest) = Some (nat (v mod 256 ^ fieldsize S f))"
  using carried_load [of pid c rec "offsetof S f" "le_int (fieldsize S f) v" rest] assms
  by (simp add: get_nat_def setf_def le_dec_le_int)

lemma carried_int:
  assumes "carries pid c rec" and "setf S f v \<in> set (call_facts pid c)"
    and "offsetof U f = offsetof S f" and "fieldsize U f = fieldsize S f" and "fieldsize S f = 4"
  shows "get_int U f (rec @ rest) = Some (int32 v)"
  using carried_load [of pid c rec "offsetof S f" "le_int (fieldsize S f) v" rest] assms
  by (simp add: get_int_def setf_def sle_dec_def le_dec_le_int int32_mod)

lemma cstring_text:
  assumes "load off (length (s @ [0])) blk = Some (s @ [0])" and "0 \<notin> set s"
  shows "cstring off blk = Some s"
proof -
  have t: "take (Suc (length s)) (drop off blk) = s @ [0]"
    using assms(1) by (auto simp: load_def split: if_splits)
  have "drop off blk = take (Suc (length s)) (drop off blk) @ drop (Suc (length s)) (drop off blk)"
    by (rule append_take_drop_id [symmetric])
  then obtain tail where "drop off blk = s @ 0 # tail" unfolding t by simp
  then show ?thesis using cstr_terminated [OF assms(2)] by (simp add: cstring_def)
qed

lemma carried_text:
  assumes "carries pid c rec" and "(off, s @ [0]) \<in> set (call_facts pid c)" and "0 \<notin> set s"
  shows "cstring off (rec @ rest) = Some s"
  using carried_load [OF assms(1,2)] assms(3) by (rule cstring_text)

text \<open>A zero in what follows the record ends every string in it.\<close>

lemma cstring_ends:
  assumes "0 \<in> set rest" and "off \<le> length rec"
  shows "\<exists>s. cstring off (rec @ rest) = Some s"
  using assms by (simp add: cstring_def)

lemma print_name_ends:
  "0 \<in> set rest \<Longrightarrow> off \<le> length rec \<Longrightarrow> print_name off (rec @ rest) st = Done st"
  using cstring_ends [of rest off rec] by (auto simp: print_name_def)

subsection \<open>The handlers on the kernel's records\<close>

lemma mkdir_replays:
  assumes "carries pid (T_mkdir d m r) rec" and "name_ok d"
  shows "trfs_run_mkdir_op kern (rec @ rest) st = replay_call kern mok stk pid (T_mkdir d m r) st"
  using carried_text [OF assms(1), of 22 "qname d" rest]
    carried_nat [OF assms(1), of trfs_mkdir_op F_mode m u_trfs_mkdir_op rest]
    carried_int [OF assms(1), of trfs_mkdir_op F_ret r u_trfs_mkdir_op rest] assms(2)
  by (simp add: trfs_run_mkdir_op_def name_ok_def)

lemma rmdir_replays:
  assumes "carries pid (T_rmdir d r) rec" and "name_ok d"
  shows "trfs_run_rmdir_op kern (rec @ rest) st = replay_call kern mok stk pid (T_rmdir d r) st"
  using carried_text [OF assms(1), of 18 "qname d" rest]
    carried_int [OF assms(1), of trfs_rmdir_op F_ret r u_trfs_rmdir_op rest] assms(2)
  by (simp add: trfs_run_rmdir_op_def name_ok_def)

lemma unlink_replays:
  assumes "carries pid (T_unlink d r) rec" and "name_ok d"
  shows "trfs_run_unlink_op kern (rec @ rest) st = replay_call kern mok stk pid (T_unlink d r) st"
  using carried_text [OF assms(1), of 18 "qname d" rest]
    carried_int [OF assms(1), of trfs_unlink_op F_ret r u_trfs_unlink_op rest] assms(2)
  by (simp add: trfs_run_unlink_op_def name_ok_def)

text \<open>The strings that the handlers copy into local arrays.\<close>

lemma local_name:
  assumes "load off (length s) blk = Some s" and "0 \<notin> set s" and "length s < 256"
  shows "local_terminated off (length s) blk = Some s"
  using assms by (auto simp: local_terminated_def cstr_def takeWhile_eq_all_conv)

lemma cstr_take: "0 \<notin> set s \<Longrightarrow> cstr (take n (s @ 0 # t)) = take n s"
  by (induction s arbitrary: n) (auto simp: cstr_def take_Cons split: nat.split)

lemma local_cut:
  assumes "load off (length (s @ [0])) blk = Some (s @ [0])" and "0 \<notin> set s" and "n < 256"
    and "off + n \<le> length blk"
  shows "local_terminated off n blk = Some (take n s)"
proof -
  have t: "take (Suc (length s)) (drop off blk) = s @ [0]"
    using assms(1) by (auto simp: load_def split: if_splits)
  have "drop off blk = take (Suc (length s)) (drop off blk) @ drop (Suc (length s)) (drop off blk)"
    by (rule append_take_drop_id [symmetric])
  then obtain tail where tail: "drop off blk = s @ 0 # tail" unfolding t by simp
  have "load off n blk = Some (take n (s @ 0 # tail))" using assms(4) tail by (simp add: load_def)
  then show ?thesis using cstr_take [OF assms(2)] assms(3) by (simp add: local_terminated_def)
qed

lemma rename_replays:
  assumes c: "carries pid (T_rename d e r) rec" and n: "name_ok d" "name_ok e"
  shows "trfs_run_rename_op kern stk (rec @ rest) st = replay_call kern mok stk pid (T_rename d e r) st"
proof -
  have p1: "load 20 (qlen d) (rec @ rest) = Some (qname d)"
    using carried_load [OF c, of 20 "qname d" rest] n(1) by (simp add: name_ok_def)
  have p2: "load (20 + qlen d) (length (qname e @ [0])) (rec @ rest) = Some (qname e @ [0])"
    by (rule carried_load [OF c]) simp
  then have "local_terminated (20 + qlen d) (qlen e) (rec @ rest) = Some (qname e)"
    using local_cut [OF p2, of "qlen e"] n(2) by (auto simp: name_ok_def load_def split: if_splits)
  with p1 carried_nat [OF c, of trfs_rename_op F_len1 "int (qlen d)" u_trfs_rename_op rest]
    carried_nat [OF c, of trfs_rename_op F_len2 "int (qlen e)" u_trfs_rename_op rest]
    carried_int [OF c, of trfs_rename_op F_ret r u_trfs_rename_op rest] n
  show ?thesis
    by (simp add: trfs_run_rename_op_def local_open_def name_ok_def Let_def split: option.split)
qed

lemma link_replays:
  assumes c: "carries pid (T_link d e r) rec" and n: "name_ok d" "name_ok e"
    and len: "length rec = call_size (T_link d e r)"
  shows "trfs_run_link_op kern (rec @ rest) st = replay_call kern mok stk pid (T_link d e r) st"
proof -
  have "local_terminated 20 (qlen d) (rec @ rest) = Some (qname d)"
    using carried_load [OF c, of 20 "qname d" rest] n(1) local_name [of 20 "qname d"]
    by (simp add: name_ok_def)
  moreover have p2: "load (20 + qlen d) (length (qname e @ [0])) (rec @ rest) = Some (qname e @ [0])"
    by (rule carried_load [OF c]) simp
  then have "local_terminated (20 + qlen d) (qlen d) (rec @ rest) = Some (take (qlen d) (qname e))"
    using local_cut [OF p2, of "qlen d"] n len by (simp add: name_ok_def)
  ultimately show ?thesis
    using carried_nat [OF c, of trfs_link_op F_plen "int (qlen d)" u_trfs_link_op rest]
      carried_nat [OF c, of trfs_link_op F_hlen "int (qlen d)" u_trfs_link_op rest]
      carried_int [OF c, of trfs_link_op F_ret r u_trfs_link_op rest] n(1)
    by (simp add: trfs_run_link_op_def name_ok_def Let_def)
qed

lemma symlink_replays:
  assumes c: "carries pid (T_symlink d t r) rec" and n: "name_ok d" and t: "length (cstr t) < 2 ^ 16"
  shows "trfs_run_symlink_op kern (rec @ rest) st = replay_call kern mok stk pid (T_symlink d t r) st"
proof -
  have p1: "local_terminated 20 (qlen d) (rec @ rest) = Some (qname d)"
    using carried_load [OF c, of 20 "qname d" rest] n(1) local_name [of 20 "qname d"]
    by (simp add: name_ok_def)
  have p2: "load (20 + qlen d) (length (cstr t @ [0])) (rec @ rest) = Some (cstr t @ [0])"
    by (rule carried_load [OF c]) simp
  have "local_terminated (20 + qlen d) (length (cstr t)) (rec @ rest) =
      (if length (cstr t) < 256 then Some (cstr t) else None)"
    using local_cut [OF p2 cstr_no_nul, of "length (cstr t)"] p2
    by (auto simp: local_terminated_def load_def split: if_splits)
  with p1 show ?thesis
    using carried_nat [OF c, of trfs_symlink_op F_plen "int (qlen d)" u_trfs_symlink_op rest]
      carried_nat [OF c, of trfs_symlink_op F_slen "int (length (cstr t))" u_trfs_symlink_op rest]
      carried_int [OF c, of trfs_symlink_op F_ret r u_trfs_symlink_op rest] n(1) t
    by (simp add: trfs_run_symlink_op_def name_ok_def Let_def)
qed

lemma nat_uint_mod: "nat (uint (w :: u32) mod 4294967296) = unat w"
proof -
  have "uint w < 4294967296" using uint_lt2p [of w] by simp
  then have "uint w mod 4294967296 = uint w" by (simp add: mod_pos_pos_trivial)
  then show ?thesis by simp
qed

lemma int32_uint: "int32 (uint (w :: u32)) = sint w"
  by (simp add: int32_def)

lemma open_replays:
  assumes c: "carries pid (T_open f r) rec" and n: "name_ok (fl_name f)" and a: "fl_addr f < 2 ^ 64"
    and pid: "int32 pid = pid"
  shows "trfs_run_open_op kern mok (rec @ rest) st = replay_call kern mok stk pid (T_open f r) st"
proof -
  have "cstring 38 (rec @ rest) = Some (qname (fl_name f))"
    using carried_text [OF c, of 38 "qname (fl_name f)" rest] n by (simp add: name_ok_def)
  with carried_int [OF c, of trfs_open_op F_flags "uint (fl_flags f)" u_trfs_open_op rest]
    carried_nat [OF c, of trfs_open_op F_mode "uint (fl_mode f)" u_trfs_open_op rest]
    carried_nat [OF c, of trfs_open_op F_addr "int (fl_addr f)" u_trfs_open_op rest]
    carried_int [OF c, of trfs_open_op F_pid pid u_trfs_open_op rest] a pid
  show ?thesis
    by (simp add: trfs_run_open_op_def print_name_def int32_uint nat_uint_mod Let_def split_beta
        split: option.split)
qed

lemma read_replays:
  assumes c: "carries pid (T_read f k pos r) rec" and n: "name_ok (fl_name f)"
    and a: "fl_addr f < 2 ^ 64" "k < 2 ^ 64" and pid: "int32 pid = pid"
  shows "trfs_run_read_op kern (rec @ rest) st = replay_call kern mok stk pid (T_read f k pos r) st"
proof -
  have "cstring 42 (rec @ rest) = Some (qname (fl_name f))"
    using carried_text [OF c, of 42 "qname (fl_name f)" rest] n by (simp add: name_ok_def)
  with carried_nat [OF c, of trfs_read_op F_addr "int (fl_addr f)" u_trfs_read_op rest]
    carried_nat [OF c, of trfs_read_op F_count "int k" u_trfs_read_op rest]
    carried_int [OF c, of trfs_read_op F_pid pid u_trfs_read_op rest]
    carried_int [OF c, of trfs_read_op F_ret r u_trfs_read_op rest] a pid
  show ?thesis by (simp add: trfs_run_read_op_def print_name_def MAP_RETVAL_def Let_def split_beta split: option.split)
qed

lemma write_replays:
  assumes c: "carries pid (T_write f u k pos r) rec" and n: "name_ok (fl_name f)"
    and a: "fl_addr f < 2 ^ 64" "k < 2 ^ 64" "k \<le> length u" and pid: "int32 pid = pid"
    and rest: "0 \<in> set rest" and len: "42 \<le> length rec"
  shows "trfs_run_write_op kern (rec @ rest) st = replay_call kern mok stk pid (T_write f u k pos r) st"
proof -
  have "load (42 + qlen (fl_name f)) k (rec @ rest) = Some (take k u)"
    using carried_load [OF c, of "42 + qlen (fl_name f)" "take k u" rest] a(3) by simp
  with carried_nat [OF c, of trfs_write_op F_addr "int (fl_addr f)" u_trfs_write_op rest]
    carried_nat [OF c, of trfs_write_op F_count "int k" u_trfs_write_op rest]
    carried_nat [OF c, of trfs_write_op F_len "int (qlen (fl_name f))" u_trfs_write_op rest]
    carried_int [OF c, of trfs_write_op F_pid pid u_trfs_write_op rest] a(1,2) pid n
  show ?thesis
    by (simp add: trfs_run_write_op_def print_name_ends [OF rest len] name_ok_def MAP_RETVAL_def Let_def split_beta split: option.split)
qed

lemma close_replays:
  assumes c: "carries pid (T_close f r) rec" and a: "fl_addr f < 2 ^ 64" and pid: "int32 pid = pid"
    and rest: "0 \<in> set rest" and len: "30 \<le> length rec"
  shows "trfs_run_close_op kern (rec @ rest) st = replay_call kern mok stk pid (T_close f r) st"
  using carried_nat [OF c, of trfs_close_op F_addr "int (fl_addr f)" u_trfs_close_op rest]
    carried_int [OF c, of trfs_close_op F_pid pid u_trfs_close_op rest] a pid
  by (simp add: trfs_run_close_op_def print_name_ends [OF rest len] split_beta Let_def split: option.split)

lemma record_replays:
  assumes rec: "is_record pid c rid rec" and wf: "call_wf c" "replayable c"
    and pid: "int32 pid = pid" and rest: "0 \<in> set rest"
  shows "replay_record kern mok stk (call_bit c) (rec @ rest) st = replay_call kern mok stk pid c st"
proof -
  have car: "carries pid c rec" and len: "length rec = call_size c"
    using rec by (auto simp: is_record_def headed_def)
  show ?thesis
  proof (cases c)
    case (T_write f u k pos r)
    with car len wf pid rest show ?thesis
      by (simp add: replay_record_def write_replays call_wf_def del: replay_call.simps)
  next
    case (T_close f r)
    with car len wf pid rest show ?thesis
      by (simp add: replay_record_def close_replays del: replay_call.simps)
  next
    case (T_link d e r)
    with car len wf show ?thesis
      by (simp add: replay_record_def link_replays call_wf_def del: replay_call.simps)
  qed (use car wf pid in \<open>simp_all add: replay_record_def call_wf_def del: replay_call.simps
      add: mkdir_replays rmdir_replays unlink_replays rename_replays symlink_replays open_replays
        read_replays replay_call.simps(11-15)\<close>)
qed

subsection \<open>A whole trace\<close>

fun replay_calls ::
  "'s kern \<Rightarrow> (nat \<Rightarrow> bool) \<Rightarrow> (nat \<Rightarrow> bytes) \<Rightarrow> int \<Rightarrow> trace_call list \<Rightarrow> 's rstate \<Rightarrow> 's rstate res" where
  "replay_calls kern mok stk pid [] st = Done st"
| "replay_calls kern mok stk pid (c # cs) st =
     (case replay_call kern mok stk pid c st of
        Fault \<Rightarrow> Fault
      | Exits st' \<Rightarrow> Exits st'
      | Done st' \<Rightarrow> replay_calls kern mok stk pid cs st')"

text \<open>The records of a list of calls, with their types.\<close>

definition typed_records :: "(trace_call \<times> u32) list \<Rightarrow> bytes list \<Rightarrow> (nat \<times> bytes) list" where
  "typed_records cs recs = zip (map (call_bit \<circ> fst) cs) recs"

lemma typed_records_bytes:
  "length cs = length recs \<Longrightarrow> concat (map snd (typed_records cs recs)) = concat recs"
  by (simp add: typed_records_def)

lemma record_cuttable:
  assumes "is_record pid c rid rec" and "call_size c < 65536"
  shows "cuttable (call_bit c) rec"
  using assms call_size_pos [of c] call_bit_lt [of c]
  by (auto simp: cuttable_def is_record_def headed_def)

lemma records_cuttable:
  assumes "list_all2 (\<lambda>(c, rid). is_record pid c rid) cs recs"
    and "list_all (\<lambda>(c, rid). call_size c < 65536) cs"
  shows "list_all (\<lambda>(ty, rec). cuttable ty rec) (typed_records cs recs)"
  using assms
  by (induction rule: list_all2_induct) (auto simp: typed_records_def record_cuttable)

lemma calls_replay:
  assumes "list_all2 (\<lambda>(c, rid). is_record pid c rid) cs recs"
    and "list_all (\<lambda>(c, rid). call_wf c \<and> replayable c) cs"
    and "int32 pid = pid" and "0 \<in> set rest"
  shows "replay_records kern mok stk (typed_records cs recs) rest st =
    replay_calls kern mok stk pid (map fst cs) st"
  using assms(1,2)
proof (induction cs recs arbitrary: st rule: list_all2_induct)
  case Nil
  then show ?case by (simp add: typed_records_def)
next
  case (Cons crid cs rec recs)
  obtain c rid where c: "crid = (c, rid)" by (cases crid)
  have "replay_record kern mok stk (call_bit c)
      (rec @ concat (map snd (typed_records cs recs)) @ rest) st = replay_call kern mok stk pid c st"
    using record_replays [of pid c rid rec "concat (map snd (typed_records cs recs)) @ rest" kern mok stk st]
      Cons assms(3,4) c by simp
  then show ?case
    using Cons c by (simp add: typed_records_def split: res.split)
qed

section \<open>Properties\<close>




end
