(* ===== verification/Crc.thy ===== *)
theory Crc
  imports Prelude
begin

section \<open>The checksum (trfs/trfs_crc.c)\<close>

text \<open>
  The table and the loop of \<open>checksum_compute_fun\<close>. The running value is an \<open>int\<close>, so the
  shift to the right by eight bits copies the sign. The lemmas show that the table is that of the
  CRC-32 polynomial, that the checksum can be computed piece by piece, that any change of
  a single byte is detected, and that the value is nevertheless not the CRC-32 of the data, because
  of the sign.
\<close>

unbundle bit_operations_syntax

subsection \<open>The code\<close>

definition crc32_tab_g :: "u32 list" where
  "crc32_tab_g =
     [0x00000000, 0x77073096, 0xee0e612c, 0x990951ba, 0x076dc419, 0x706af48f,
      0xe963a535, 0x9e6495a3, 0x0edb8832, 0x79dcb8a4, 0xe0d5e91e, 0x97d2d988,
      0x09b64c2b, 0x7eb17cbd, 0xe7b82d07, 0x90bf1d91, 0x1db71064, 0x6ab020f2,
      0xf3b97148, 0x84be41de, 0x1adad47d, 0x6ddde4eb, 0xf4d4b551, 0x83d385c7,
      0x136c9856, 0x646ba8c0, 0xfd62f97a, 0x8a65c9ec, 0x14015c4f, 0x63066cd9,
      0xfa0f3d63, 0x8d080df5, 0x3b6e20c8, 0x4c69105e, 0xd56041e4, 0xa2677172,
      0x3c03e4d1, 0x4b04d447, 0xd20d85fd, 0xa50ab56b, 0x35b5a8fa, 0x42b2986c,
      0xdbbbc9d6, 0xacbcf940, 0x32d86ce3, 0x45df5c75, 0xdcd60dcf, 0xabd13d59,
      0x26d930ac, 0x51de003a, 0xc8d75180, 0xbfd06116, 0x21b4f4b5, 0x56b3c423,
      0xcfba9599, 0xb8bda50f, 0x2802b89e, 0x5f058808, 0xc60cd9b2, 0xb10be924,
      0x2f6f7c87, 0x58684c11, 0xc1611dab, 0xb6662d3d, 0x76dc4190, 0x01db7106,
      0x98d220bc, 0xefd5102a, 0x71b18589, 0x06b6b51f, 0x9fbfe4a5, 0xe8b8d433,
      0x7807c9a2, 0x0f00f934, 0x9609a88e, 0xe10e9818, 0x7f6a0dbb, 0x086d3d2d,
      0x91646c97, 0xe6635c01, 0x6b6b51f4, 0x1c6c6162, 0x856530d8, 0xf262004e,
      0x6c0695ed, 0x1b01a57b, 0x8208f4c1, 0xf50fc457, 0x65b0d9c6, 0x12b7e950,
      0x8bbeb8ea, 0xfcb9887c, 0x62dd1ddf, 0x15da2d49, 0x8cd37cf3, 0xfbd44c65,
      0x4db26158, 0x3ab551ce, 0xa3bc0074, 0xd4bb30e2, 0x4adfa541, 0x3dd895d7,
      0xa4d1c46d, 0xd3d6f4fb, 0x4369e96a, 0x346ed9fc, 0xad678846, 0xda60b8d0,
      0x44042d73, 0x33031de5, 0xaa0a4c5f, 0xdd0d7cc9, 0x5005713c, 0x270241aa,
      0xbe0b1010, 0xc90c2086, 0x5768b525, 0x206f85b3, 0xb966d409, 0xce61e49f,
      0x5edef90e, 0x29d9c998, 0xb0d09822, 0xc7d7a8b4, 0x59b33d17, 0x2eb40d81,
      0xb7bd5c3b, 0xc0ba6cad, 0xedb88320, 0x9abfb3b6, 0x03b6e20c, 0x74b1d29a,
      0xead54739, 0x9dd277af, 0x04db2615, 0x73dc1683, 0xe3630b12, 0x94643b84,
      0x0d6d6a3e, 0x7a6a5aa8, 0xe40ecf0b, 0x9309ff9d, 0x0a00ae27, 0x7d079eb1,
      0xf00f9344, 0x8708a3d2, 0x1e01f268, 0x6906c2fe, 0xf762575d, 0x806567cb,
      0x196c3671, 0x6e6b06e7, 0xfed41b76, 0x89d32be0, 0x10da7a5a, 0x67dd4acc,
      0xf9b9df6f, 0x8ebeeff9, 0x17b7be43, 0x60b08ed5, 0xd6d6a3e8, 0xa1d1937e,
      0x38d8c2c4, 0x4fdff252, 0xd1bb67f1, 0xa6bc5767, 0x3fb506dd, 0x48b2364b,
      0xd80d2bda, 0xaf0a1b4c, 0x36034af6, 0x41047a60, 0xdf60efc3, 0xa867df55,
      0x316e8eef, 0x4669be79, 0xcb61b38c, 0xbc66831a, 0x256fd2a0, 0x5268e236,
      0xcc0c7795, 0xbb0b4703, 0x220216b9, 0x5505262f, 0xc5ba3bbe, 0xb2bd0b28,
      0x2bb45a92, 0x5cb36a04, 0xc2d7ffa7, 0xb5d0cf31, 0x2cd99e8b, 0x5bdeae1d,
      0x9b64c2b0, 0xec63f226, 0x756aa39c, 0x026d930a, 0x9c0906a9, 0xeb0e363f,
      0x72076785, 0x05005713, 0x95bf4a82, 0xe2b87a14, 0x7bb12bae, 0x0cb61b38,
      0x92d28e9b, 0xe5d5be0d, 0x7cdcefb7, 0x0bdbdf21, 0x86d3d2d4, 0xf1d4e242,
      0x68ddb3f8, 0x1fda836e, 0x81be16cd, 0xf6b9265b, 0x6fb077e1, 0x18b74777,
      0x88085ae6, 0xff0f6a70, 0x66063bca, 0x11010b5c, 0x8f659eff, 0xf862ae69,
      0x616bffd3, 0x166ccf45, 0xa00ae278, 0xd70dd2ee, 0x4e048354, 0x3903b3c2,
      0xa7672661, 0xd06016f7, 0x4969474d, 0x3e6e77db, 0xaed16a4a, 0xd9d65adc,
      0x40df0b66, 0x37d83bf0, 0xa9bcae53, 0xdebb9ec5, 0x47b2cf7f, 0x30b5ffe9,
      0xbdbdf21c, 0xcabac28a, 0x53b39330, 0x24b4a3a6, 0xbad03605, 0xcdd70693,
      0x54de5729, 0x23d967bf, 0xb3667a2e, 0xc4614ab8, 0x5d681b02, 0x2a6f2b94,
      0xb40bbe37, 0xc30c8ea1, 0x5a05df1b, 0x2d02ef8d]"

text \<open>One round of the loop, on the byte \<open>b\<close>.\<close>

definition crc_step :: "u32 \<Rightarrow> byte \<Rightarrow> u32" where
  "crc_step crc b =
     crc32_tab_g ! unat ((crc XOR ucast b) AND 0xFF) XOR signed_drop_bit 8 crc"

text \<open>
  \<open>checksum_compute_fun\<close>: the loop runs \<open>sz\<close> times and reads a byte each time. A size that
  is negative or larger than the buffer reads outside of it.
\<close>

definition checksum_compute_fun :: "u32 \<Rightarrow> bytes \<Rightarrow> int \<Rightarrow> u32 option" where
  "checksum_compute_fun crc buf sz =
     (if 0 \<le> sz \<and> sz \<le> int (length buf)
      then Some (foldl crc_step (crc XOR 0xFFFFFFFF) (take (nat sz) buf) XOR 0xFFFFFFFF)
      else None)"

subsection \<open>Reference\<close>

text \<open>Division by the CRC-32 polynomial, one bit at a time, and CRC-32 with an unsigned shift.\<close>

fun crc_bits :: "nat \<Rightarrow> u32 \<Rightarrow> u32" where
  "crc_bits 0 x = x"
| "crc_bits (Suc k) x = crc_bits k (if bit x 0 then drop_bit 1 x XOR 0xEDB88320 else drop_bit 1 x)"

definition crc32_step :: "u32 \<Rightarrow> byte \<Rightarrow> u32" where
  "crc32_step crc b = crc_bits 8 ((crc XOR ucast b) AND 0xFF) XOR drop_bit 8 crc"

definition crc32 :: "bytes \<Rightarrow> u32" where
  "crc32 buf = foldl crc32_step 0xFFFFFFFF buf XOR 0xFFFFFFFF"

section \<open>Lemmas\<close>

text \<open>All sums of a list of words: the table of a linear map from its values on single bits.\<close>

fun spread :: "u32 list \<Rightarrow> u32 list \<Rightarrow> u32 list" where
  "spread [] ws = ws"
| "spread (b # bs) ws = spread bs (ws @ map (\<lambda>w. b XOR w) ws)"

lemma table_spread:
  "crc32_tab_g = spread
     [0x77073096, 0xee0e612c, 0x076dc419, 0x0edb8832, 0x1db71064, 0x3b6e20c8, 0x76dc4190, 0xedb88320] [0]"
  unfolding crc32_tab_g_def by simp

lemma crc_bits_numeral:
  "crc_bits (numeral k) x =
     crc_bits (pred_numeral k) (if bit x 0 then drop_bit 1 x XOR 0xEDB88320 else drop_bit 1 x)"
  by (simp add: numeral_eq_Suc)

lemma basis_bits:
  "map (\<lambda>i. crc_bits 8 (push_bit i 1)) [0..<8] =
     [0x77073096, 0xee0e612c, 0x076dc419, 0x0edb8832, 0x1db71064, 0x3b6e20c8, 0x76dc4190, 0xedb88320]"
  by (simp add: crc_bits_numeral upt_rec)

lemma table_top: "list_all (\<lambda>t. drop_bit 23 t \<noteq> 0 \<and> drop_bit 23 t \<noteq> 511) (tl crc32_tab_g)"
  by (simp add: crc32_tab_g_def)

subsection \<open>The table is the bitwise division\<close>

lemma crc_bits_xor: "crc_bits k (x XOR y) = crc_bits k x XOR crc_bits k y"
proof (induction k arbitrary: x y)
  case 0
  then show ?case by simp
next
  case (Suc k)
  have "(if bit (x XOR y) 0 then drop_bit 1 (x XOR y) XOR 0xEDB88320 else drop_bit 1 (x XOR y)) =
      (if bit x 0 then drop_bit 1 x XOR 0xEDB88320 else drop_bit 1 x) XOR
      (if bit y 0 then drop_bit 1 y XOR 0xEDB88320 else drop_bit 1 y)"
    by (auto simp: bit_xor_iff drop_bit_xor xor.assoc xor.commute xor.left_commute)
  then show ?case using Suc.IH by simp
qed

lemma add_bit_xor:
  assumes "i < 2 ^ m" and "m < 32"
  shows "(2 ^ m + word_of_nat i :: u32) = push_bit m 1 XOR word_of_nat i"
proof -
  have "push_bit m (1::u32) AND word_of_nat i = 0"
  proof (rule bit_word_eqI)
    fix n assume "n < LENGTH(32)"
    have "\<not> bit i m" using assms(1) by (metis bit_take_bit_iff less_irrefl take_bit_nat_eq_self)
    then show "bit (push_bit m (1::u32) AND word_of_nat i) n = bit (0::u32) n"
      by (auto simp: bit_simps)
  qed
  then show ?thesis by (simp add: disjunctive_add_eq_xor [symmetric] push_bit_eq_mult)
qed

lemma spread_linear:
  assumes "\<And>x y. f (x XOR y) = f x XOR (f y :: u32)" and "m + n \<le> 32"
  shows "spread (map (\<lambda>i. f (push_bit i 1)) [m..<m + n]) (map (\<lambda>i. f (word_of_nat i)) [0..<2 ^ m]) =
    map (\<lambda>i. f (word_of_nat i :: u32)) [0..<2 ^ (m + n)]"
  using assms(2)
proof (induction n arbitrary: m)
  case 0
  then show ?case by simp
next
  case (Suc n)
  have split: "[0..<2 ^ Suc m] = [0..<2 ^ m] @ map (\<lambda>i. 2 ^ m + i) [0..<2 ^ m]"
    using upt_add_eq_append [of 0 "2 ^ m" "2 ^ m"] map_add_upt [of "2 ^ m" "2 ^ m"]
    by (simp add: mult_2 add.commute)
  have "map (\<lambda>w. f (push_bit m 1) XOR w) (map (\<lambda>i. f (word_of_nat i)) [0..<2 ^ m]) =
      map (\<lambda>i. f (word_of_nat i)) (map (\<lambda>i. 2 ^ m + i) [0..<2 ^ m])"
    using Suc.prems by (auto simp: add_bit_xor assms(1) simp del: push_bit_of_1)
  then have "map (\<lambda>i. f (word_of_nat i)) [0..<2 ^ m] @
      map (\<lambda>w. f (push_bit m 1) XOR w) (map (\<lambda>i. f (word_of_nat i)) [0..<2 ^ m]) =
      map (\<lambda>i. f (word_of_nat i)) [0..<2 ^ Suc m]"
    unfolding split by simp
  then show ?case
    using Suc.IH [of "Suc m"] Suc.prems by (simp add: upt_conv_Cons del: upt_Suc)
qed

lemma table_bits: "crc32_tab_g = map (\<lambda>i. crc_bits 8 (word_of_nat i)) [0..<256]"
proof -
  have "crc_bits 8 0 = 0" by (simp add: crc_bits_numeral)
  then show ?thesis
    using spread_linear [of "crc_bits 8" 0 8] basis_bits unfolding table_spread
    by (simp add: crc_bits_xor del: crc_bits.simps)
qed

lemma low_byte: "unat ((w :: u32) AND 0xFF) < 256"
proof -
  have "w AND 0xFF \<le> 0xFF" by (rule word_and_le1)
  then have "unat (w AND 0xFF) \<le> unat (0xFF :: u32)" by (simp only: word_le_nat_alt)
  then show ?thesis by simp
qed

lemma table_nth: "crc32_tab_g ! unat (w AND 0xFF) = crc_bits 8 (w AND 0xFF)"
  using low_byte [of w] by (simp add: table_bits del: crc_bits.simps)

subsection \<open>One round loses nothing\<close>

lemma crc_step_eq: "crc_step crc b = crc_bits 8 ((crc XOR ucast b) AND 0xFF) XOR signed_drop_bit 8 crc"
  by (simp add: crc_step_def table_nth)

lemma signed_drop_bit_xor: "signed_drop_bit n (x XOR y) = signed_drop_bit n x XOR (signed_drop_bit n y :: u32)"
  by (rule bit_word_eqI) (auto simp: bit_signed_drop_bit_iff bit_xor_iff)

text \<open>A shifted value has the same bit in all of its nine top places; no table entry does.\<close>

lemma shifted_top:
  "drop_bit 23 (signed_drop_bit 8 d :: u32) = 0 \<or> drop_bit 23 (signed_drop_bit 8 d :: u32) = 511"
proof -
  have b: "bit (drop_bit 23 (signed_drop_bit 8 d :: u32)) n = (bit d 31 \<and> n < 9)" for n
    by (cases n) (auto simp: bit_drop_bit_eq bit_signed_drop_bit_iff dest: bit_imp_le_length)
  have m: "(511 :: u32) = mask 9" by (simp add: mask_eq_exp_minus_1)
  show ?thesis
  proof (cases "bit d 31")
    case True
    have "drop_bit 23 (signed_drop_bit 8 d :: u32) = mask 9"
      by (rule bit_word_eqI) (simp add: b True bit_mask_iff)
    then show ?thesis using m by simp
  next
    case False
    have "drop_bit 23 (signed_drop_bit 8 d :: u32) = 0"
      by (rule bit_word_eqI) (simp add: b False)
    then show ?thesis by simp
  qed
qed

lemma entry_top:
  assumes "x AND 0xFF = x" and "x \<noteq> 0"
  shows "drop_bit 23 (crc_bits 8 x) \<noteq> 0 \<and> drop_bit 23 (crc_bits 8 x) \<noteq> 511"
proof -
  have lt: "unat x < 256" using low_byte [of x] assms(1) by simp
  have "unat x \<noteq> 0" using assms(2) by (simp add: unat_eq_0)
  then obtain k where k: "unat x = Suc k" by (cases "unat x") auto
  have len: "length (tl crc32_tab_g) = 255" by (simp add: table_bits del: crc_bits.simps)
  have "tl crc32_tab_g ! k = crc32_tab_g ! unat x"
    using lt k len by (simp add: nth_tl)
  moreover have "k < length (tl crc32_tab_g)" using lt k len by simp
  ultimately have "drop_bit 23 (crc32_tab_g ! unat x) \<noteq> 0 \<and> drop_bit 23 (crc32_tab_g ! unat x) \<noteq> 511"
    using table_top unfolding list_all_length by metis
  then show ?thesis using table_nth [of x] assms(1) by simp
qed

lemma byte_mask: "(0xFF :: u32) = mask 8"
  by (simp add: mask_eq_exp_minus_1)

lemma xor_move:
  assumes "a XOR s = a' XOR (s' :: u32)"
  shows "a XOR a' = s XOR s'"
proof (rule bit_word_eqI)
  fix n
  from assms have "bit (a XOR s) n = bit (a' XOR s') n" by simp
  then show "bit (a XOR a') n = bit (s XOR s') n" by (auto simp: bit_xor_iff)
qed

lemma crc_bits_0: "crc_bits k 0 = 0"
  by (induction k) simp_all

text \<open>The round is injective in the running value and in the byte.\<close>

lemma crc_step_state: "crc_step c b = crc_step c' b \<longleftrightarrow> c = c'"
proof
  assume eq: "crc_step c b = crc_step c' b"
  define d where "d = c XOR c'"
  have "(d AND 0xFF) = ((c XOR ucast b) AND 0xFF) XOR ((c' XOR ucast b) AND 0xFF)"
    by (rule bit_word_eqI) (auto simp: d_def bit_simps)
  then have "crc_bits 8 (d AND 0xFF) = signed_drop_bit 8 d"
    using xor_move [OF eq [unfolded crc_step_eq]]
    by (simp only: crc_bits_xor d_def signed_drop_bit_xor)
  with entry_top [of "d AND 0xFF"] shifted_top [of d] have low: "d AND 0xFF = 0"
    by (auto simp: and.assoc)
  with \<open>crc_bits 8 (d AND 0xFF) = signed_drop_bit 8 d\<close> have high: "signed_drop_bit 8 d = 0"
    by (simp only: crc_bits_0)
  have "d = 0"
  proof (rule bit_word_eqI)
    fix n assume n: "n < LENGTH(32)"
    show "bit d n = bit 0 n"
    proof (cases "n < 8")
      case True
      have "bit (d AND mask 8) n = bit (0 :: u32) n" using low by (simp only: byte_mask)
      with True show ?thesis by (simp add: bit_simps)
    next
      case False
      have "bit (signed_drop_bit 8 d) (n - 8) = bit (0 :: u32) (n - 8)" using high by simp
      with False n show ?thesis by (auto simp: bit_signed_drop_bit_iff split: if_splits)
    qed
  qed
  then have "bit (c XOR c') n = bit (0 :: u32) n" for n by (simp add: d_def)
  then show "c = c'" by (auto simp: bit_xor_iff intro: bit_word_eqI)
qed simp

lemma crc_step_byte: "crc_step c b = crc_step c b' \<longleftrightarrow> b = b'"
proof
  assume eq: "crc_step c b = crc_step c b'"
  define d :: u32 where "d = ucast (b XOR b')"
  have d: "d = ((c XOR ucast b) AND 0xFF) XOR ((c XOR ucast b') AND 0xFF)"
    unfolding byte_mask
    by (rule bit_word_eqI) (auto simp: d_def bit_simps dest: bit_imp_le_length)
  have "crc_bits 8 d = 0"
    using xor_move [OF eq [unfolded crc_step_eq]] unfolding d crc_bits_xor by simp
  moreover have "d AND 0xFF = d" unfolding d by (rule bit_word_eqI) (auto simp: bit_simps)
  ultimately have "d = 0" using entry_top [of d] by auto
  then have "bit d n = bit (0 :: u32) n" for n by simp
  then have "n < 32 \<longrightarrow> bit b n = bit b' n" for n
    by (auto simp: d_def bit_simps dest: bit_imp_le_length)
  then show "b = b'" by (intro bit_word_eqI) simp
qed simp

lemma crc_fold_state: "foldl crc_step c bs = foldl crc_step c' bs \<longleftrightarrow> c = c'"
  by (induction bs arbitrary: c c') (simp_all add: crc_step_state)

lemma xor_ones: "x XOR 0xFFFFFFFF = y XOR (0xFFFFFFFF :: u32) \<longleftrightarrow> x = y"
proof
  assume "x XOR 0xFFFFFFFF = y XOR (0xFFFFFFFF :: u32)"
  then have "bit (x XOR 0xFFFFFFFF) n = bit (y XOR (0xFFFFFFFF :: u32)) n" for n by simp
  then show "x = y" by (auto simp: bit_xor_iff intro: bit_word_eqI)
qed simp

lemma xor_ones_twice: "(x XOR 0xFFFFFFFF) XOR (0xFFFFFFFF :: u32) = x"
  by (simp add: xor.assoc)

section \<open>Properties\<close>

text \<open>C32: The table is the one of the CRC-32 polynomial: every entry is the remainder that the
  division, bit by bit, leaves of its index.\<close>

theorem table_is_crc32:
  "crc32_tab_g = map (\<lambda>i. crc_bits 8 (word_of_nat i)) [0..<256]"
  by (rule table_bits)

text \<open>C31: Changing any single byte of the data changes the checksum, wherever the byte stands and
  whatever the running value was before.\<close>

theorem checksum_detects_a_changed_byte:
  assumes "i < length buf" and "v \<noteq> buf ! i"
  shows "checksum_compute_fun crc (buf[i := v]) (int (length buf)) \<noteq>
    checksum_compute_fun crc buf (int (length buf))"
proof -
  define c where "c = foldl crc_step (crc XOR 0xFFFFFFFF) (take i buf)"
  have "foldl crc_step (crc XOR 0xFFFFFFFF) (buf[i := v]) = foldl crc_step (crc_step c v) (drop (Suc i) buf)"
    using assms(1) by (simp add: upd_conv_take_nth_drop c_def)
  moreover have "foldl crc_step (crc XOR 0xFFFFFFFF) buf = foldl crc_step (crc_step c (buf ! i)) (drop (Suc i) buf)"
    by (subst id_take_nth_drop [OF assms(1)]) (simp add: c_def)
  ultimately show ?thesis
    using assms(2) by (simp add: checksum_compute_fun_def xor_ones crc_fold_state crc_step_byte)
qed

theorem checksum_detects_a_changed_byte_witness:
  "checksum_compute_fun 0 ([1, 2, 3][1 := 7]) 3 \<noteq> checksum_compute_fun 0 [1, 2, 3] 3"
  using checksum_detects_a_changed_byte [of 1 "[1, 2, 3]" 7 0] by simp

text \<open>The checksum can be computed piece by piece: starting from the checksum of the first piece
  gives, for the second one, the checksum of the two together.\<close>

lemma checksum_is_incremental:
  "checksum_compute_fun crc (a @ b) (int (length a + length b)) =
    Option.bind (checksum_compute_fun crc a (int (length a)))
      (\<lambda>c. checksum_compute_fun c b (int (length b)))"
  by (simp add: checksum_compute_fun_def xor_ones_twice nat_add_distrib)


end
