(* ===== verification/Sample.thy ===== *)
theory Sample
  imports Prelude
begin

section \<open>The sample workload (Userland/Tests/sample.c)\<close>

text \<open>
  The program that produces the operations of a sample trace: it copies one file to another. The
  system calls are a parameter, functions on the state \<open>'w\<close> of the system. The copying loop ends
  only when \<open>read\<close> says so, hence it is a partial function; that it ends is part of the property.
\<close>

section \<open>Definitions\<close>

subsection \<open>The program\<close>

abbreviation (input) BUF_SIZE :: nat where "BUF_SIZE \<equiv> 8192"
abbreviation (input) RD_ONLY :: nat where "RD_ONLY \<equiv> 0"
abbreviation (input) WR_ONLY_CREAT :: nat where "WR_ONLY_CREAT \<equiv> 65"

text \<open>\<open>sc_read fd n buf\<close> gives the result and the buffer afterwards.\<close>

record 'w syscalls =
  sc_open :: "string \<Rightarrow> nat \<Rightarrow> nat \<Rightarrow> 'w \<Rightarrow> int \<times> 'w"
  sc_read :: "int \<Rightarrow> nat \<Rightarrow> bytes \<Rightarrow> 'w \<Rightarrow> (int \<times> bytes) \<times> 'w"
  sc_write :: "int \<Rightarrow> bytes \<Rightarrow> 'w \<Rightarrow> int \<times> 'w"
  sc_close :: "int \<Rightarrow> 'w \<Rightarrow> int \<times> 'w"

text \<open>The loop: the first result is the exit status when a write is incomplete.\<close>

partial_function (option) copy_loop ::
  "'w syscalls \<Rightarrow> int \<Rightarrow> int \<Rightarrow> bytes \<Rightarrow> 'w \<Rightarrow> (int option \<times> 'w) option" where
  "copy_loop sc input_fd output_fd buf w =
     (case sc_read sc input_fd BUF_SIZE buf w of
        ((ret_in, buf'), w1) \<Rightarrow>
          if ret_in > 0 then
            (case sc_write sc output_fd (take (nat ret_in) buf') w1 of
               (ret_out, w2) \<Rightarrow>
                 if ret_out \<noteq> ret_in then Some (Some 4, w2)
                 else copy_loop sc input_fd output_fd buf' w2)
          else Some (None, w1))"

text \<open>\<open>main\<close>: \<open>args\<close> are the arguments without the program's name, \<open>buf\<close> what the buffer holds at first.\<close>

definition sample_main :: "'w syscalls \<Rightarrow> string list \<Rightarrow> bytes \<Rightarrow> 'w \<Rightarrow> (int \<times> 'w) option" where
  "sample_main sc args buf w =
     (case args of
        [src, dst] \<Rightarrow>
          (case sc_open sc src RD_ONLY 0 w of
             (input_fd, w1) \<Rightarrow>
               if input_fd = - 1 then Some (2, w1)
               else
                 (case sc_open sc dst WR_ONLY_CREAT 0x1A4 w1 of
                    (output_fd, w2) \<Rightarrow>
                      if output_fd = - 1 then Some (3, w2)
                      else
                        (case copy_loop sc input_fd output_fd buf w2 of
                           None \<Rightarrow> None
                         | Some (Some status, w3) \<Rightarrow> Some (status, w3)
                         | Some (None, w3) \<Rightarrow>
                             Some (0, snd (sc_close sc input_fd (snd (sc_close sc output_fd w3)))))))
      | _ \<Rightarrow> Some (1, w))"

subsection \<open>What is relied on of the system calls\<close>

text \<open>
  After the manual pages: \<open>rest\<close> is what is left to be read through the descriptor, \<open>dest\<close> the
  contents of the other file and the position in it. \<open>read\<close> returns at least one byte unless
  there is none left, perhaps fewer than asked for; \<open>write\<close> writes at the position, over what is there.
\<close>

definition reads_file :: "'w syscalls \<Rightarrow> int \<Rightarrow> ('w \<Rightarrow> bytes) \<Rightarrow> ('w \<Rightarrow> bytes \<times> nat) \<Rightarrow> bool" where
  "reads_file sc fd rest dest \<longleftrightarrow>
     (\<forall>n buf w. 0 < n \<longrightarrow> n \<le> length buf \<longrightarrow>
        (case sc_read sc fd n buf w of
           ((r, buf'), w') \<Rightarrow>
             0 \<le> r \<and> nat r \<le> n \<and> nat r \<le> length (rest w) \<and> (r = 0 \<longrightarrow> rest w = []) \<and>
             length buf' = length buf \<and> take (nat r) buf' = take (nat r) (rest w) \<and>
             rest w' = drop (nat r) (rest w) \<and> dest w' = dest w))"

definition writes_file :: "'w syscalls \<Rightarrow> int \<Rightarrow> ('w \<Rightarrow> bytes) \<Rightarrow> ('w \<Rightarrow> bytes \<times> nat) \<Rightarrow> bool" where
  "writes_file sc fd rest dest \<longleftrightarrow>
     (\<forall>bs w. case sc_write sc fd bs w of
        (r, w') \<Rightarrow>
          r = int (length bs) \<and> rest w' = rest w \<and>
          (case dest w of
             (c, p) \<Rightarrow> dest w' = (take p c @ bs @ drop (p + length bs) c, p + length bs)))"

section \<open>Lemmas\<close>

lemma copy_loop_copies:
  assumes rd: "reads_file sc i rest dest" and wr: "writes_file sc out rest dest"
  shows "length buf = BUF_SIZE \<Longrightarrow> dest w = (c, p) \<Longrightarrow> p \<le> length c \<Longrightarrow>
    \<exists>w'. copy_loop sc i out buf w = Some (None, w') \<and> rest w' = [] \<and>
      dest w' = (take p c @ rest w @ drop (p + length (rest w)) c, p + length (rest w))"
proof (induction "length (rest w)" arbitrary: w buf c p rule: less_induct)
  case less
  obtain r buf' w1 where read: "sc_read sc i BUF_SIZE buf w = ((r, buf'), w1)" by (metis surj_pair)
  then have r: "0 \<le> r" "nat r \<le> length (rest w)" "r = 0 \<longrightarrow> rest w = []" "length buf' = length buf"
    "take (nat r) buf' = take (nat r) (rest w)" "rest w1 = drop (nat r) (rest w)" "dest w1 = dest w"
    using rd [unfolded reads_file_def, rule_format, of BUF_SIZE buf w] less.prems(1) by simp_all
  show ?case
  proof (cases "r = 0")
    case True
    then show ?thesis using r read less.prems(2) by (subst copy_loop.simps) simp
  next
    case False
    let ?bs = "take (nat r) (rest w)"
    obtain k w2 where wrt: "sc_write sc out ?bs w1 = (k, w2)" by (metis surj_pair)
    have len: "length ?bs = nat r" using r(2) by simp
    have w2: "k = r" "rest w2 = drop (nat r) (rest w)"
      "dest w2 = (take p c @ ?bs @ drop (p + nat r) c, p + nat r)"
      using wr [unfolded writes_file_def, rule_format, of ?bs w1] wrt r less.prems(2) len by simp_all
    have "\<exists>w'. copy_loop sc i out buf' w2 = Some (None, w') \<and> rest w' = [] \<and>
        dest w' = (take (p + nat r) (take p c @ ?bs @ drop (p + nat r) c) @ rest w2 @
          drop (p + nat r + length (rest w2)) (take p c @ ?bs @ drop (p + nat r) c), p + nat r + length (rest w2))"
      by (rule less.hyps) (use w2 r less.prems False len in auto)
    moreover have "take (p + nat r) (take p c @ ?bs @ drop (p + nat r) c) = take p c @ ?bs"
      using less.prems(3) len by simp
    moreover have "drop (p + nat r + length (rest w2)) (take p c @ ?bs @ drop (p + nat r) c) = drop (p + length (rest w)) c"
      using less.prems(3) len r(2) w2(2) by (simp add: add.commute)
    moreover have "?bs @ rest w2 = rest w" "nat r + length (rest w2) = length (rest w)"
      using w2(2) r(2) by simp_all
    moreover have "copy_loop sc i out buf w = copy_loop sc i out buf' w2"
      using read wrt r False w2(1) by (subst copy_loop.simps) simp
    ultimately show ?thesis by (metis (no_types, lifting) add.assoc append.assoc)
  qed
qed

section \<open>Properties\<close>

text \<open>C18: The sample program terminates and copies: when both files can be opened it exits with 0, everything
  that was left in the source has been read, however short the single reads are, and the
  destination begins with it. The destination is not truncated: when it was longer before, its
  end stays behind the copy.\<close>

theorem sample_copies:
  assumes "sc_open sc src RD_ONLY 0 w = (i, w1)" and "i \<noteq> - 1"
    and "sc_open sc dst WR_ONLY_CREAT 0x1A4 w1 = (out, w2)" and "out \<noteq> - 1"
    and "reads_file sc i rest dest" and "writes_file sc out rest dest"
    and "dest w2 = (old, 0)" and "length buf = BUF_SIZE"
  shows "\<exists>w3. sample_main sc [src, dst] buf w = Some (0, snd (sc_close sc i (snd (sc_close sc out w3)))) \<and>
    rest w3 = [] \<and> fst (dest w3) = rest w2 @ drop (length (rest w2)) old"
proof -
  obtain w3 where "copy_loop sc i out buf w2 = Some (None, w3)" "rest w3 = []"
    "dest w3 = (rest w2 @ drop (length (rest w2)) old, length (rest w2))"
    using copy_loop_copies [OF assms(5,6,8,7)] by auto
  then show ?thesis using assms(1-4) by (intro exI [of _ w3]) (simp add: sample_main_def)
qed

text \<open>A system with two files, whose \<open>read\<close> returns at most three bytes at a time.\<close>

record two_files =
  src_rest :: bytes
  dst_file :: "bytes \<times> nat"

definition slow_calls :: "two_files syscalls" where
  "slow_calls = \<lparr>sc_open = (\<lambda>nm fl md w. (if nm = ''a'' then 3 else 4, w)),
     sc_read = (\<lambda>fd n buf w. let k = min 3 (min n (length (src_rest w))) in
       ((int k, take k (src_rest w) @ drop k buf), w\<lparr>src_rest := drop k (src_rest w)\<rparr>)),
     sc_write = (\<lambda>fd bs w. (int (length bs), w\<lparr>dst_file := (case dst_file w of
       (c, p) \<Rightarrow> (take p c @ bs @ drop (p + length bs) c, p + length bs))\<rparr>)),
     sc_close = (\<lambda>fd w. (0, w))\<rparr>"

theorem sample_copies_witness:
  "\<exists>w3. sample_main slow_calls [''a'', ''b''] (replicate BUF_SIZE 0)
      \<lparr>src_rest = [1, 2, 3, 4, 5], dst_file = ([9, 9, 9, 9, 9, 9, 9], 0)\<rparr> = Some (0, w3) \<and>
    src_rest w3 = [] \<and> fst (dst_file w3) = [1, 2, 3, 4, 5, 9, 9]"
proof -
  let ?w = "\<lparr>src_rest = [1, 2, 3, 4, 5], dst_file = ([9, 9, 9, 9, 9, 9, 9], 0)\<rparr> :: two_files"
  have "reads_file slow_calls 3 src_rest dst_file" "writes_file slow_calls 4 src_rest dst_file"
    by (auto simp: reads_file_def writes_file_def slow_calls_def Let_def min_def split: prod.splits)
  from sample_copies [OF _ _ _ _ this, of "''a''" ?w ?w "''b''" ?w "[9, 9, 9, 9, 9, 9, 9]" "replicate BUF_SIZE 0"]
  show ?thesis by (simp add: slow_calls_def)
qed

end
