(* ===== verification/Spec2Isabelle.thy ===== *)
theory Spec2Isabelle
  imports Lifecycle Locks Codes Replay Crc Sample
begin

text \<open>
  Verification of Tracefs: a stackable Linux file system that traces the operations made on it
  into a file, and a program that replays such a file.

  \<^bold>\<open>The program.\<close> The kernel module (\<^verbatim>\<open>src/trfs\<close>) is mounted on a directory of another file
  system. Each of its operations passes the request on to the lower file system
  (\<^verbatim>\<open>inode.c\<close>, \<^verbatim>\<open>file.c\<close>, \<^verbatim>\<open>mmap.c\<close>, \<^verbatim>\<open>lookup.c\<close>, \<^verbatim>\<open>dentry.c\<close>, \<^verbatim>\<open>super.c\<close>, \<^verbatim>\<open>main.c\<close>) and calls
  the tracer (\<^verbatim>\<open>trfs_ops.c\<close>), which builds a record in a fresh block of memory and sends it to a
  message queue (\<^verbatim>\<open>trfs_msgq.c\<close>). A kernel thread receives the records, collects them in a page
  and writes the page to the trace file (\<^verbatim>\<open>tr_fs.c\<close>). A character device
  (\<^verbatim>\<open>trfs_ioct.c\<close>) sets the bitmap of operations to be traced; the command
  \<^verbatim>\<open>src/Userland/trctl.c\<close> uses it. The replayer (\<^verbatim>\<open>src/Userland/treplay.c\<close>,
  \<^verbatim>\<open>src/Userland/trfs_ops.c\<close>) reads the trace file page by page and makes the system calls
  the records stand for.

  \<^bold>\<open>The theories.\<close>
  \<^item> \<open>Prelude\<close>: bytes, little-endian loads and stores, the kernel's memory as blocks that are
    allocated and freed (a fault is the value \<open>None\<close>), error numbers, the cut to an \<open>int\<close>.
  \<^item> \<open>Structs\<close>: the records of both \<^verbatim>\<open>structs.h\<close> as lists of typed fields, with the offsets and
    sizes a compiler for LP64 gives them; the two sides agree. The locale \<open>trace_record\<close> is the
    layout of one record.
  \<^item> \<open>Msgq\<close> (\<^verbatim>\<open>trfs_msgq.c\<close>): the array of queues, refined to bounded lists. The locale
    \<open>bounded_fifo\<close> is the contract of one queue.
  \<^item> \<open>Log_Write\<close> (\<^verbatim>\<open>tr_fs.c\<close>): record numbers, the trace file, the logging thread as a machine
    whose steps are one round of its loop up to and after the blocking receive.
  \<^item> \<open>Log_Ops\<close> (\<^verbatim>\<open>trfs_ops.c\<close>): the fifteen trace operations, byte by byte.
  \<^item> \<open>Pipeline\<close>: the step relation \<open>pipe\<close> of callers and thread in any order; nothing is lost,
    doubled or reordered but on the two exits the theorems describe (a full queue, number 127).
  \<^item> \<open>Omap\<close>, \<open>Replay_Ops\<close>, \<open>Treplay\<close>, \<open>Replay\<close>: the replayer's linked list of open files
    (the locale \<open>fd_table\<close> is its contract), its handlers, its loops over records and pages, and the round trip of a record.
  \<^item> \<open>Crc\<close> (\<^verbatim>\<open>trfs_crc.c\<close>), \<open>Control\<close> (\<^verbatim>\<open>trfs_ioct.c\<close>, \<^verbatim>\<open>trctl.c\<close>): checksum and bitmap.
  \<^item> \<open>Vfs\<close> (\<^verbatim>\<open>trfs.h\<close>): the state of the file system. The kernel is one parameter, a function from
    calls to results and to the kernel's objects afterwards, which it may change arbitrarily;
    the module's own memory and the log are state of their own; all calls are recorded in
    \<open>events\<close>.
  \<^item> \<open>Account\<close>: what is held (references, locks) and what is traced, read off the events, and the
    rules that show it of an operation step by step (\<open>since\<close>, the collection \<open>steps\<close>).
  \<^item> \<open>Lookup\<close> (\<^verbatim>\<open>lookup.c\<close>, \<^verbatim>\<open>dentry.c\<close>), \<open>Inode_Ops\<close> (\<^verbatim>\<open>inode.c\<close>), \<open>File_Ops\<close> (\<^verbatim>\<open>file.c\<close>,
    \<^verbatim>\<open>mmap.c\<close>): all their functions, each with its calls in the order of the source. The locales
    \<open>vfs_operation\<close> and \<open>traced_operation\<close> are the contract of an operation: it gives back
    what it takes, and it is reported to the tracer once; every operation interprets one.
  \<^item> \<open>Mount\<close> (\<^verbatim>\<open>main.c\<close>, \<^verbatim>\<open>super.c\<close>): options, mount and its error exits, unmount, the operations
    of a superblock, file handles, the caches and the entry points of the module.
  \<^item> \<open>System\<close>: the step relation \<open>reach\<close> of the mounted file system: lookups, releases, requests,
    opens, closes, mappings, page faults, calls for superblock and inodes, steps of the thread and settings of the bitmap in any
    order. By rule induction over it (\<open>reach_effects\<close>): the references held are exactly those of
    the live private data, and the trace is made of the records of the calls, in order.
  \<^item> \<open>Lifecycle\<close>: mount, any run, unmount. No operation touches what the mount set up for the
    superblock (\<open>alive\<close>, the collection \<open>lives\<close>), so the account of the whole life is balanced.
  \<^item> \<open>Locks\<close>: callers and thread statement by statement, with the two mutexes; the queue stays a
    queue under every interleaving (\<open>locked\<close>, \<open>counted\<close>, \<open>in_order\<close> are the invariants), record
    numbers may repeat.
  \<^item> \<open>Codes\<close> (both \<^verbatim>\<open>trfs_ops.h\<close>): the codes of the operations, the replayer's table and switch.
  \<^item> \<open>Sample\<close> (\<^verbatim>\<open>Userland/Tests/sample.c\<close>): the workload of the sample trace.
  \<^item> this theory: from a mount and any run of the file system to its replay.

  \<^bold>\<open>What the theorems show.\<close> The trace file holds exactly the records of the traced calls, in
  order, under every interleaving of callers and thread; a replay makes the traced system calls
  with the traced arguments; every operation of the file system, whatever the lower file system
  answers, gives back the references and locks it took, returns what it should and tells the
  tracer once what it returned; lookups, sessions on files and mounts are undone by their
  counterparts, a mount also after any run of operations. Where the code does not do what it means to, a theorem says what it does instead:
  the record numbered 127, the full queue, a long link name, a record cut off by a page, a second
  mount, a far seek in a directory, a record number read after its lock was released.

  \<^bold>\<open>Bounds and fuel.\<close> \<open>drain\<close> runs the thread for a number of steps; twice the length of the queue
  and one more empties it. The walks over the replayer's list take as fuel the number of
  allocations so far and one more, which no list can exceed. \<open>replay_pages\<close> takes one round for
  each page of the trace and one more to see the end. The loop of the option parser is
  recursive over the rest of the string. The copying loop of the sample is a partial function,
  shown to return. The trace theorems speak of runs in which the record numbers stay below 127,
  since the record with that number stops the thread; a run of this length cannot fill the
  queue of 1,024 messages. Machine integers are words, or integers with the
  wrap-around written out.

  \<^bold>\<open>Parameters.\<close> The kernel's functions, the allocators, \<open>vfs_write\<close>, \<open>match_token\<close>,
  \<open>kthread_create\<close>, the registration of devices and file systems, the system calls of the
  replayer and of the sample. What is relied on of them is named: \<open>full_write\<close>, \<open>alloc_sized\<close>,
  \<open>stable\<close> (a pinned positive dentry keeps its inode), \<open>reads_file\<close>, \<open>writes_file\<close>, \<open>ops_kept\<close>, \<open>type_kept\<close>, \<open>frozen\<close>, \<open>roots_kept\<close>, \<open>fresh_files\<close>,
  \<open>plentiful\<close>.

  \<^bold>\<open>Not modelled.\<close> Messages printed; the bytes that the lower file system stores in buffers of the
  user; the flags of allocations; \<^verbatim>\<open>trfs.mod.c\<close>, which the build generates; the tables of
  operations of superblock, dentries, mapped memory and the device, which only name functions
  that are modelled. Several operations of the file system at once are covered as far as the
  kernel's objects are concerned, which may change at any call, and as far as the log is, whose
  number and queue are shared statement by statement in \<open>Locks\<close>; the private data of a dentry
  or a file is changed by the operation at hand only.
\<close>

section \<open>From the traced call to the replayed call\<close>

lemma records_length:
  "list_all2 (\<lambda>(c, rid). is_record pid c rid) cs recs \<Longrightarrow>
   length (concat recs) = sum_list (map (call_size \<circ> fst) cs)"
  by (induction rule: list_all2_induct) (auto simp: is_record_def headed_def)

lemma sizes_bounded:
  "sum_list (map (call_size \<circ> fst) cs) < n \<Longrightarrow> list_all (\<lambda>(c, rid). call_size c < n) cs"
  by (induction cs) auto

lemma no_bytes_no_calls: "sum_list (map (call_size \<circ> fst) cs) = 0 \<Longrightarrow> cs = []"
  using call_size_pos [of "fst (hd cs)"] by (cases cs) auto

lemma zero_behind:
  assumes "length pg = 4096" and "last pg = 0" and "n < 4096"
  shows "0 \<in> set (drop n pg)"
proof -
  have "drop n pg \<noteq> []" using assms by simp
  then show ?thesis using last_in_set [of "drop n pg"] last_drop [of n pg] assms by simp
qed

lemma trace_replays:
  assumes recs: "log_inv st" "list_all2 (\<lambda>(c, rid). is_record pid c rid) cs recs" "trace st = concat recs"
    and log: "alloc_sized km" "full_write vw"
    and cs: "list_all (\<lambda>(c, rid). call_wf c \<and> replayable c) cs"
    and size: "sum_list (map (call_size \<circ> fst) cs) < 4096"
    and pg: "length pg = 4096" "last pg = 0"
    and pid: "int32 pid = pid" and mem: "\<forall>n. rmok n"
  shows "\<exists>st' st''. drain km vw (2 * length (log_queue st) + 1) st = Some st' \<and>
    trfs_log_write_flush vw st' = Some st'' \<and>
    replay_pages 2 kn mok stk rmok (written st'') pg (int (length (written st''))) 0 rst =
      Some (replay_calls kn mok stk pid (map fst cs) rst)"
proof -
  define rs where "rs = typed_records cs recs"
  have len: "length cs = length recs" using recs(2) by (rule list_all2_lengthD)
  have small: "length (concat recs) < 4096" using records_length [OF recs(2)] size by simp
  have bytes: "concat (map snd rs) = concat recs" using typed_records_bytes [OF len] by (simp add: rs_def)
  have cut: "list_all (\<lambda>(ty, rec). cuttable ty rec) rs"
    unfolding rs_def using sizes_bounded [OF size]
    by (intro records_cuttable [OF recs(2)]) (auto simp: list_all_iff)
  define css where "css = (if concat recs = [] then [] else [rs])"
  have css: "paged_trace css" "trace_bytes css = concat recs" "length css < 2"
  proof -
    show "paged_trace css"
    proof (cases "concat recs = []")
      case False
      then have "0 < length (concat recs)" by blast
      then show ?thesis using cut small False by (simp only: css_def paged_trace.simps bytes Let_def if_False) simp
    qed (simp add: css_def)
    show "trace_bytes css = concat recs" unfolding css_def trace_bytes_def using bytes by simp
    show "length css < 2" by (simp add: css_def)
  qed
  have calls: "replay_records kn mok stk rs (drop (length (concat recs)) pg) rst =
      replay_calls kn mok stk pid (map fst cs) rst"
    unfolding rs_def
    by (rule calls_replay [OF recs(2) cs pid]) (rule zero_behind [OF pg small])
  have "replay_paged kn mok stk css pg rst = replay_calls kn mok stk pid (map fst cs) rst"
  proof (cases "concat recs = []")
    case True
    have "cs = []"
      by (rule no_bytes_no_calls) (use records_length [OF recs(2)] True in simp)
    with True show ?thesis by (simp add: css_def)
  next
    case False
    then have "css = [rs]" by (simp only: css_def if_False)
    with calls show ?thesis by (simp add: bytes Let_def split: res.split)
  qed
  with replay_paged_trace [OF css(1) mem css(3), of kn mok stk "[]" pg rst]
  have rep: "replay_pages 2 kn mok stk rmok (concat recs) pg (int (length (concat recs))) 0 rst =
      Some (replay_calls kn mok stk pid (map fst cs) rst)" by (simp add: css(2))
  with drain_and_flush [OF recs(1) log] show ?thesis unfolding recs(3) by auto
qed

lemma run_replays:
  assumes run: "stable E" "reach E vw mkw allowed s0 s" "accounted R s0"
    and log: "log_inv (klg s0)" "Log_Write.trace (klg s0) = []" "traced s0 = []" "alloc_sized (kmal E)" "full_write vw"
      "complete E allowed s0"
    and cs: "list_all (\<lambda>c. sound_call c \<and> replayable c) (traced s)" "unat (next_id (klg s0)) + length (traced s) < 127"
      "sum_list (map call_size (traced s)) < 4096"
    and pg: "length pg = 4096" "last pg = 0"
    and pid: "int32 (cur_pid E) = cur_pid E" and mem: "\<forall>n. rmok n"
  shows "\<exists>st' st''. drain (kmal E) vw (2 * length (log_queue (klg s)) + 1) (klg s) = Some st' \<and>
    trfs_log_write_flush vw st' = Some st'' \<and>
    replay_pages 2 kn mok stk rmok (written st'') pg (int (length (written st''))) 0 rst =
      Some (replay_calls kn mok stk (cur_pid E) (traced s) rst)"
proof -
  have "list_all sound_call (traced s)" using cs(1) by (simp add: list_all_iff)
  then obtain ps where ps: "recorded (cur_pid E) (klg s0) (traced s) (klg s) ps" "map fst ps = traced s"
    using reach_recorded [OF run(2,1,3) log(1,3-5)] cs(2) log(6) by blast
  then obtain recs where recs: "log_inv (klg s)" "list_all2 (\<lambda>(c, rid). is_record (cur_pid E) c rid) ps recs"
    "Log_Write.trace (klg s) = concat recs" using log(2) by (auto simp: recorded_def)
  have "list_all (\<lambda>c. call_wf c \<and> replayable c) (map fst ps)"
    using cs(1) by (auto simp: ps(2) sound_call_def list_all_iff)
  then have "list_all (\<lambda>(c, rid). call_wf c \<and> replayable c) ps" by (auto simp: list_all_iff)
  moreover have "sum_list (map (call_size \<circ> fst) ps) < 4096" using cs(3) by (simp add: ps(2) [symmetric])
  ultimately show ?thesis
    using trace_replays [OF recs log(4,5) _ _ pg pid mem, of kn mok stk rst] unfolding ps(2) by blast
qed

section \<open>Properties\<close>



end
